(* ===== verification/Prelude.thy ===== *)
theory Prelude
  imports Main "HOL-Library.Char_ord" "HOL-Library.List_Lexorder" "HOL-Library.Multiset"
begin

text \<open>
  What every component of the development shares: the named collections of hints, the error
  values the Go code returns, the view of the file system the code reads through, Go maps as
  enumerations, and the generic lemmas on lists that the component proofs use.

  A Go \<open>string\<close> is a byte sequence and is a HOL \<open>string\<close> here (a \<open>char\<close> is a byte), so
  \<open>length\<close> is Go's \<open>len\<close> and the order on strings is Go's bytewise order. A Go \<open>int\<close> that
  only counts or indexes is a \<open>nat\<close>.
\<close>

named_theorems scan_bounds \<open>where a byte scanner stops, relative to where it started\<close>
named_theorems go_strings \<open>characterisations of the functions of Go's strings package\<close>
named_theorems pool_defs \<open>projections of the worker pool's state\<close>

section \<open>Bytes\<close>

abbreviation NL :: char where "NL \<equiv> CHR 0x0A"
abbreviation TAB :: char where "TAB \<equiv> CHR 0x09"
abbreviation CR :: char where "CR \<equiv> CHR 0x0D"
abbreviation SP :: char where "SP \<equiv> CHR 0x20"
abbreviation NUL :: char where "NUL \<equiv> CHR 0x00"
abbreviation DQUOTE :: char where "DQUOTE \<equiv> CHR 0x22"
abbreviation SQUOTE :: char where "SQUOTE \<equiv> CHR 0x27"
abbreviation BQUOTE :: char where "BQUOTE \<equiv> CHR 0x60"
abbreviation BSLASH :: char where "BSLASH \<equiv> CHR 0x5C"

section \<open>Errors and the file system\<close>

text \<open>
  The Go \<open>error\<close> values the modelled code makes. \<open>Wrapped\<close> is \<open>fmt.Errorf\<close> with a \<open>%w\<close> verb
  and the text before it; \<open>errors.As\<close> looks through it.
\<close>

datatype goerror =
    UnportedInclude string
  | HostContextFlag string
  | OsError string
  | Msg string
  | Wrapped string goerror

text \<open>
  What \<open>os.ReadFile\<close> of a path gives: the bytes, \<open>os.IsNotExist\<close>, or another error for an entry that
  is there (\<open>os.Stat\<close> of it succeeds) but cannot be read. A file system is the finite list of its
  entries, by path; what is not listed does not exist.
\<close>

datatype file_read = FileData string | FileMissing | FileError string

type_synonym filesystem = "(string \<times> file_read) list"

definition readFile :: "filesystem \<Rightarrow> string \<Rightarrow> file_read" where
  "readFile fs path = (case map_of fs path of None \<Rightarrow> FileMissing | Some r \<Rightarrow> r)"

lemma readFile_data: "readFile fs path = FileData b \<Longrightarrow> FileData b \<in> snd ` set fs"
  by (auto simp: readFile_def split: option.splits dest!: map_of_SomeD) (metis image_eqI snd_conv)

lemma readFile_named: "readFile fs path = FileData b \<Longrightarrow> path \<in> fst ` set fs"
  by (auto simp: readFile_def split: option.splits dest!: map_of_SomeD) (metis image_eqI fst_conv)

text \<open>Writing replaces what the path names; removing takes every entry of the path away.\<close>

definition writeFile :: "filesystem \<Rightarrow> string \<Rightarrow> string \<Rightarrow> filesystem" where
  "writeFile fs path b = (path, FileData b) # fs"

definition removeFile :: "filesystem \<Rightarrow> string \<Rightarrow> filesystem" where
  "removeFile fs path = filter (\<lambda>(p, r). p \<noteq> path) fs"

definition contentsOf :: "filesystem \<Rightarrow> string \<Rightarrow> string" where
  "contentsOf fs path = (case readFile fs path of FileData b \<Rightarrow> b | _ \<Rightarrow> [])"

definition appendFile :: "filesystem \<Rightarrow> string \<Rightarrow> string \<Rightarrow> filesystem" where
  "appendFile fs path b = writeFile fs path (contentsOf fs path @ b)"

lemma readFile_writeFile [simp]:
  "readFile (writeFile fs p b) q = (if q = p then FileData b else readFile fs q)"
  by (simp add: readFile_def writeFile_def)

lemma readFile_appendFile [simp]:
  "readFile (appendFile fs p b) q = (if q = p then FileData (contentsOf fs p @ b) else readFile fs q)"
  by (simp add: appendFile_def)

lemma readFile_removeFile [simp]:
  "readFile (removeFile fs p) q = (if q = p then FileMissing else readFile fs q)"
proof -
  have "map_of (removeFile fs p) q = (if q = p then None else map_of fs q)"
    by (induction fs) (auto simp: removeFile_def)
  then show ?thesis by (simp add: readFile_def)
qed

lemma contentsOf_data: "readFile fs p = FileData b \<Longrightarrow> contentsOf fs p = b"
  by (simp add: contentsOf_def)

section \<open>Go maps\<close>

text \<open>
  A Go map is its list of entries, in the order one particular \<open>range\<close> loop happens to visit
  them. Go leaves that order open, so results must not depend on it: \<open>same_map\<close> says that two
  enumerations list the same map.
\<close>

type_synonym ('k, 'v) gomap = "('k \<times> 'v) list"

definition go_map :: "('k, 'v) gomap \<Rightarrow> bool" where
  "go_map m \<longleftrightarrow> distinct (map fst m)"

definition same_map :: "('k, 'v) gomap \<Rightarrow> ('k, 'v) gomap \<Rightarrow> bool" where
  "same_map m m' \<longleftrightarrow> go_map m \<and> go_map m' \<and> set m = set m'"

lemma same_map_mset: "same_map m m' \<Longrightarrow> mset m = mset m'"
  by (auto simp: same_map_def go_map_def distinct_map set_eq_iff_mset_eq_distinct)

lemma same_map_lookup: "same_map m m' \<Longrightarrow> map_of m = map_of m'"
  by (auto simp: same_map_def go_map_def intro: map_of_inject_set [THEN iffD2])

lemma go_map_lookup: "go_map m \<Longrightarrow> map_of m k = Some v \<longleftrightarrow> (k, v) \<in> set m"
  by (auto simp: go_map_def)

lemma same_map_rev: "go_map m \<Longrightarrow> same_map m (rev m)"
  by (simp add: same_map_def go_map_def rev_map [symmetric])

section \<open>First occurrences\<close>

text \<open>
  The idiom \<open>seen := map[string]bool\{\}; for ... if seen[x] \{ continue \}; seen[x] = true;
  out = append(out, x)\<close>: keep the first occurrence of each element, in order.
\<close>

fun firstOccs :: "'a set \<Rightarrow> 'a list \<Rightarrow> 'a list" where
  "firstOccs seen [] = []"
| "firstOccs seen (x # xs) =
     (if x \<in> seen then firstOccs seen xs else x # firstOccs (insert x seen) xs)"

lemma set_firstOccs [simp]: "set (firstOccs seen xs) = set xs - seen"
  by (induction seen xs rule: firstOccs.induct) auto

lemma distinct_firstOccs [simp]: "distinct (firstOccs seen xs)"
  by (induction seen xs rule: firstOccs.induct) auto

lemma firstOccs_id: "distinct xs \<Longrightarrow> set xs \<inter> seen = {} \<Longrightarrow> firstOccs seen xs = xs"
  by (induction seen xs rule: firstOccs.induct) auto

lemma firstOccs_append: "firstOccs seen (xs @ ys) = firstOccs seen xs @ firstOccs (seen \<union> set xs) ys"
  by (induction seen xs rule: firstOccs.induct) (auto simp: insert_absorb)

lemma find_first: "find P xs = Some x \<longleftrightarrow> (\<exists>pre post. xs = pre @ x # post \<and> P x \<and> list_all (\<lambda>y. \<not> P y) pre)"
proof (induction xs)
  case (Cons y ys)
  show ?case
  proof (cases "P y")
    case True
    have "(\<exists>pre post. y # ys = pre @ x # post \<and> P x \<and> list_all (\<lambda>y. \<not> P y) pre) \<longleftrightarrow> y = x"
    proof
      assume "\<exists>pre post. y # ys = pre @ x # post \<and> P x \<and> list_all (\<lambda>y. \<not> P y) pre"
      then obtain pre post where "y # ys = pre @ x # post" "list_all (\<lambda>y. \<not> P y) pre" by blast
      with True show "y = x" by (cases pre) auto
    next
      assume "y = x"
      with True have "y # ys = [] @ x # ys \<and> P x \<and> list_all (\<lambda>y. \<not> P y) []" by simp
      then show "\<exists>pre post. y # ys = pre @ x # post \<and> P x \<and> list_all (\<lambda>y. \<not> P y) pre" by blast
    qed
    with True show ?thesis by simp
  next
    case False
    have "(\<exists>pre post. y # ys = pre @ x # post \<and> P x \<and> list_all (\<lambda>y. \<not> P y) pre) \<longleftrightarrow>
        (\<exists>pre post. ys = pre @ x # post \<and> P x \<and> list_all (\<lambda>y. \<not> P y) pre)"
      (is "?l \<longleftrightarrow> ?r")
    proof
      assume ?l
      then obtain pre post where d: "y # ys = pre @ x # post" "P x" "list_all (\<lambda>y. \<not> P y) pre" by blast
      with False obtain pre' where "pre = y # pre'" by (cases pre) auto
      with d show ?r by auto
    next
      assume ?r
      then obtain pre post where "ys = pre @ x # post" "P x" "list_all (\<lambda>y. \<not> P y) pre" by blast
      with False have "y # ys = (y # pre) @ x # post \<and> P x \<and> list_all (\<lambda>y. \<not> P y) (y # pre)" by simp
      then show ?l by blast
    qed
    with False Cons show ?thesis by simp
  qed
qed simp

lemma firstOccs_filter: "firstOccs seen xs = firstOccs {} (filter (\<lambda>x. x \<notin> seen) xs)"
proof -
  have "firstOccs (A \<union> B) ys = firstOccs A (filter (\<lambda>x. x \<notin> B) ys)" for A B :: "'a set" and ys
    by (induction ys arbitrary: A) (auto simp flip: Un_insert_left)
  from this [of "{}" seen xs] show ?thesis by simp
qed

section \<open>Lists\<close>

lemma takeWhile_all: "(\<And>x. x \<in> set xs \<Longrightarrow> P x) \<Longrightarrow> takeWhile P xs = xs"
  by (simp add: takeWhile_eq_all_conv)

lemma nth_split: "i < length xs \<Longrightarrow> xs = take i xs @ xs ! i # drop (Suc i) xs"
  by (rule id_take_nth_drop)

lemma take_eq_nth: "take n xs = ys \<Longrightarrow> k < length ys \<Longrightarrow> xs ! k = ys ! k"
  by (metis length_take min_less_iff_conj nth_take)

lemma map_eq_map_conv_nth:
  "map f xs = map g ys \<longleftrightarrow> length ys = length xs \<and> (\<forall>i < length xs. f (xs ! i) = g (ys ! i))"
proof (induction xs arbitrary: ys)
  case (Cons x xs)
  show ?case
  proof (cases ys)
    case (Cons y ys')
    have "(\<forall>i < length (x # xs). f ((x # xs) ! i) = g ((y # ys') ! i)) \<longleftrightarrow>
        f x = g y \<and> (\<forall>i < length xs. f (xs ! i) = g (ys' ! i))"
      by (simp add: All_less_Suc2)
    with Cons Cons.IH [of ys'] show ?thesis by auto
  qed simp
qed auto

lemma set_List_map_filter: "set (List.map_filter f xs) = {y. \<exists>x \<in> set xs. f x = Some y}"
  by (induction xs) (auto simp: map_filter_simps split: option.splits)

lemma List_map_filter_cong:
  "(\<And>x. x \<in> set xs \<Longrightarrow> f x = g x) \<Longrightarrow> List.map_filter f xs = List.map_filter g xs"
  by (induction xs) (simp_all add: map_filter_simps split: option.split)

text \<open>The first separator of a framing splits it in one way.\<close>

lemma first_sep_unique: "c \<notin> set a \<Longrightarrow> c \<notin> set b \<Longrightarrow> a @ c # s = b @ c # t \<longleftrightarrow> a = b \<and> s = t"
proof (induction a arbitrary: b)
  case Nil
  then show ?case by (cases b) auto
next
  case (Cons x a)
  then show ?case by (cases b) auto
qed

lemma sum_list_map_update:
  fixes f :: "'a \<Rightarrow> 'b :: cancel_comm_monoid_add"
  assumes "i < length xs"
  shows "sum_list (map f (xs[i := y])) + f (xs ! i) = sum_list (map f xs) + f y"
  using assms
proof (induction xs arbitrary: i)
  case (Cons x xs)
  then show ?case by (cases i) (simp_all add: ac_simps)
qed simp

lemma list_all_update: "list_all P xs \<Longrightarrow> P y \<Longrightarrow> list_all P (xs[i := y])"
  using set_update_subset_insert [of xs i y] by (auto simp: list_all_iff)

lemma list_all_nth_mem: "list_all P xs \<Longrightarrow> i < length xs \<Longrightarrow> P (xs ! i)"
  by (simp add: list_all_length)

end
