(* ===== verification/GoStrings.thy ===== *)
theory GoStrings
  imports Prelude
begin

text \<open>
  The functions of Go's \<open>strings\<close> and \<open>bufio\<close> packages that the runner calls, on byte strings:
  prefixes and suffixes, substring search, cutting, splitting and joining, trimming of Unicode
  white space, and the line scanner with its token limit.
\<close>

section \<open>Prefixes, suffixes, search\<close>

definition HasPrefix :: "string \<Rightarrow> string \<Rightarrow> bool" where
  "HasPrefix s p \<longleftrightarrow> take (length p) s = p"

definition HasSuffix :: "string \<Rightarrow> string \<Rightarrow> bool" where
  "HasSuffix s p \<longleftrightarrow> length p \<le> length s \<and> drop (length s - length p) s = p"

definition TrimPrefix :: "string \<Rightarrow> string \<Rightarrow> string" where
  "TrimPrefix s p = (if HasPrefix s p then drop (length p) s else s)"

definition TrimSuffix :: "string \<Rightarrow> string \<Rightarrow> string" where
  "TrimSuffix s p = (if HasSuffix s p then take (length s - length p) s else s)"

text \<open>\<open>strings.Index\<close>: the first offset of \<open>sub\<close>, \<open>None\<close> for Go's -1.\<close>

fun Index :: "string \<Rightarrow> string \<Rightarrow> nat option" where
  "Index [] sub = (if sub = [] then Some 0 else None)"
| "Index (c # s) sub =
     (if HasPrefix (c # s) sub then Some 0 else map_option Suc (Index s sub))"

definition Contains :: "string \<Rightarrow> string \<Rightarrow> bool" where
  "Contains s sub \<longleftrightarrow> Index s sub \<noteq> None"

text \<open>\<open>strings.Cut\<close> around the first \<open>sep\<close>; \<open>None\<close> when it does not occur.\<close>

definition Cut :: "string \<Rightarrow> string \<Rightarrow> (string \<times> string) option" where
  "Cut s sep = (case Index s sep of None \<Rightarrow> None | Some i \<Rightarrow> Some (take i s, drop (i + length sep) s))"

lemma HasPrefix_iff [go_strings]: "HasPrefix s p \<longleftrightarrow> (\<exists>t. s = p @ t)"
  by (metis HasPrefix_def append_eq_conv_conj append_take_drop_id)

lemma HasSuffix_iff [go_strings]: "HasSuffix s p \<longleftrightarrow> (\<exists>t. s = t @ p)"
proof
  assume "HasSuffix s p"
  then have "s = take (length s - length p) s @ p"
    by (metis HasSuffix_def append_take_drop_id)
  then show "\<exists>t. s = t @ p" by blast
qed (auto simp: HasSuffix_def)

lemma HasPrefix_append [simp]: "HasPrefix (p @ t) p"
  by (simp add: HasPrefix_def)

lemma HasSuffix_append [simp]: "HasSuffix (t @ p) p"
  by (simp add: HasSuffix_def)

lemma HasPrefix_length: "HasPrefix s p \<Longrightarrow> length p \<le> length s"
  by (auto simp: HasPrefix_iff)

lemma TrimPrefix_append [simp]: "TrimPrefix (p @ t) p = t"
  by (simp add: TrimPrefix_def)

lemma TrimSuffix_append [simp]: "TrimSuffix (t @ p) p = t"
  by (simp add: TrimSuffix_def)

lemma Index_Some:
  "Index s sub = Some i \<Longrightarrow> i + length sub \<le> length s \<and> s = take i s @ sub @ drop (i + length sub) s"
proof (induction s sub arbitrary: i rule: Index.induct)
  case (2 c s sub)
  show ?case
  proof (cases "HasPrefix (c # s) sub")
    case True
    with "2.prems" show ?thesis
      by (metis HasPrefix_def HasPrefix_length Index.simps(2) add_0 append_take_drop_id
          option.inject self_append_conv2 take_0)
  next
    case False
    with "2.prems" obtain j where "i = Suc j" "Index s sub = Some j" by auto
    with "2.IH" [OF False] show ?thesis by auto
  qed
qed (auto split: if_splits)

lemma Index_None: "Index s sub = None \<longleftrightarrow> \<not> (\<exists>a b. s = a @ sub @ b)"
proof (induction s sub rule: Index.induct)
  case (2 c s sub)
  show ?case
  proof (cases "HasPrefix (c # s) sub")
    case True
    then show ?thesis by (metis HasPrefix_iff Index.simps(2) append_Nil option.discI)
  next
    case False
    have "(\<exists>a b. c # s = a @ sub @ b) \<longleftrightarrow> (\<exists>a b. s = a @ sub @ b)"
      using False by (metis HasPrefix_iff append_Cons append_Nil list.inject neq_Nil_conv)
    with False "2.IH" show ?thesis by simp
  qed
qed auto

text \<open>\<open>Index\<close> finds the leftmost occurrence.\<close>

lemma Index_least: "Index s sub = Some i \<Longrightarrow> j < i \<Longrightarrow> \<not> HasPrefix (drop j s) sub"
proof (induction s sub arbitrary: i j rule: Index.induct)
  case (2 c s sub)
  then show ?case by (cases j) (auto split: if_splits)
qed (auto split: if_splits)

lemma Contains_iff [go_strings]: "Contains s sub \<longleftrightarrow> (\<exists>a b. s = a @ sub @ b)"
  by (simp add: Contains_def Index_None)

lemma Contains_append [simp]: "Contains (a @ sub @ b) sub"
  by (auto simp: Contains_iff)

lemma Index_append_singleton:
  "c \<notin> set s \<Longrightarrow> Index (s @ c # t) [c] = Some (length s)"
  by (induction s) (auto simp: HasPrefix_def)

lemma Index_singleton_None: "Index s [c] = None \<longleftrightarrow> c \<notin> set s"
  by (metis Index_None append_Cons append_Nil in_set_conv_decomp)

lemma Cut_Some: "Cut s sep = Some (a, b) \<Longrightarrow> s = a @ sep @ b"
  by (auto simp: Cut_def split: option.splits dest: Index_Some)

lemma Cut_append: "c \<notin> set a \<Longrightarrow> Cut (a @ c # b) [c] = Some (a, b)"
  by (simp add: Cut_def Index_append_singleton)

section \<open>Splitting and joining\<close>

text \<open>\<open>strings.Split\<close> at a one-byte separator: one more piece than there are separators.\<close>

fun splitOn :: "char \<Rightarrow> string \<Rightarrow> string list" where
  "splitOn c [] = [[]]"
| "splitOn c (x # xs) =
     (if x = c then [] # splitOn c xs
      else (case splitOn c xs of [] \<Rightarrow> [[x]] | p # ps \<Rightarrow> (x # p) # ps))"

text \<open>\<open>strings.SplitN\<close> with a positive \<open>n\<close>: at most \<open>n\<close> pieces, the last one the unsplit rest.\<close>

fun splitN :: "char \<Rightarrow> nat \<Rightarrow> string \<Rightarrow> string list" where
  "splitN c 0 s = []"
| "splitN c (Suc 0) s = [s]"
| "splitN c (Suc (Suc n)) s =
     (case Cut s [c] of None \<Rightarrow> [s] | Some (a, b) \<Rightarrow> a # splitN c (Suc n) b)"

fun Join :: "string list \<Rightarrow> string \<Rightarrow> string" where
  "Join [] sep = []"
| "Join [x] sep = x"
| "Join (x # y # ys) sep = x @ sep @ Join (y # ys) sep"

lemma splitOn_nonempty [simp]: "splitOn c s \<noteq> []"
  by (cases s) (auto split: list.splits)

lemma splitOn_absent: "c \<notin> set s \<Longrightarrow> splitOn c s = [s]"
  by (induction s) auto

lemma splitOn_append: "c \<notin> set s \<Longrightarrow> splitOn c (s @ c # t) = s # splitOn c t"
  by (induction s) auto

lemma splitOn_no_sep: "p \<in> set (splitOn c s) \<Longrightarrow> c \<notin> set p"
proof (induction s arbitrary: p)
  case (Cons x xs)
  then show ?case
    by (cases "splitOn c xs") (auto split: if_splits)
qed simp

lemma Join_splitOn: "Join (splitOn c s) [c] = s"
proof (induction s)
  case (Cons x xs)
  then show ?case
    by (cases "splitOn c xs" rule: list.exhaust [case_product list.exhaust, of _ "tl (splitOn c xs)"])
      (auto split: list.splits)
qed simp

section \<open>White space\<close>

text \<open>
  \<open>strings.TrimSpace\<close> strips the runes of \<open>unicode.IsSpace\<close>: the six ASCII ones, U+0085, U+00A0,
  and the multi-byte spaces U+1680, U+2000 to U+200A, U+2028, U+2029, U+202F, U+205F and U+3000,
  here by their UTF-8 encodings.
\<close>

definition spaceRunes :: "string list" where
  "spaceRunes =
    [[TAB], [NL], [CHR 0x0B], [CHR 0x0C], [CR], [SP],
     [CHR 0xC2, CHR 0x85], [CHR 0xC2, CHR 0xA0], [CHR 0xE1, CHR 0x9A, CHR 0x80],
     [CHR 0xE2, CHR 0x80, CHR 0x80], [CHR 0xE2, CHR 0x80, CHR 0x81], [CHR 0xE2, CHR 0x80, CHR 0x82],
     [CHR 0xE2, CHR 0x80, CHR 0x83], [CHR 0xE2, CHR 0x80, CHR 0x84], [CHR 0xE2, CHR 0x80, CHR 0x85],
     [CHR 0xE2, CHR 0x80, CHR 0x86], [CHR 0xE2, CHR 0x80, CHR 0x87], [CHR 0xE2, CHR 0x80, CHR 0x88],
     [CHR 0xE2, CHR 0x80, CHR 0x89], [CHR 0xE2, CHR 0x80, CHR 0x8A], [CHR 0xE2, CHR 0x80, CHR 0xA8],
     [CHR 0xE2, CHR 0x80, CHR 0xA9], [CHR 0xE2, CHR 0x80, CHR 0xAF], [CHR 0xE2, CHR 0x81, CHR 0x9F],
     [CHR 0xE3, CHR 0x80, CHR 0x80]]"

function trimLeftOf :: "string list \<Rightarrow> string \<Rightarrow> string" where
  "trimLeftOf ws s =
     (case find (\<lambda>w. w \<noteq> [] \<and> HasPrefix s w) ws of
        None \<Rightarrow> s
      | Some w \<Rightarrow> trimLeftOf ws (drop (length w) s))"
  by pat_completeness auto
termination
  by (relation "measure (\<lambda>(ws, s). length s)")
    (auto simp: find_Some_iff HasPrefix_iff)

declare trimLeftOf.simps [simp del]

definition trimLeft :: "string \<Rightarrow> string" where
  "trimLeft s = trimLeftOf spaceRunes s"

definition trimRight :: "string \<Rightarrow> string" where
  "trimRight s = rev (trimLeftOf (map rev spaceRunes) (rev s))"

definition TrimSpace :: "string \<Rightarrow> string" where
  "TrimSpace s = trimRight (trimLeft s)"

text \<open>A string no space rune starts or ends is left as it is.\<close>

definition trimmed :: "string \<Rightarrow> bool" where
  "trimmed s \<longleftrightarrow> (\<forall>w \<in> set spaceRunes. \<not> HasPrefix s w \<and> \<not> HasSuffix s w)"

lemma trimLeftOf_stop: "find (\<lambda>w. w \<noteq> [] \<and> HasPrefix s w) ws = None \<Longrightarrow> trimLeftOf ws s = s"
  by (simp add: trimLeftOf.simps [of ws s])

lemma trimLeftOf_step:
  "find (\<lambda>w. w \<noteq> [] \<and> HasPrefix s w) ws = Some w \<Longrightarrow>
   trimLeftOf ws s = trimLeftOf ws (drop (length w) s)"
  by (simp add: trimLeftOf.simps [of ws s])

lemma find_None_trim: "(\<forall>w \<in> set ws. w \<noteq> [] \<longrightarrow> \<not> HasPrefix s w) \<Longrightarrow> trimLeftOf ws s = s"
  by (rule trimLeftOf_stop) (auto simp: find_None_iff)

lemma HasPrefix_rev: "HasPrefix (rev s) (rev w) \<longleftrightarrow> HasSuffix s w"
  by (metis HasPrefix_iff HasSuffix_iff rev_append rev_rev_ident)

lemma TrimSpace_trimmed: "trimmed s \<Longrightarrow> TrimSpace s = s"
proof -
  assume t: "trimmed s"
  then have l: "trimLeft s = s"
    by (simp add: trimLeft_def trimmed_def find_None_trim)
  from t have "trimLeftOf (map rev spaceRunes) (rev s) = rev s"
    by (intro find_None_trim) (auto simp: trimmed_def HasPrefix_rev)
  with l show ?thesis by (simp add: TrimSpace_def trimRight_def)
qed

lemma trimLeftOf_fixed: "w \<in> set ws \<Longrightarrow> w \<noteq> [] \<Longrightarrow> \<not> HasPrefix (trimLeftOf ws s) w"
proof (induction ws s rule: trimLeftOf.induct)
  case (1 ws s)
  show ?case
  proof (cases "find (\<lambda>w. w \<noteq> [] \<and> HasPrefix s w) ws")
    case None
    with "1.prems" show ?thesis
      by (simp add: trimLeftOf_stop) (auto simp: find_None_iff)
  next
    case (Some v)
    with "1.IH" [OF Some] "1.prems" show ?thesis by (simp add: trimLeftOf_step)
  qed
qed

lemma trimLeftOf_suffix: "\<exists>a. s = a @ trimLeftOf ws s"
proof (induction ws s rule: trimLeftOf.induct)
  case (1 ws s)
  show ?case
  proof (cases "find (\<lambda>w. w \<noteq> [] \<and> HasPrefix s w) ws")
    case None
    then show ?thesis by (simp add: trimLeftOf_stop)
  next
    case (Some w)
    then obtain t where s: "s = w @ t" by (auto simp: find_Some_iff HasPrefix_iff)
    with "1.IH" [OF Some] obtain a where "t = a @ trimLeftOf ws t" by auto
    then have "s = (w @ a) @ trimLeftOf ws t" using s by simp
    moreover have "trimLeftOf ws s = trimLeftOf ws t" using trimLeftOf_step [OF Some] s by simp
    ultimately show ?thesis by (intro exI [of _ "w @ a"]) simp
  qed
qed

lemma TrimSpace_infix: "\<exists>a b. s = a @ TrimSpace s @ b"
proof -
  obtain a where a: "s = a @ trimLeft s"
    using trimLeftOf_suffix unfolding trimLeft_def by blast
  obtain b where "rev (trimLeft s) = b @ trimLeftOf (map rev spaceRunes) (rev (trimLeft s))"
    using trimLeftOf_suffix by blast
  then have "trimLeft s = TrimSpace s @ rev b"
    by (metis TrimSpace_def trimRight_def rev_append rev_rev_ident)
  with a show ?thesis by metis
qed

section \<open>The line scanner\<close>

text \<open>
  \<open>bufio.Scanner\<close> with \<open>ScanLines\<close>: the lines without their newline and without one carriage
  return before it, and no empty last line after a final newline. A line that does not fit the
  token limit ends the scan with \<open>ErrTooLong\<close> after the lines before it: the flag of the result.
\<close>

definition dropCR :: "string \<Rightarrow> string" where
  "dropCR l = (if l \<noteq> [] \<and> last l = CR then butlast l else l)"

definition rawLines :: "string \<Rightarrow> string list" where
  "rawLines s = (let ps = splitOn NL s in if last ps = [] then butlast ps else ps)"

definition scanLines :: "nat \<Rightarrow> string \<Rightarrow> string list \<times> bool" where
  "scanLines limit s =
     (let raw = rawLines s; ok = takeWhile (\<lambda>l. length l < limit) raw
      in (map dropCR ok, length ok < length raw))"

lemma dropCR_id: "CR \<notin> set l \<Longrightarrow> dropCR l = l"
  by (metis dropCR_def last_in_set)

lemma rawLines_cons: "NL \<notin> set l \<Longrightarrow> rawLines (l @ NL # s) = l # rawLines s"
  by (simp add: rawLines_def splitOn_append Let_def)

lemma rawLines_Nil [simp]: "rawLines [] = []"
  by (simp add: rawLines_def)

lemma rawLines_concat:
  "\<forall>l \<in> set ls. NL \<notin> set l \<Longrightarrow> rawLines (concat (map (\<lambda>l. l @ [NL]) ls)) = ls"
  by (induction ls) (simp_all add: rawLines_cons)

text \<open>Whole lines: what a writer that only appends complete lines leaves.\<close>

definition wholeLines :: "string \<Rightarrow> bool" where
  "wholeLines b \<longleftrightarrow> b = [] \<or> last b = NL"

lemma splitOn_sep: "splitOn c (a @ c # t) = splitOn c a @ splitOn c t"
  by (induction a) (auto split: list.split)

lemma wholeLines_append [simp]: "wholeLines (b @ [NL])"
  by (simp add: wholeLines_def)

lemma wholeLines_concat: "wholeLines (concat (map (\<lambda>l. l @ [NL]) ls))"
  by (induction ls) (auto simp: wholeLines_def)

lemma rawLines_snoc:
  assumes "wholeLines b" "NL \<notin> set l"
  shows "rawLines (b @ l @ [NL]) = rawLines b @ [l]"
proof (cases b rule: rev_cases)
  case Nil
  with assms(2) show ?thesis using rawLines_cons [of l "[]"] by simp
next
  case (snoc b' x)
  with assms(1) have b: "b = b' @ [NL]" by (simp add: wholeLines_def)
  have "rawLines b = splitOn NL b'" by (simp add: b splitOn_sep rawLines_def)
  moreover have "b @ l @ [NL] = b' @ NL # (l @ NL # [])" by (simp add: b)
  ultimately show ?thesis
    unfolding rawLines_def by (simp add: splitOn_sep splitOn_absent assms(2) butlast_append)
qed

lemma rawLines_torn:
  "NL \<notin> set t \<Longrightarrow> NL \<notin> set l \<Longrightarrow> rawLines (t @ l @ [NL]) = [t @ l]"
  using rawLines_cons [of "t @ l" "[]"] by simp

lemma scanLines_all:
  "\<forall>l \<in> set (rawLines b). length l < limit \<Longrightarrow> scanLines limit b = (map dropCR (rawLines b), False)"
  by (simp add: scanLines_def takeWhile_all)

lemma scanLines_complete: "\<not> snd (scanLines limit b) \<longleftrightarrow> (\<forall>l \<in> set (rawLines b). length l < limit)"
proof
  assume "\<not> snd (scanLines limit b)"
  then have "length (rawLines b) \<le> length (takeWhile (\<lambda>l. length l < limit) (rawLines b))"
    by (simp add: scanLines_def Let_def)
  then have "takeWhile (\<lambda>l. length l < limit) (rawLines b) = rawLines b"
    by (metis le_antisym length_takeWhile_le takeWhile_eq_take take_all)
  then show "\<forall>l \<in> set (rawLines b). length l < limit" by (metis set_takeWhileD)
qed (simp add: scanLines_all)

section \<open>Decimal integers\<close>

definition digitVal :: "char \<Rightarrow> nat option" where
  "digitVal c = (if CHR ''0'' \<le> c \<and> c \<le> CHR ''9'' then Some (of_char c - 48) else None)"

fun decimal :: "nat \<Rightarrow> string \<Rightarrow> nat option" where
  "decimal acc [] = Some acc"
| "decimal acc (c # cs) =
     (case digitVal c of None \<Rightarrow> None | Some d \<Rightarrow> decimal (10 * acc + d) cs)"

text \<open>\<open>strconv.ParseInt\<close> in base ten and \<open>Atoi\<close>: an optional sign, at least one digit, and a value that
  fits the bits.\<close>

definition parseInt :: "nat \<Rightarrow> string \<Rightarrow> int option" where
  "parseInt bits s =
     (let neg = HasPrefix s ''-''; ds = (if HasPrefix s ''-'' \<or> HasPrefix s ''+'' then tl s else s) in
      if ds = [] then None
      else case decimal 0 ds of
          None \<Rightarrow> None
        | Some n \<Rightarrow>
            (let v = (if neg then - int n else int n) in
             if - (2 ^ (bits - 1)) \<le> v \<and> v < 2 ^ (bits - 1) then Some v else None))"

definition Atoi :: "string \<Rightarrow> int option" where
  "Atoi = parseInt 64"

lemma parseInt_range: "parseInt bits s = Some v \<Longrightarrow> - (2 ^ (bits - 1)) \<le> v \<and> v < 2 ^ (bits - 1)"
  by (auto simp: parseInt_def Let_def split: if_splits option.splits)

text \<open>\<open>%d\<close> of a count.\<close>

fun itoa :: "nat \<Rightarrow> string" where
  "itoa n = (if n < 10 then [char_of (48 + n)] else itoa (n div 10) @ [char_of (48 + n mod 10)])"

declare itoa.simps [simp del]

lemma digitVal_digit: "d < 10 \<Longrightarrow> digitVal (char_of (48 + d :: nat)) = Some d"
  by (simp add: digitVal_def less_eq_char_def)

lemma decimal_append: "decimal acc (xs @ ys) = Option.bind (decimal acc xs) (\<lambda>n. decimal n ys)"
  by (induction xs arbitrary: acc) (auto split: option.split)

lemma decimal_itoa: "decimal 0 (itoa n) = Some n"
proof (induction n rule: itoa.induct)
  case (1 n)
  then show ?case
    by (cases "n < 10") (simp_all add: itoa.simps [of n] decimal_append digitVal_digit)
qed

lemma itoa_digits: "c \<in> set (itoa n) \<Longrightarrow> digitVal c \<noteq> None"
proof (induction n rule: itoa.induct)
  case (1 n)
  then show ?case by (cases "n < 10") (auto simp: itoa.simps [of n] digitVal_digit)
qed

lemma itoa_nonempty [simp]: "itoa n \<noteq> []"
  by (simp add: itoa.simps)

text \<open>What is printed reads back.\<close>

lemma parseInt_itoa:
  assumes "int n < 2 ^ (bits - 1)"
  shows "parseInt bits (itoa n) = Some (int n)"
proof -
  obtain c cs where i: "itoa n = c # cs" by (cases "itoa n") simp_all
  with itoa_digits [of c n] have "c \<noteq> CHR ''-''" "c \<noteq> CHR ''+''" by (auto simp: digitVal_def)
  then have "\<not> HasPrefix (itoa n) ''-''" "\<not> HasPrefix (itoa n) ''+''" by (simp_all add: i HasPrefix_def)
  moreover have "- (2 ^ (bits - 1)) \<le> int n" by (rule order.trans [of _ 0]) simp_all
  ultimately show ?thesis using assms by (simp add: parseInt_def Let_def decimal_itoa)
qed

lemma itoa_inject [simp]: "itoa m = itoa n \<longleftrightarrow> m = n"
  by (metis decimal_itoa option.inject)

end
