(* ===== verification/GoPath.thy ===== *)
theory GoPath
  imports GoStrings
begin

text \<open>
  Go's \<open>path/filepath\<close> on Unix, where \<open>ToSlash\<close> and \<open>FromSlash\<close> are the identity: \<open>Clean\<close>, \<open>Join\<close>,
  \<open>Dir\<close>, \<open>Base\<close> and \<open>Rel\<close>, by path components.
\<close>

abbreviation SLASH :: char where "SLASH \<equiv> CHR ''/''"

text \<open>The component pass of \<open>Clean\<close>; \<open>acc\<close> is the output so far, last component first.\<close>

fun cleanComps :: "bool \<Rightarrow> string list \<Rightarrow> string list \<Rightarrow> string list" where
  "cleanComps rooted acc [] = rev acc"
| "cleanComps rooted acc (c # cs) =
     (if c = [] \<or> c = ''.'' then cleanComps rooted acc cs
      else if c = ''..'' then
        (case acc of
           [] \<Rightarrow> cleanComps rooted (if rooted then [] else [''..'']) cs
         | a # as \<Rightarrow> cleanComps rooted (if a = ''..'' then ''..'' # acc else as) cs)
      else cleanComps rooted (c # acc) cs)"

definition rootedPath :: "string \<Rightarrow> bool" where
  "rootedPath p \<longleftrightarrow> HasPrefix p [SLASH]"

definition pathComps :: "string \<Rightarrow> string list" where
  "pathComps p = cleanComps (rootedPath p) [] (splitOn SLASH p)"

definition cleanPath :: "string \<Rightarrow> string" where
  "cleanPath p =
     (let body = Join (pathComps p) [SLASH]
      in if rootedPath p then SLASH # body else if body = [] then ''.'' else body)"

text \<open>\<open>filepath.Join\<close> drops leading empty elements, joins and cleans.\<close>

definition joinPath :: "string list \<Rightarrow> string" where
  "joinPath elems =
     (let es = dropWhile (\<lambda>e. e = []) elems
      in if es = [] then [] else cleanPath (Join es [SLASH]))"

definition dirPath :: "string \<Rightarrow> string" where
  "dirPath p = cleanPath (rev (dropWhile (\<lambda>c. c \<noteq> SLASH) (rev p)))"

definition basePath :: "string \<Rightarrow> string" where
  "basePath p =
     (if p = [] then ''.''
      else let stripped = rev (dropWhile (\<lambda>c. c = SLASH) (rev p));
               b = rev (takeWhile (\<lambda>c. c \<noteq> SLASH) (rev stripped))
           in if b = [] then [SLASH] else b)"

fun stripCommon :: "string list \<Rightarrow> string list \<Rightarrow> string list \<times> string list" where
  "stripCommon (a # as) (b # bs) = (if a = b then stripCommon as bs else (a # as, b # bs))"
| "stripCommon as bs = (as, bs)"

text \<open>\<open>filepath.Rel\<close>; \<open>None\<close> is its error.\<close>

definition relPath :: "string \<Rightarrow> string \<Rightarrow> string option" where
  "relPath base targ =
     (if rootedPath base \<noteq> rootedPath targ then None
      else let (bs, ts) = stripCommon (pathComps base) (pathComps targ)
           in if bs = [] \<and> ts = [] then Some ''.''
              else if bs \<noteq> [] \<and> hd bs = ''..'' then None
              else Some (Join (replicate (length bs) ''..'' @ ts) [SLASH]))"

text \<open>\<open>filepath.Abs\<close>, its error dropped: \<open>cwd\<close> is what \<open>os.Getwd\<close> gives, if anything.\<close>

definition absPath :: "string option \<Rightarrow> string \<Rightarrow> string" where
  "absPath cwd p =
     (if rootedPath p then cleanPath p
      else case cwd of None \<Rightarrow> [] | Some d \<Rightarrow> joinPath [d, p])"

section \<open>Components\<close>

text \<open>A component that \<open>Clean\<close> leaves alone.\<close>

definition plainComp :: "string \<Rightarrow> bool" where
  "plainComp c \<longleftrightarrow> c \<noteq> [] \<and> c \<noteq> ''.'' \<and> c \<noteq> ''..'' \<and> SLASH \<notin> set c"

lemma cleanComps_plain:
  "\<forall>c \<in> set cs. plainComp c \<Longrightarrow> cleanComps rooted acc cs = rev acc @ cs"
  by (induction cs arbitrary: acc) (auto simp: plainComp_def)

lemma Join_comps: "cs \<noteq> [] \<Longrightarrow> \<forall>c \<in> set cs. SLASH \<notin> set c \<Longrightarrow> splitOn SLASH (Join cs [SLASH]) = cs"
  by (induction cs "[SLASH]" rule: Join.induct) (auto simp: splitOn_absent splitOn_append)

lemma Join_cons: "cs \<noteq> [] \<Longrightarrow> Join (c # cs) [SLASH] = c @ SLASH # Join cs [SLASH]"
  by (cases cs) auto

lemma not_rooted_plain:
  assumes "cs \<noteq> []" "\<forall>c \<in> set cs. plainComp c"
  shows "\<not> rootedPath (Join cs [SLASH])"
proof
  assume "rootedPath (Join cs [SLASH])"
  then have "hd (splitOn SLASH (Join cs [SLASH])) = []"
    by (auto simp: rootedPath_def HasPrefix_iff)
  moreover have "splitOn SLASH (Join cs [SLASH]) = cs"
    using assms by (intro Join_comps) (auto simp: plainComp_def)
  ultimately show False using assms by (cases cs) (auto simp: plainComp_def)
qed

text \<open>A relative path of plain components is clean, and so is its rooted form.\<close>

lemma pathComps_plain:
  assumes "cs \<noteq> []" "\<forall>c \<in> set cs. plainComp c"
  shows "pathComps (Join cs [SLASH]) = cs" and "pathComps (SLASH # Join cs [SLASH]) = cs"
    and "cleanPath (Join cs [SLASH]) = Join cs [SLASH]"
    and "cleanPath (SLASH # Join cs [SLASH]) = SLASH # Join cs [SLASH]"
proof -
  have split: "splitOn SLASH (Join cs [SLASH]) = cs"
    using assms by (intro Join_comps) (auto simp: plainComp_def)
  show c: "pathComps (Join cs [SLASH]) = cs" "pathComps (SLASH # Join cs [SLASH]) = cs"
    using assms split by (simp_all add: pathComps_def cleanComps_plain)
  have "Join cs [SLASH] \<noteq> []"
    using assms by (cases cs rule: remdups_adj.cases) (auto simp: plainComp_def)
  then show "cleanPath (Join cs [SLASH]) = Join cs [SLASH]"
    using c(1) not_rooted_plain [OF assms] by (simp add: cleanPath_def Let_def)
  show "cleanPath (SLASH # Join cs [SLASH]) = SLASH # Join cs [SLASH]"
    using c(2) by (simp add: cleanPath_def rootedPath_def HasPrefix_def Let_def)
qed

text \<open>Under a root of plain components, the relative path is the rest of the path.\<close>

lemma stripCommon_prefix: "stripCommon rs (rs @ ps) = ([], ps)"
proof (induction rs)
  case Nil
  then show ?case by (cases ps) auto
qed simp

lemma relPath_plain:
  assumes "rs \<noteq> []" "ps \<noteq> []" "\<forall>c \<in> set (rs @ ps). plainComp c"
  shows "relPath (SLASH # Join rs [SLASH]) (SLASH # Join (rs @ ps) [SLASH]) = Some (Join ps [SLASH])"
    and "relPath (Join rs [SLASH]) (Join (rs @ ps) [SLASH]) = Some (Join ps [SLASH])"
proof -
  have r: "rootedPath (SLASH # p)" for p by (simp add: rootedPath_def HasPrefix_def)
  have n: "\<not> rootedPath (Join rs [SLASH])" "\<not> rootedPath (Join (rs @ ps) [SLASH])"
    using not_rooted_plain [of rs] not_rooted_plain [of "rs @ ps"] assms by auto
  show "relPath (SLASH # Join rs [SLASH]) (SLASH # Join (rs @ ps) [SLASH]) = Some (Join ps [SLASH])"
    and "relPath (Join rs [SLASH]) (Join (rs @ ps) [SLASH]) = Some (Join ps [SLASH])"
    using assms r n by (simp_all add: relPath_def pathComps_plain stripCommon_prefix)
qed

end
