(* ===== verification/GoSort.thy ===== *)
theory GoSort
  imports Prelude
begin

text \<open>
  \<open>sort.Slice\<close> and \<open>sort.Strings\<close>. Go promises of \<open>sort.Slice\<close> only that the result is a
  permutation in which no later element is less than an earlier one; it is not stable. The
  promise is the locale \<open>slice_sorter\<close>, and what the runner concludes from a sort is proved
  from it: on elements the order tells apart, the sorted slice depends on the elements alone
  and not on the order they were collected in, which is what makes reports built from Go maps
  deterministic. \<open>sortSlice\<close>, the insertion sort Go runs on short slices, interprets it.
\<close>

section \<open>The contract\<close>

text \<open>A \<open>less\<close> function that orders: asymmetric, with a transitive negation.\<close>

definition ordering_less :: "('a \<Rightarrow> 'a \<Rightarrow> bool) \<Rightarrow> bool" where
  "ordering_less lt \<longleftrightarrow>
     (\<forall>x y. lt x y \<longrightarrow> \<not> lt y x) \<and> (\<forall>x y z. \<not> lt y x \<longrightarrow> \<not> lt z y \<longrightarrow> \<not> lt z x)"

text \<open>No two different elements of the slice are equivalent for \<open>less\<close>.\<close>

definition separates :: "('a \<Rightarrow> 'a \<Rightarrow> bool) \<Rightarrow> 'a list \<Rightarrow> bool" where
  "separates lt xs \<longleftrightarrow> (\<forall>x \<in> set xs. \<forall>y \<in> set xs. \<not> lt x y \<longrightarrow> \<not> lt y x \<longrightarrow> x = y)"

lemma ordering_key: "ordering_less (\<lambda>x y. (f x :: 'b :: linorder) < f y)"
  by (auto simp: ordering_less_def)

lemma sorted_perm_unique:
  assumes "mset xs = mset ys" "separates lt xs"
    and "sorted_wrt (\<lambda>x y. \<not> lt y x) xs" "sorted_wrt (\<lambda>x y. \<not> lt y x) ys"
  shows "xs = ys"
  using assms
proof (induction xs arbitrary: ys)
  case (Cons x xs)
  then obtain y ys' where ys: "ys = y # ys'" by (cases ys) auto
  have sets: "set (x # xs) = set (y # ys')"
    using Cons.prems(1) ys by (metis mset_eq_setD)
  have "\<not> lt x y \<and> \<not> lt y x \<or> x = y"
    using Cons.prems(3,4) sets ys by auto
  then have "x = y"
    using Cons.prems(2) sets unfolding separates_def by (metis list.set_intros(1))
  moreover have "xs = ys'"
    using Cons.prems ys \<open>x = y\<close> by (intro Cons.IH) (auto simp: separates_def)
  ultimately show ?case using ys by simp
qed simp

locale slice_sorter =
  fixes srt :: "('a \<Rightarrow> 'a \<Rightarrow> bool) \<Rightarrow> 'a list \<Rightarrow> 'a list"
  assumes srt_perm: "mset (srt lt xs) = mset xs"
    and srt_sorted: "ordering_less lt \<Longrightarrow> sorted_wrt (\<lambda>x y. \<not> lt y x) (srt lt xs)"
begin

lemma srt_set [simp]: "set (srt lt xs) = set xs"
  by (metis srt_perm set_mset_mset)

lemma srt_length [simp]: "length (srt lt xs) = length xs"
  by (metis srt_perm size_mset)

lemma srt_distinct [simp]: "distinct (srt lt xs) = distinct xs"
  by (metis srt_perm mset_eq_imp_distinct_iff)

lemma srt_map_distinct [simp]: "distinct (map f (srt lt xs)) = distinct (map f xs)"
  by (metis srt_perm mset_map mset_eq_imp_distinct_iff)

text \<open>Sorting forgets the order of collection.\<close>

lemma srt_order_free:
  assumes "ordering_less lt" "separates lt xs" "mset xs = mset ys"
  shows "srt lt xs = srt lt ys"
proof (rule sorted_perm_unique [where lt = lt])
  show "mset (srt lt xs) = mset (srt lt ys)" using assms(3) by (simp add: srt_perm)
  show "separates lt (srt lt xs)" using assms(2) by (simp add: separates_def)
qed (use assms(1) in \<open>auto intro: srt_sorted\<close>)

text \<open>A sorted slice of distinct keys is left alone.\<close>

lemma srt_sorted_id:
  assumes "ordering_less lt" "separates lt xs" "sorted_wrt (\<lambda>x y. \<not> lt y x) xs"
  shows "srt lt xs = xs"
proof (rule sorted_perm_unique [where lt = lt])
  show "separates lt (srt lt xs)" using assms(2) by (simp add: separates_def)
qed (use assms in \<open>auto intro: srt_sorted simp: srt_perm\<close>)

text \<open>The head of the result, cut anywhere, is no greater than what the cut leaves out.\<close>

lemma srt_prefix_le:
  assumes "ordering_less lt" "x \<in> set (take k (srt lt xs))" "y \<in> set (drop k (srt lt xs))"
  shows "\<not> lt y x"
proof -
  have "sorted_wrt (\<lambda>x y. \<not> lt y x) (take k (srt lt xs) @ drop k (srt lt xs))"
    using srt_sorted [OF assms(1)] by simp
  then show ?thesis using assms(2,3) unfolding sorted_wrt_append by blast
qed

end

section \<open>Insertion sort\<close>

fun insertLess :: "('a \<Rightarrow> 'a \<Rightarrow> bool) \<Rightarrow> 'a \<Rightarrow> 'a list \<Rightarrow> 'a list" where
  "insertLess lt x [] = [x]"
| "insertLess lt x (y # ys) = (if lt y x then y # insertLess lt x ys else x # y # ys)"

definition sortSlice :: "('a \<Rightarrow> 'a \<Rightarrow> bool) \<Rightarrow> 'a list \<Rightarrow> 'a list" where
  "sortSlice lt xs = foldr (insertLess lt) xs []"

lemma mset_insertLess [simp]: "mset (insertLess lt x xs) = add_mset x (mset xs)"
  by (induction xs) auto

lemma set_insertLess [simp]: "set (insertLess lt x xs) = insert x (set xs)"
  by (induction xs) auto

lemma sorted_insertLess:
  assumes "ordering_less lt" "sorted_wrt (\<lambda>x y. \<not> lt y x) xs"
  shows "sorted_wrt (\<lambda>x y. \<not> lt y x) (insertLess lt x xs)"
  using assms(2)
proof (induction xs)
  case (Cons y ys)
  then have ys: "\<forall>z \<in> set ys. \<not> lt z y" "sorted_wrt (\<lambda>x y. \<not> lt y x) ys" by auto
  show ?case
  proof (cases "lt y x")
    case True
    with assms(1) have "\<not> lt x y" unfolding ordering_less_def by blast
    with True ys Cons.IH show ?thesis by simp
  next
    case False
    with assms(1) ys have "\<forall>z \<in> set ys. \<not> lt z x" unfolding ordering_less_def by blast
    with False ys show ?thesis by simp
  qed
qed simp

lemma mset_sortSlice: "mset (sortSlice lt xs) = mset xs"
  by (induction xs) (auto simp: sortSlice_def)

lemma sorted_sortSlice:
  "ordering_less lt \<Longrightarrow> sorted_wrt (\<lambda>x y. \<not> lt y x) (sortSlice lt xs)"
  by (induction xs) (auto simp: sortSlice_def sorted_insertLess)

interpretation slice: slice_sorter sortSlice
  by unfold_locales (auto simp: mset_sortSlice sorted_sortSlice)

text \<open>\<open>sort.Strings\<close> and \<open>sort.Slice\<close> by a string key.\<close>

definition sortStrings :: "string list \<Rightarrow> string list" where
  "sortStrings xs = sortSlice (<) xs"

lemma ordering_strings: "ordering_less ((<) :: string \<Rightarrow> string \<Rightarrow> bool)"
  using ordering_key [of "\<lambda>x. x"] by simp

lemma separates_strings: "separates ((<) :: string \<Rightarrow> string \<Rightarrow> bool) xs"
  by (auto simp: separates_def)

lemma separates_key: "inj_on f (set xs) \<Longrightarrow> separates (\<lambda>x y. (f x :: 'b :: linorder) < f y) xs"
  unfolding separates_def inj_on_def by (meson linorder_neqE)

lemma set_sortStrings [simp]: "set (sortStrings xs) = set xs"
  by (simp add: sortStrings_def)

lemma distinct_sortStrings [simp]: "distinct (sortStrings xs) = distinct xs"
  by (simp add: sortStrings_def)

lemma sortStrings_order_free: "mset xs = mset ys \<Longrightarrow> sortStrings xs = sortStrings ys"
  unfolding sortStrings_def by (rule slice.srt_order_free [OF ordering_strings separates_strings])

end
