(* ===== verification/Patterns.thy ===== *)
theory Patterns
  imports Hoist
begin

text \<open>
  The destructuring patterns a loop head can bind, as a grammar over the tokens of \<open>tokenizePattern\<close>, with
  the positions of the names a pattern binds; and the proof that the walk of \<open>collectPatternTargets\<close>
  collects exactly these from every pattern of the grammar.
\<close>

section \<open>The grammar\<close>

text \<open>A default's expression: brackets in pairs, and no comma outside of them.\<close>

fun balanced :: "nat \<Rightarrow> ptok list \<Rightarrow> bool" where
  "balanced d [] = (d = 0)"
| "balanced d (t # ts) =
     (if tkText t \<in> {''('', ''['', ''{''} then balanced (d + 1) ts
      else if tkText t \<in> {'')'', '']'', ''}''} then 0 < d \<and> balanced (d - 1) ts
      else if tkText t = '','' then 0 < d \<and> balanced d ts
      else balanced d ts)"

definition defaultPart :: "ptok list \<Rightarrow> bool" where
  "defaultPart ds \<longleftrightarrow> ds = [] \<or> tkText (hd ds) = ''='' \<and> balanced 0 (tl ds)"

definition plainName :: "ptok \<Rightarrow> bool" where
  "plainName t \<longleftrightarrow> tkKind t = Ident \<and> tkText t \<notin> {''['', '']'', ''{'', ''}'', '','', ''='', ''...'', '':''}"

text \<open>
  A pattern with the positions it binds, in order: the elements of an array pattern may be missing and may
  have a default; a property is a shorthand name or a key with a target, with or without a default; a rest
  mark takes a target in an array and a name in an object. Keys and defaults bind nothing.
\<close>

inductive bindPattern and bindTarget and bindElem and bindElems and bindProp and bindProps where
  array: "tkKind b = Punct \<Longrightarrow> tkText b = ''['' \<Longrightarrow> bindElems ts ls \<Longrightarrow> tkText e = '']'' \<Longrightarrow>
    bindPattern (b # ts @ [e]) ls"
| object: "tkKind b = Punct \<Longrightarrow> tkText b = ''{'' \<Longrightarrow> bindProps ts ls \<Longrightarrow> tkText e = ''}'' \<Longrightarrow>
    bindPattern (b # ts @ [e]) ls"
| simple: "plainName t \<Longrightarrow> bindTarget [t] [tkPos t]"
| nested: "bindPattern ts ls \<Longrightarrow> bindTarget ts ls"
| hole: "bindElem [] []"
| element: "bindTarget ts ls \<Longrightarrow> defaultPart ds \<Longrightarrow> bindElem (ts @ ds) ls"
| spread: "tkText r = ''...'' \<Longrightarrow> bindTarget ts ls \<Longrightarrow> bindElem (r # ts) ls"
| lastElem: "bindElem ts ls \<Longrightarrow> bindElems ts ls"
| nextElem: "bindElem ts ls \<Longrightarrow> tkText c = '','' \<Longrightarrow> bindElems us ms \<Longrightarrow> bindElems (ts @ c # us) (ls @ ms)"
| none: "bindProp [] []"
| shorthand: "plainName t \<Longrightarrow> defaultPart ds \<Longrightarrow> bindProp (t # ds) [tkPos t]"
| keyed: "plainName k \<Longrightarrow> tkText c = '':'' \<Longrightarrow> bindTarget ts ls \<Longrightarrow> defaultPart ds \<Longrightarrow> bindProp (k # c # ts @ ds) ls"
| others: "tkText r = ''...'' \<Longrightarrow> plainName t \<Longrightarrow> bindProp [r, t] [tkPos t]"
| lastProp: "bindProp ts ls \<Longrightarrow> bindProps ts ls"
| nextProp: "bindProp ts ls \<Longrightarrow> tkText c = '','' \<Longrightarrow> bindProps us ms \<Longrightarrow> bindProps (ts @ c # us) (ls @ ms)"

text \<open>What a loop head binds: one name, or a pattern.\<close>

definition headBinds :: "ptok list \<Rightarrow> nat list \<Rightarrow> bool" where
  "headBinds toks ls \<longleftrightarrow> (\<exists>t. toks = [t] \<and> tkKind t = Ident \<and> ls = [tkPos t]) \<or> bindPattern toks ls"

section \<open>The walk over a pattern\<close>

text \<open>What follows an element: its separator or the closer of its pattern.\<close>

definition stops :: "ptok list \<Rightarrow> bool" where
  "stops rest \<longleftrightarrow> rest \<noteq> [] \<and> tkText (hd rest) \<in> {'','', '']'', ''}''}"

lemma skipDefault_balanced: "balanced d ds \<Longrightarrow> stops rest \<Longrightarrow> skipDefault (ds @ rest) d = rest"
proof (induction d ds rule: balanced.induct)
  case (1 d)
  then show ?case by (cases rest) (auto simp: stops_def)
qed (auto split: if_splits)

lemma walk_default:
  "defaultPart ds \<Longrightarrow> stops rest \<Longrightarrow> expectSep f \<Longrightarrow> patWalk (ds @ rest) found (f # fs) = patWalk rest found (f # fs)"
  by (cases ds) (auto simp: defaultPart_def skipDefault_balanced)

abbreviation arrayFrame :: "bool \<Rightarrow> frame" where
  "arrayFrame e \<equiv> \<lparr>frKind = Array, atPropStart = False, expectSep = e\<rparr>"

abbreviation objectFrame :: "bool \<Rightarrow> bool \<Rightarrow> frame" where
  "objectFrame p e \<equiv> \<lparr>frKind = Object, atPropStart = p, expectSep = e\<rparr>"

lemma walk_grammar:
  "bindPattern ts ls \<Longrightarrow> \<not> blocked st \<Longrightarrow> patWalk (ts @ rest) found st = patWalk rest (found @ ls) (closeElement st)"
  "bindTarget ts ls \<Longrightarrow> \<not> blocked (f # fs) \<Longrightarrow>
     patWalk (ts @ rest) found (f # fs) = patWalk rest (found @ ls) (f\<lparr>expectSep := True\<rparr> # fs)"
  "bindElem ts ls \<Longrightarrow> stops rest \<Longrightarrow>
     \<exists>e. patWalk (ts @ rest) found (arrayFrame False # fs) = patWalk rest (found @ ls) (arrayFrame e # fs)"
  "bindElems ts ls \<Longrightarrow> tkText c = '']'' \<Longrightarrow>
     patWalk (ts @ c # rest) found (arrayFrame False # fs) = patWalk rest (found @ ls) (closeElement fs)"
  "bindProp ts ls \<Longrightarrow> stops rest \<Longrightarrow>
     \<exists>p e. patWalk (ts @ rest) found (objectFrame True False # fs) = patWalk rest (found @ ls) (objectFrame p e # fs)"
  "bindProps ts ls \<Longrightarrow> tkText c = ''}'' \<Longrightarrow>
     patWalk (ts @ c # rest) found (objectFrame True False # fs) = patWalk rest (found @ ls) (closeElement fs)"
proof (induction arbitrary: rest found st and rest found f fs and rest found fs and c rest found fs
    and rest found fs and c rest found fs
    rule: bindPattern_bindTarget_bindElem_bindElems_bindProp_bindProps.inducts)
  case (array b ts ls e)
  then show ?case using array.IH [of e rest found st] by simp
next
  case (object b ts ls e)
  then show ?case using object.IH [of e rest found st] by simp
next
  case (simple t)
  then show ?case by (cases f) (auto simp: plainName_def blocked_def split: bracket.split)
next
  case (nested ts ls)
  then show ?case by (simp add: closeElement_def)
next
  case hole
  then show ?case by auto
next
  case (element ts ls ds)
  have "patWalk (ts @ (ds @ rest)) found (arrayFrame False # fs) = patWalk (ds @ rest) (found @ ls) (arrayFrame True # fs)"
    using element.IH [of "arrayFrame False" fs "ds @ rest" found] by (simp add: blocked_def)
  also have "\<dots> = patWalk rest (found @ ls) (arrayFrame True # fs)"
    using element.hyps element.prems by (intro walk_default) auto
  finally show ?case by auto
next
  case (spread r ts ls)
  have "patWalk (ts @ rest) found (arrayFrame False # fs) = patWalk rest (found @ ls) (arrayFrame True # fs)"
    using spread.IH [of "arrayFrame False" fs rest found] by (simp add: blocked_def)
  with spread.hyps show ?case by auto
next
  case (lastElem ts ls)
  have "stops (c # rest)" using lastElem.prems by (simp add: stops_def)
  from lastElem.IH [OF this, of found fs] lastElem.prems show ?case by auto
next
  case (nextElem ts ls d us ms)
  have "stops (d # us @ c # rest)" using nextElem.hyps by (simp add: stops_def)
  from nextElem.IH(1) [OF this, of found fs] nextElem.hyps nextElem.IH(2) [OF nextElem.prems, of rest "found @ ls" fs]
  show ?case by auto
next
  case none
  then show ?case by auto
next
  case (shorthand t ds)
  have "patWalk (t # ds @ rest) found (objectFrame True False # fs) =
      patWalk (ds @ rest) (found @ [tkPos t]) (objectFrame False True # fs)"
  proof -
    have "ds @ rest \<noteq> []" "tkText (hd (ds @ rest)) \<noteq> '':''"
      using shorthand.hyps shorthand.prems by (cases ds; auto simp: defaultPart_def stops_def)+
    with shorthand.hyps show ?thesis by (auto simp: plainName_def)
  qed
  also have "\<dots> = patWalk rest (found @ [tkPos t]) (objectFrame False True # fs)"
    using shorthand.hyps shorthand.prems by (intro walk_default) auto
  finally show ?case by auto
next
  case (keyed k c ts ls ds)
  have "patWalk (k # c # ts @ ds @ rest) found (objectFrame True False # fs) =
      patWalk (ts @ (ds @ rest)) found (objectFrame False False # fs)"
    using keyed.hyps by (simp add: plainName_def)
  also have "\<dots> = patWalk (ds @ rest) (found @ ls) (objectFrame False True # fs)"
    using keyed.IH [of "objectFrame False False" fs "ds @ rest" found] by (simp add: blocked_def)
  also have "\<dots> = patWalk rest (found @ ls) (objectFrame False True # fs)"
    using keyed.hyps keyed.prems by (intro walk_default) auto
  finally show ?case by auto
next
  case (others r t)
  then have "rest \<noteq> []" "tkText (hd rest) \<noteq> '':''" by (auto simp: stops_def)
  with others.hyps show ?case by (auto simp: plainName_def)
next
  case (lastProp ts ls)
  have "stops (c # rest)" using lastProp.prems by (simp add: stops_def)
  from lastProp.IH [OF this, of found fs] lastProp.prems show ?case by auto
next
  case (nextProp ts ls d us ms)
  have "stops (d # us @ c # rest)" using nextProp.hyps by (simp add: stops_def)
  from nextProp.IH(1) [OF this, of found fs] nextProp.hyps nextProp.IH(2) [OF nextProp.prems, of rest "found @ ls" fs]
  show ?case by auto
qed

text \<open>So the walk collects from a head of the grammar what it binds, and nothing else.\<close>

theorem head_targets:
  assumes "headBinds (tokenizePattern code s e) ls"
  shows "collectPatternTargets code s e out = out \<union> set ls"
  using assms unfolding headBinds_def
proof (elim disjE exE)
  fix t assume "tokenizePattern code s e = [t] \<and> tkKind t = Ident \<and> ls = [tkPos t]"
  then show ?thesis by (simp add: collectPatternTargets_def)
next
  assume b: "bindPattern (tokenizePattern code s e) ls"
  then obtain t ts where t: "tokenizePattern code s e = t # ts" "tkKind t = Punct" "tkText t = ''['' \<or> tkText t = ''{''"
    by (cases rule: bindPattern.cases) auto
  have "patWalk (tokenizePattern code s e @ []) [] [] = Some ls"
    using walk_grammar(1) [OF b, of "[]" "[]" "[]"] by (simp add: blocked_def closeElement_def)
  with t show ?thesis by (auto simp: collectPatternTargets_def)
qed

end
