(* ===== verification/HoistFacts.thy ===== *)
theory HoistFacts
  imports Patterns
begin

text \<open>
  The correctness lemmas and properties of the loop-head hoist of theory \<open>Hoist\<close>: the literal
  mask, the alignment of pattern tokens with the occurrence scan, the discipline of the pattern
  walk, and the safety of the hoist as a whole.
\<close>

section \<open>The mask\<close>

text \<open>\<open>b'\<close> is \<open>b\<close> with some bytes, never newlines, overwritten by spaces.\<close>

definition masks :: "string \<Rightarrow> string \<Rightarrow> bool" where
  "masks b b' \<longleftrightarrow>
     length b' = length b \<and> (\<forall>k < length b. b' ! k = b ! k \<or> (b' ! k = SP \<and> b ! k \<noteq> NL))"

lemma masks_refl: "masks b b"
  by (simp add: masks_def)

lemma masks_trans:
  assumes "masks a b" "masks b c"
  shows "masks a c"
proof -
  have "c ! k = a ! k \<or> (c ! k = SP \<and> a ! k \<noteq> NL)" if "k < length a" for k
  proof -
    from that assms have "b ! k = a ! k \<or> (b ! k = SP \<and> a ! k \<noteq> NL)"
      and "c ! k = b ! k \<or> (c ! k = SP \<and> b ! k \<noteq> NL)"
      by (auto simp: masks_def)
    then show ?thesis by force
  qed
  then show ?thesis using assms by (auto simp: masks_def)
qed

lemma masks_blank: "masks b (blank b lo hi)"
  by (auto simp: masks_def nth_blank)

text \<open>
  One turn of the mask loop: the end of the input, a comment blanked up to \<open>e\<close>, a quoted literal
  blanked up to its closing quote at \<open>j\<close>, or a plain byte. The proofs about the loop go by
  induction on the bytes left, with these cases.
\<close>

lemma maskLoop_turn:
  obtains (finish) "length b \<le> i" "maskLoop b i = b"
  | (comment) e where "i < e" "e \<le> length b" "maskLoop b i = maskLoop (blank b i e) e"
  | (quote) q j where "i < length b" "b ! i = q" "q = SQUOTE \<or> q = DQUOTE \<or> q = BQUOTE"
      "j = quoteEnd b q (i + 1)" "i < j" "maskLoop b i = maskLoop (blank b (i + 1) j) (j + 1)"
  | (plain) "i < length b" "b ! i \<noteq> SQUOTE" "b ! i \<noteq> DQUOTE" "b ! i \<noteq> BQUOTE"
      "b ! i = CHR ''/'' \<longrightarrow> i + 1 < length b \<longrightarrow> b ! (i + 1) \<noteq> CHR ''/'' \<and> b ! (i + 1) \<noteq> CHR ''*''"
      "maskLoop b i = maskLoop b (i + 1)"
proof -
  note step = maskLoop.simps [of b i]
  let ?line = "b ! i = CHR ''/'' \<and> i + 1 < length b \<and> b ! (i + 1) = CHR ''/''"
  let ?block = "b ! i = CHR ''/'' \<and> i + 1 < length b \<and> b ! (i + 1) = CHR ''*''"
  consider "\<not> i < length b" | "i < length b" ?line | "i < length b" ?block
    | "i < length b" "b ! i = SQUOTE \<or> b ! i = DQUOTE" | "i < length b" "b ! i = BQUOTE"
    | "i < length b" "\<not> ?line" "\<not> ?block" "b ! i \<noteq> SQUOTE" "b ! i \<noteq> DQUOTE" "b ! i \<noteq> BQUOTE"
    by blast
  then show ?thesis
  proof cases
    case 1
    then show ?thesis by (intro finish) (simp_all add: step)
  next
    case 2
    define j where "j = scanWhile (\<lambda>x. x \<noteq> NL) b (length b) (i + 2)"
    have "i + 2 \<le> j" "j \<le> length b"
      unfolding j_def using 2 by (auto intro: scanWhile_ge scanWhile_le)
    moreover from 2 have "maskLoop b i = maskLoop (blank b i j) j"
      by (simp add: step j_def Let_def)
    ultimately show ?thesis by (intro comment [of j]) auto
  next
    case 3
    define e where "e = (if blockEnd b (i + 2) + 2 > length b then length b else blockEnd b (i + 2) + 2)"
    have "i < e" "e \<le> length b" using 3 blockEnd_ge [of "i + 2" b] by (auto simp: e_def)
    moreover from 3 have "maskLoop b i = maskLoop (blank b i e) e"
      by (simp add: step e_def Let_def)
    ultimately show ?thesis by (intro comment [of e])
  next
    case 4
    then show ?thesis
      using quoteEnd_ge [of "i + 1" b "b ! i"] by (intro quote [OF _ refl _ refl]) (auto simp: step Let_def)
  next
    case 5
    then show ?thesis
      using quoteEnd_ge [of "i + 1" b "b ! i"] by (intro quote [OF _ refl _ refl]) (auto simp: step Let_def)
  next
    case 6
    then show ?thesis by (intro plain) (auto simp: step Let_def)
  qed
qed

lemma masks_maskLoop: "masks b (maskLoop b i)"
proof (induction "length b - i" arbitrary: b i rule: less_induct)
  case less
  show ?case
  proof (cases rule: maskLoop_turn [of b i])
    case finish
    then show ?thesis by (simp add: masks_refl)
  next
    case (comment e)
    then have "masks (blank b i e) (maskLoop (blank b i e) e)" by (intro less) auto
    with comment show ?thesis by (metis masks_trans masks_blank)
  next
    case (quote q j)
    then have "masks (blank b (i + 1) j) (maskLoop (blank b (i + 1) j) (j + 1))" by (intro less) auto
    with quote show ?thesis by (metis masks_trans masks_blank)
  next
    case plain
    then show ?thesis by (simp add: less)
  qed
qed

lemma length_maskLoop [simp]: "length (maskLoop b i) = length b"
  using masks_maskLoop by (simp add: masks_def)

lemma maskLoop_before: "k < i \<Longrightarrow> k < length b \<Longrightarrow> maskLoop b i ! k = b ! k"
proof (induction "length b - i" arbitrary: b i rule: less_induct)
  case less
  show ?case
  proof (cases rule: maskLoop_turn [of b i])
    case (comment e)
    then have "maskLoop (blank b i e) e ! k = blank b i e ! k" using less.prems by (intro less) auto
    with comment less.prems show ?thesis by (simp add: nth_blank)
  next
    case (quote q j)
    then have "maskLoop (blank b (i + 1) j) (j + 1) ! k = blank b (i + 1) j ! k"
      using less.prems by (intro less) auto
    with quote less.prems show ?thesis by (simp add: nth_blank)
  next
    case plain
    with less show ?thesis by simp
  qed simp
qed

lemma maskLoop_done: "length b \<le> i \<Longrightarrow> maskLoop b i = b"
  by (subst maskLoop.simps) simp

abbreviation blankByte :: "char \<Rightarrow> bool" where
  "blankByte c \<equiv> c = SP \<or> c = NL"

lemma maskLoop_skip1: "i < length b \<Longrightarrow> blankByte (b ! i) \<Longrightarrow> maskLoop b i = maskLoop b (Suc i)"
  by (subst maskLoop.simps) (auto simp: Let_def)

lemma maskLoop_skip:
  "i \<le> j \<Longrightarrow> j \<le> length b \<Longrightarrow> \<forall>k. i \<le> k \<and> k < j \<longrightarrow> blankByte (b ! k) \<Longrightarrow> maskLoop b i = maskLoop b j"
proof (induction "j - i" arbitrary: i)
  case (Suc n)
  then have "maskLoop b i = maskLoop b (Suc i)" by (intro maskLoop_skip1) auto
  also have "\<dots> = maskLoop b j" using Suc by (intro Suc.hyps(1)) auto
  finally show ?case .
qed simp

lemma quoteEnd_run:
  "i \<le> m \<Longrightarrow> m \<le> length r \<Longrightarrow> \<forall>k. i \<le> k \<and> k < m \<longrightarrow> blankByte (r ! k) \<Longrightarrow> m = length r \<or> r ! m = q \<Longrightarrow>
   \<not> blankByte q \<Longrightarrow> quoteEnd r q i = m"
proof (induction "m - i" arbitrary: i)
  case 0
  then show ?case by (subst quoteEnd.simps) auto
next
  case (Suc n)
  then have "blankByte (r ! i)" "i < length r" by auto
  with Suc.prems(5) have "quoteEnd r q i = quoteEnd r q (Suc i)"
    by (subst quoteEnd.simps) auto
  also have "\<dots> = m" using Suc by (intro Suc.hyps(1)) auto
  finally show ?case .
qed

lemma quoteEnd_stop: "quoteEnd b q j < length b \<Longrightarrow> b ! quoteEnd b q j = q"
proof (induction b q j rule: quoteEnd.induct)
  case (1 b q j)
  show ?case
  proof (cases "j < length b \<and> b ! j \<noteq> q")
    case True
    with 1 show ?thesis by (simp add: quoteEnd.simps [of b q j])
  next
    case False
    then have "quoteEnd b q j = j" by (auto simp: quoteEnd.simps [of b q j])
    with False "1.prems" show ?thesis by auto
  qed
qed

lemma blank_id: "\<forall>k. lo \<le> k \<and> k < hi \<and> k < length b \<longrightarrow> blankByte (b ! k) \<Longrightarrow> blank b lo hi = b"
  by (rule nth_equalityI) (auto simp: nth_blank)

text \<open>The mask of a quoted literal leaves the quotes, so the second pass finds the same literal.\<close>

lemma maskLoop_quote_fixed:
  fixes b q i
  defines "j \<equiv> quoteEnd b q (i + 1)"
  defines "r \<equiv> maskLoop (blank b (i + 1) j) (j + 1)"
  assumes "i < length b" "b ! i = q" "q = SQUOTE \<or> q = DQUOTE \<or> q = BQUOTE" "maskLoop r (j + 1) = r"
  shows "maskLoop r i = r"
proof -
  define m where "m = min j (length b)"
  have j: "i + 1 \<le> j" unfolding j_def by (rule quoteEnd_ge)
  have len: "length r = length b" by (simp add: r_def)
  have r: "r ! k = blank b (i + 1) j ! k" if "k < j + 1" "k < length b" for k
    unfolding r_def using that by (intro maskLoop_before) auto
  have gap: "\<forall>k. i + 1 \<le> k \<and> k < m \<longrightarrow> blankByte (r ! k)"
    using r by (auto simp: m_def nth_blank)
  have ri: "r ! i = q" using r [of i] j assms(3,4) by (simp add: nth_blank)
  have "m = length r \<or> r ! m = q"
  proof (cases "j < length b")
    case True
    then have "b ! j = q" unfolding j_def by (rule quoteEnd_stop)
    with True r [of j] show ?thesis by (simp add: m_def nth_blank)
  next
    case False
    then show ?thesis by (simp add: m_def len)
  qed
  then have qe: "quoteEnd r q (i + 1) = m"
    using j len gap assms(3,5) by (intro quoteEnd_run) (auto simp: m_def)
  have "blank r (i + 1) m = r" using gap by (intro blank_id) auto
  then have "maskLoop r i = maskLoop r (m + 1)"
    using assms(3,5) ri qe len by (subst maskLoop.simps) (auto simp: Let_def)
  also have "\<dots> = r"
    using assms(6) len by (cases "j < length b") (simp_all add: m_def maskLoop_done)
  finally show ?thesis .
qed

lemma maskLoop_comment_fixed:
  assumes "i < j" "j \<le> length b" "r = maskLoop (blank b i j) j" "maskLoop r j = r"
  shows "maskLoop r i = r"
proof -
  have "r ! k = blank b i j ! k" if "k < j" for k
    using that assms(2,3) by (auto intro!: maskLoop_before)
  then have "\<forall>k. i \<le> k \<and> k < j \<longrightarrow> blankByte (r ! k)"
    using assms(2) by (auto simp: nth_blank)
  then have "maskLoop r i = maskLoop r j" using assms by (intro maskLoop_skip) auto
  then show ?thesis using assms(4) by simp
qed

lemma maskLoop_default_fixed:
  assumes "i < length b" "b ! i \<noteq> SQUOTE" "b ! i \<noteq> DQUOTE" "b ! i \<noteq> BQUOTE"
    and "b ! i = CHR ''/'' \<longrightarrow> i + 1 < length b \<longrightarrow> b ! (i + 1) \<noteq> CHR ''/'' \<and> b ! (i + 1) \<noteq> CHR ''*''"
    and "r = maskLoop b (i + 1)" "maskLoop r (i + 1) = r"
  shows "maskLoop r i = r"
proof -
  have len: "length r = length b" using assms(6) by simp
  have ri: "r ! i = b ! i" using assms(1,6) by (simp add: maskLoop_before)
  have "r ! (i + 1) = b ! (i + 1) \<or> r ! (i + 1) = SP" if "i + 1 < length b"
    using masks_maskLoop [of b "i + 1"] that assms(6) by (auto simp: masks_def)
  then have "maskLoop r i = maskLoop r (i + 1)"
    using assms(1-5) len ri by (subst maskLoop.simps) (auto simp: Let_def)
  then show ?thesis using assms(7) by simp
qed

lemma maskLoop_fixed: "maskLoop (maskLoop b i) i = maskLoop b i"
proof (induction "length b - i" arbitrary: b i rule: less_induct)
  case less
  show ?case
  proof (cases rule: maskLoop_turn [of b i])
    case finish
    then show ?thesis by simp
  next
    case (comment e)
    then have "maskLoop (maskLoop (blank b i e) e) e = maskLoop (blank b i e) e"
      by (intro less) auto
    with comment show ?thesis by (metis maskLoop_comment_fixed)
  next
    case (quote q j)
    then have "maskLoop (maskLoop (blank b (i + 1) j) (j + 1)) (j + 1) = maskLoop (blank b (i + 1) j) (j + 1)"
      by (intro less) auto
    with quote show ?thesis by (simp only: maskLoop_quote_fixed)
  next
    case plain
    then have "maskLoop (maskLoop b (i + 1)) (i + 1) = maskLoop b (i + 1)"
      by (intro less) auto
    with plain show ?thesis by (metis maskLoop_default_fixed)
  qed
qed

section \<open>Alignment of the two scans\<close>

text \<open>
  The pattern tokenizer starts in the middle of the code and the occurrence scan at its beginning.
  Both start an identifier at \<open>p\<close> when no identifier starts between the last boundary and \<open>p\<close>.
\<close>

definition aligned :: "string \<Rightarrow> nat \<Rightarrow> bool" where
  "aligned code p \<longleftrightarrow>
     (\<exists>q \<le> p. (q = 0 \<or> \<not> isIdentPart (code ! (q - 1))) \<and> (\<forall>k. q \<le> k \<and> k < p \<longrightarrow> \<not> isIdentStart (code ! k)))"

lemma ident_start_part: "isIdentStart c \<Longrightarrow> isIdentPart c"
  by (simp add: isIdentPart_def)

lemma aligned_extend:
  "aligned code i \<Longrightarrow> i \<le> j \<Longrightarrow> \<forall>k. i \<le> k \<and> k < j \<longrightarrow> \<not> isIdentStart (code ! k) \<Longrightarrow> aligned code j"
  unfolding aligned_def by (metis le_trans not_le)

lemma aligned_after: "\<not> isIdentPart (code ! i) \<Longrightarrow> aligned code (Suc i)"
  unfolding aligned_def by (rule exI [of _ "Suc i"]) auto

lemma aligned_past_ident:
  assumes "aligned code p" "isIdentStart (code ! i)" "i < p"
  shows "scanWhile isIdentPart code hi (Suc i) \<le> p"
proof (rule ccontr)
  assume "\<not> ?thesis"
  then have j: "p < scanWhile isIdentPart code hi (Suc i)" by simp
  obtain q where q: "q \<le> p" "q = 0 \<or> \<not> isIdentPart (code ! (q - 1))"
    "\<forall>k. q \<le> k \<and> k < p \<longrightarrow> \<not> isIdentStart (code ! k)"
    using assms(1) unfolding aligned_def by blast
  then have "i < q" using assms(2,3) by (metis not_le)
  moreover have "isIdentPart (code ! (q - 1))"
  proof (cases "q - 1 = i")
    case True
    then show ?thesis using assms(2) by (simp add: ident_start_part)
  next
    case False
    then show ?thesis using \<open>i < q\<close> q(1) j by (intro scanWhile_all [of "Suc i" "q - 1" isIdentPart code hi]) auto
  qed
  ultimately show False using q(2) by simp
qed

lemma scanIdentsFrom_finds:
  "aligned code p \<Longrightarrow> p < length code \<Longrightarrow> isIdentStart (code ! p) \<Longrightarrow> \<not> memberProperty code p \<Longrightarrow>
   i \<le> p \<Longrightarrow> p \<in> occPos ` set (scanIdentsFrom code i)"
proof (induction code i rule: scanIdentsFrom.induct)
  case (1 code i)
  note step = scanIdentsFrom.simps [of code i]
  consider "\<not> isIdentStart (code ! i)" | "i = p" | "isIdentStart (code ! i)" "i < p"
    using "1.prems"(5) by linarith
  then show ?case
  proof cases
    case 1
    with "1.prems" have "i \<noteq> p" by auto
    with 1 "1.prems" "1.IH"(1) show ?thesis by (simp add: step)
  next
    case 2
    with "1.prems" show ?thesis by (simp add: scanIdentsFrom.simps [of code p] Let_def)
  next
    case 3
    with "1.prems" have "scanWhile isIdentPart code (length code) (Suc i) \<le> p"
      by (intro aligned_past_ident)
    with 3 "1.prems" "1.IH"(2) show ?thesis by (simp add: step Let_def)
  qed
qed

text \<open>An occurrence is an identifier of the code, and its offset determines its name.\<close>

lemma scanIdentsFrom_name:
  "occ \<in> set (scanIdentsFrom code i) \<Longrightarrow>
   i \<le> occPos occ \<and> occPos occ < length code \<and> isIdentStart (code ! occPos occ) \<and>
   \<not> memberProperty code (occPos occ) \<and>
   occName occ = slice_of code (occPos occ) (scanWhile isIdentPart code (length code) (Suc (occPos occ)))"
proof (induction code i rule: scanIdentsFrom.induct)
  case (1 code i)
  note step = scanIdentsFrom.simps [of code i]
  have "Suc i \<le> scanWhile isIdentPart code (length code) (Suc i)" by (rule scanWhile_ge)
  with 1 show ?case by (auto simp: step Let_def split: if_splits)
qed

text \<open>One turn of the pattern tokenizer.\<close>

lemma tokenizePattern_turn:
  obtains (finish) "e \<le> i" "tokenizePattern code i e = []"
  | (gap) "i < e" "isBlank (code ! i)" "tokenizePattern code i e = tokenizePattern code (i + 1) e"
  | (ident) j where "i < e" "isIdentStart (code ! i)" "j = scanWhile isIdentPart code e (i + 1)"
      "tokenizePattern code i e =
         \<lparr>tkKind = Ident, tkText = slice_of code i j, tkPos = i\<rparr> # tokenizePattern code j e"
  | (dots) "i + 2 < e" "code ! i = CHR ''.''" "code ! (i + 1) = CHR ''.''" "code ! (i + 2) = CHR ''.''"
      "tokenizePattern code i e =
         \<lparr>tkKind = Punct, tkText = ''...'', tkPos = i\<rparr> # tokenizePattern code (i + 3) e"
  | (double) "i + 1 < e" "code ! i = CHR ''=''" "code ! (i + 1) = CHR ''='' \<or> code ! (i + 1) = CHR ''>''"
      "tokenizePattern code i e =
         \<lparr>tkKind = Punct, tkText = [code ! i, code ! (i + 1)], tkPos = i\<rparr> # tokenizePattern code (i + 2) e"
  | (single) k where "i < e" "\<not> isIdentStart (code ! i)" "\<not> isBlank (code ! i)" "k \<noteq> Ident"
      "tokenizePattern code i e =
         \<lparr>tkKind = k, tkText = stringOfByte (code ! i), tkPos = i\<rparr> # tokenizePattern code (i + 1) e"
proof -
  note step = tokenizePattern.simps [of code i e]
  let ?dots = "code ! i = CHR ''.'' \<and> i + 2 < e \<and> code ! (i + 1) = CHR ''.'' \<and> code ! (i + 2) = CHR ''.''"
  let ?double = "code ! i = CHR ''='' \<and> i + 1 < e \<and> (code ! (i + 1) = CHR ''='' \<or> code ! (i + 1) = CHR ''>'')"
  have not_start: "\<not> isIdentStart (CHR ''.'')" "\<not> isBlank (CHR ''.'')"
    "\<not> isIdentStart (CHR ''='')" "\<not> isBlank (CHR ''='')"
    by (simp_all add: isIdentStart_def isBlank_def less_eq_char_def)
  consider "\<not> i < e" | "i < e" "isBlank (code ! i)" | "i < e" "\<not> isBlank (code ! i)" "isIdentStart (code ! i)"
    | "i < e" ?dots | "i < e" "\<not> ?dots" ?double
    | "i < e" "\<not> isBlank (code ! i)" "\<not> isIdentStart (code ! i)" "\<not> ?dots" "\<not> ?double"
    by blast
  then show ?thesis
  proof cases
    case 1
    then show ?thesis by (intro finish) (simp_all add: step)
  next
    case 2
    then show ?thesis by (intro gap) (simp_all add: step)
  next
    case 3
    then show ?thesis by (intro ident [OF _ _ refl]) (simp_all add: step Let_def)
  next
    case 4
    then show ?thesis using not_start by (intro dots) (simp_all add: step Let_def)
  next
    case 5
    then show ?thesis using not_start by (intro double) (auto simp: step Let_def)
  next
    case 6
    then show ?thesis
      by (cases "code ! i \<in> set ''[]{}(),:=.''")
        (rule single [where k = Punct] single [where k = Other]; auto simp: step Let_def)+
  qed
qed

lemma aligned_past:
  assumes "i < e \<longrightarrow> aligned code i \<or> \<not> isIdentPart (code ! i)" "i < e" "i < j"
    "\<forall>k. i \<le> k \<and> k < j \<longrightarrow> \<not> isIdentStart (code ! k)"
  shows "aligned code j"
proof (cases "isIdentPart (code ! i)")
  case True
  with assms(1,2) have "aligned code i" by blast
  with assms(3,4) show ?thesis by (auto intro: aligned_extend)
next
  case False
  with assms show ?thesis by (intro aligned_extend [OF aligned_after]) auto
qed

lemma tokenizePattern_aligned:
  "i < e \<longrightarrow> aligned code i \<or> \<not> isIdentPart (code ! i) \<Longrightarrow>
   t \<in> set (tokenizePattern code i e) \<Longrightarrow> tkKind t = Ident \<Longrightarrow>
   isIdentStart (code ! tkPos t) \<and> aligned code (tkPos t)"
proof (induction "e - i" arbitrary: i rule: less_induct)
  case less
  note next_aligned = aligned_past [OF less.prems(1)]
  have not_start: "\<not> isIdentStart (CHR ''.'')" "\<not> isIdentStart (CHR ''='')" "\<not> isIdentStart (CHR ''>'')"
    by (simp_all add: isIdentStart_def less_eq_char_def)
  show ?case
  proof (cases rule: tokenizePattern_turn [of e i code])
    case finish
    with less.prems show ?thesis by simp
  next
    case gap
    then have "\<not> isIdentStart (code ! i)" by (auto simp: isBlank_def isIdentStart_def less_eq_char_def)
    with gap less.prems show ?thesis
      by (intro less.hyps [of "i + 1"]) (auto intro!: next_aligned simp: less_Suc_eq)
  next
    case (ident j)
    show ?thesis
    proof (cases "tkPos t = i \<and> t \<notin> set (tokenizePattern code j e)")
      case True
      with ident less.prems(1) show ?thesis by (auto simp: ident_start_part)
    next
      case False
      with ident less.prems have "t \<in> set (tokenizePattern code j e)" by auto
      moreover have "j < e \<longrightarrow> \<not> isIdentPart (code ! j)"
        using ident(3) scanWhile_stop by blast
      moreover have "i < j" using ident(3) scanWhile_ge [of "i + 1" isIdentPart code e] by simp
      ultimately show ?thesis using ident(1) less.prems(3) by (intro less.hyps [of j]) auto
    qed
  next
    case dots
    have "\<not> isIdentStart (code ! k)" if "i \<le> k" "k < i + 3" for k
    proof -
      from that have "k = i \<or> k = i + 1 \<or> k = i + 2" by auto
      with dots not_start show ?thesis by auto
    qed
    with dots less.prems show ?thesis
      by (intro less.hyps [of "i + 3"]) (auto intro!: next_aligned)
  next
    case double
    have "\<not> isIdentStart (code ! k)" if "i \<le> k" "k < i + 2" for k
    proof -
      from that have "k = i \<or> k = i + 1" by auto
      with double not_start show ?thesis by auto
    qed
    with double less.prems show ?thesis
      by (intro less.hyps [of "i + 2"]) (auto intro!: next_aligned)
  next
    case (single k)
    with less.prems show ?thesis
      by (intro less.hyps [of "i + 1"]) (auto intro!: next_aligned simp: less_Suc_eq)
  qed
qed

text \<open>The same turn seen coarsely: the end, a blank, or one token and the scan after it.\<close>

lemma tokenizePattern_step:
  obtains (finish) "tokenizePattern code i e = []"
  | (gap) "i < e" "isBlank (code ! i)" "tokenizePattern code i e = tokenizePattern code (i + 1) e"
  | (token) u j where "i < e" "i < j" "tkPos u = i" "tokenizePattern code i e = u # tokenizePattern code j e"
proof (cases rule: tokenizePattern_turn [of e i code])
  case (ident j)
  have "i < j" using ident(3) scanWhile_ge [of "i + 1" isIdentPart code e] by simp
  with ident show ?thesis by (intro token) auto
next
  case dots
  then show ?thesis by (intro token [of "i + 3"]) auto
next
  case double
  then show ?thesis by (intro token [of "i + 2"]) auto
next
  case (single k)
  then show ?thesis by (intro token [of "i + 1"]) auto
qed (auto intro: finish gap)

lemma tokenizePattern_range:
  "t \<in> set (tokenizePattern code i e) \<Longrightarrow> i \<le> tkPos t \<and> tkPos t < e"
proof (induction "e - i" arbitrary: i rule: less_induct)
  case less
  show ?case
  proof (cases rule: tokenizePattern_step [of code i e])
    case finish
    with less.prems show ?thesis by simp
  next
    case gap
    then have "i + 1 \<le> tkPos t \<and> tkPos t < e" using less.prems by (intro less.hyps) auto
    then show ?thesis by simp
  next
    case (token u j)
    then have "t = u \<or> (j \<le> tkPos t \<and> tkPos t < e)"
      using less.prems less.hyps [of j] by (auto simp: diff_less_mono2)
    with token show ?thesis by auto
  qed
qed

text \<open>Only white space lies before the first token, and a suffix of the tokens is itself a scan.\<close>

lemma tokenizePattern_first:
  "tokenizePattern code i e = t # ts \<Longrightarrow> i \<le> k \<Longrightarrow> k < tkPos t \<Longrightarrow> isBlank (code ! k)"
proof (induction "e - i" arbitrary: i rule: less_induct)
  case less
  show ?case
  proof (cases rule: tokenizePattern_step [of code i e])
    case finish
    with less.prems show ?thesis by simp
  next
    case gap
    then show ?thesis using less.hyps [of "i + 1"] less.prems by (cases "k = i") auto
  next
    case (token u j)
    with less.prems show ?thesis by simp
  qed
qed

lemma tokenizePattern_suffix:
  "tokenizePattern code i e = pre @ t # ts \<Longrightarrow> tokenizePattern code (tkPos t) e = t # ts"
proof (induction "e - i" arbitrary: i pre rule: less_induct)
  case less
  show ?case
  proof (cases rule: tokenizePattern_step [of code i e])
    case finish
    with less.prems show ?thesis by simp
  next
    case gap
    with less.hyps [of "i + 1" pre] less.prems show ?thesis by simp
  next
    case (token u j)
    show ?thesis
    proof (cases pre)
      case Nil
      with token less.prems show ?thesis by auto
    next
      case (Cons v pre')
      with token less.hyps [of j pre'] less.prems show ?thesis by auto
    qed
  qed
qed

section \<open>The pattern walk\<close>

text \<open>What may stand before a recorded name, and what may stand after it.\<close>

definition openers :: "string set" where
  "openers = {''['', ''{'', '','', ''...'', '':''}"

definition closers :: "string set" where
  "closers = {'','', ''='', '']'', ''}''}"

lemma skipDefault_suffix: "\<exists>xs. ts = xs @ skipDefault ts depth"
proof (induction ts arbitrary: depth)
  case (Cons t ts)
  have "skipDefault (t # ts) depth = t # ts \<or> (\<exists>d. skipDefault (t # ts) depth = skipDefault ts d)"
    by auto
  then show ?case
  proof (elim disjE exE)
    fix d
    assume eq: "skipDefault (t # ts) depth = skipDefault ts d"
    obtain xs where "ts = xs @ skipDefault ts d" using Cons.IH by blast
    then have "t # ts = (t # xs) @ skipDefault (t # ts) depth" unfolding eq by simp
    then show ?thesis by blast
  qed simp
qed simp

text \<open>After a complete value the walk accepts only a separator, a default or the closer.\<close>

lemma patWalk_after_value:
  assumes "patWalk ts found (f # fs) = Some res" "expectSep f" "frKind f = Object \<longrightarrow> \<not> atPropStart f"
  shows "\<exists>u rest. ts = u # rest \<and> tkText u \<in> closers"
  using assms by (cases ts) (auto simp: blocked_def closers_def split: if_splits)

text \<open>
  One turn of a walk that succeeds: it moves over some tokens and leaves \<open>found\<close> alone, or it
  records the identifier it is at. In the first case a new innermost context that still expects
  an element was opened, separated or keyed by the last token moved over.
\<close>

lemma patWalk_turn:
  assumes "patWalk (t # ts) found stack = Some res"
  obtains (move) xs ts' stack' where "ts = xs @ ts'" "patWalk ts' found stack' = Some res"
      "stack' \<noteq> [] \<longrightarrow> \<not> expectSep (hd stack') \<longrightarrow> tkText (last (t # xs)) \<in> openers"
  | (recorded) f fs f' where "stack = f # fs" "\<not> expectSep f" "tkKind t = Ident"
      "patWalk ts (found @ [tkPos t]) (f' # fs) = Some res"
      "expectSep f'" "frKind f' = Object \<longrightarrow> \<not> atPropStart f'"
proof -
  have top: "closeElement fs \<noteq> [] \<longrightarrow> \<not> expectSep (hd (closeElement fs)) \<longrightarrow> x \<in> openers" for fs x
    by (auto simp: closeElement_def split: list.splits)
  consider (brk_open) "tkText t = ''[''  \<or> tkText t = ''{''" | (brk_close) "tkText t = '']'' \<or> tkText t = ''}''"
    | (comma) "tkText t = '',''" | (rest) "tkText t = ''...''" | (dflt) "tkText t = ''=''"
    | (other) "tkText t \<notin> {''['', ''{'', '']'', ''}'', '','', ''...'', ''=''}"
    by blast
  then show ?thesis
  proof cases
    case brk_open
    with assms obtain stack' where "patWalk ts found stack' = Some res"
      by (auto split: if_splits)
    with brk_open show ?thesis by (intro move [of "[]" ts]) (auto simp: openers_def)
  next
    case brk_close
    with assms obtain f fs where "patWalk ts found (closeElement fs) = Some res"
      by (auto split: if_splits list.splits)
    then show ?thesis using top by (intro move [of "[]" ts]) auto
  next
    case comma
    with assms obtain stack' where "patWalk ts found stack' = Some res"
      by (auto split: list.splits)
    with comma show ?thesis by (intro move [of "[]" ts]) (auto simp: openers_def)
  next
    case rest
    with assms obtain stack' where "patWalk ts found stack' = Some res"
      by (auto split: list.splits if_splits)
    with rest show ?thesis by (intro move [of "[]" ts]) (auto simp: openers_def)
  next
    case dflt
    with assms obtain f fs where "expectSep f" "patWalk (skipDefault ts 0) found (f # fs) = Some res"
      by (auto split: list.splits if_splits)
    moreover obtain xs where "ts = xs @ skipDefault ts 0" using skipDefault_suffix by blast
    ultimately show ?thesis by (intro move [of xs "skipDefault ts 0"]) auto
  next
    case other
    with assms obtain f fs where f: "tkKind t = Ident" "stack = f # fs" "\<not> expectSep f"
      by (auto split: list.splits if_splits)
    show ?thesis
    proof (cases "frKind f = Object \<and> atPropStart f \<and> ts \<noteq> [] \<and> tkText (hd ts) = '':''")
      case True
      with assms other f have "patWalk (tl ts) found (f\<lparr>atPropStart := False\<rparr> # fs) = Some res" by auto
      with True show ?thesis by (intro move [of "[hd ts]" "tl ts"]) (auto simp: openers_def)
    next
      case False
      with assms other f show ?thesis
        by (intro recorded [OF f(2,3,1)]) (auto split: if_splits)
    qed
  qed
qed

text \<open>
  Every name the walk records is an identifier token with an opener, a separator, a rest mark or a
  key's colon before it and a separator, a default or a closer after it: never the object of a
  member access or a call. \<open>prev\<close> is the token before the ones the walk still has to read.
\<close>

lemma patWalk_context:
  assumes "patWalk ts found stack = Some res" "p \<in> set res" "p \<notin> set found"
    and "stack \<noteq> [] \<longrightarrow> \<not> expectSep (hd stack) \<longrightarrow> tkText prev \<in> openers"
  shows "\<exists>pre u0 t u rest. prev # ts = pre @ u0 # t # u # rest \<and> tkKind t = Ident \<and> tkPos t = p \<and>
           tkText u0 \<in> openers \<and> tkText u \<in> closers"
  using assms
proof (induction "length ts" arbitrary: ts found stack prev rule: less_induct)
  case less
  show ?case
  proof (cases ts)
    case Nil
    with less.prems show ?thesis by (auto split: if_splits)
  next
    case (Cons t ts1)
    with less.prems(1) have run: "patWalk (t # ts1) found stack = Some res" by simp
    from run show ?thesis
    proof (cases rule: patWalk_turn)
      case (move xs ts' stack')
      have "\<exists>pre u0 v u rest. last (t # xs) # ts' = pre @ u0 # v # u # rest \<and> tkKind v = Ident \<and>
              tkPos v = p \<and> tkText u0 \<in> openers \<and> tkText u \<in> closers"
        by (rule less.hyps [OF _ move(2) less.prems(2,3) move(3)]) (simp add: Cons move(1))
      moreover have "prev # ts = (prev # butlast (t # xs)) @ last (t # xs) # ts'"
        using Cons move(1) by (metis append_Cons append_butlast_last_id append.assoc append_Nil list.distinct(1))
      ultimately show ?thesis by (metis append.assoc)
    next
      case (recorded f fs f')
      show ?thesis
      proof (cases "p = tkPos t")
        case True
        obtain u rest where "ts1 = u # rest" "tkText u \<in> closers"
          using patWalk_after_value [OF recorded(4-6)] by blast
        moreover have "tkText prev \<in> openers" using less.prems(4) recorded(1,2) by simp
        ultimately have "prev # ts = [] @ prev # t # u # rest \<and> tkKind t = Ident \<and> tkPos t = p \<and>
            tkText prev \<in> openers \<and> tkText u \<in> closers"
          using Cons recorded(3) True by simp
        then show ?thesis by blast
      next
        case False
        with less.prems(2,3) recorded Cons obtain pre u0 v u rest
          where "t # ts1 = pre @ u0 # v # u # rest" "tkKind v = Ident" "tkPos v = p"
            "tkText u0 \<in> openers" "tkText u \<in> closers"
          using less.hyps [OF _ recorded(4), of t] by auto
        then show ?thesis using Cons by (metis append_Cons)
      qed
    qed
  qed
qed

section \<open>Targets\<close>

lemma skipBack_run:
  "i \<le> p \<Longrightarrow> \<forall>k. i \<le> k \<and> k < p \<longrightarrow> isBlank (code ! k) \<Longrightarrow> i = 0 \<or> \<not> isBlank (code ! (i - 1)) \<Longrightarrow>
   skipBack code p = i"
proof (induction p)
  case (Suc p)
  show ?case
  proof (cases "i = Suc p")
    case True
    with Suc.prems show ?thesis by auto
  next
    case False
    with Suc show ?thesis by auto
  qed
qed simp

text \<open>An identifier with only white space between a byte that is no blank and no dot is no member.\<close>

lemma not_member_after:
  assumes "0 < i" "i \<le> p" "\<forall>k. i \<le> k \<and> k < p \<longrightarrow> isBlank (code ! k)" "\<not> isBlank (code ! (i - 1))"
    and "code ! (i - 1) = CHR ''.'' \<longrightarrow> 2 \<le> i \<and> code ! (i - 2) = CHR ''.''"
  shows "\<not> memberProperty code p"
proof -
  have "skipBack code p = i" using assms by (intro skipBack_run) auto
  with assms(1,5) show ?thesis by (auto simp: memberProperty_def)
qed

lemma stringOfByte_single: "stringOfByte c = [d] \<Longrightarrow> c = d"
  by (auto simp: stringOfByte_def Let_def split: if_splits)

lemma opener_not_start: "w \<in> openers \<Longrightarrow> w \<noteq> [] \<and> \<not> isIdentStart (hd w)"
  by (auto simp: openers_def isIdentStart_def less_eq_char_def)

text \<open>The byte before the scan that follows an opening token.\<close>

lemma after_opener:
  assumes "tokenizePattern code i e = u # t # ts" "tkPos u = i" "tkText u \<in> openers"
  shows "\<not> memberProperty code (tkPos t)"
proof (cases rule: tokenizePattern_turn [of e i code])
  case finish
  with assms(1) show ?thesis by simp
next
  case gap
  with assms(1,2) show ?thesis
    using tokenizePattern_range [of u code "i + 1" e] by simp
next
  case (ident j)
  then have "tkText u = slice_of code i j" "i < j"
    using assms(1) scanWhile_ge [of "i + 1" isIdentPart code e] by auto
  moreover have "j \<le> e" using ident(1,3) scanWhile_le [of "i + 1" e] by simp
  ultimately have "slice_of code i j \<in> openers" using assms(3) by simp
  moreover have "hd (slice_of code i j) = code ! i \<or> slice_of code i j = []"
    using \<open>i < j\<close> by (cases "i < length code") (auto simp: slice_of_def hd_drop_conv_nth)
  ultimately show ?thesis using ident(2) opener_not_start [of "slice_of code i j"] by auto
next
  case dots
  then have t: "tokenizePattern code (i + 3) e = t # ts" using assms(1) by simp
  then have "i + 3 \<le> tkPos t" using tokenizePattern_range [of t code "i + 3" e] by simp
  then show ?thesis
    using tokenizePattern_first [OF t] dots
    by (intro not_member_after [of "i + 3"]) (auto simp: isBlank_def)
next
  case double
  with assms(1) have "u = \<lparr>tkKind = Punct, tkText = [code ! i, code ! (i + 1)], tkPos = i\<rparr>" by simp
  with double assms(3) show ?thesis by (auto simp: openers_def)
next
  case (single k)
  then have t: "tokenizePattern code (i + 1) e = t # ts" using assms(1) by simp
  then have "i + 1 \<le> tkPos t" using tokenizePattern_range [of t code "i + 1" e] by simp
  moreover have "code ! i \<noteq> CHR ''.''"
  proof
    assume "code ! i = CHR ''.''"
    then have "stringOfByte (code ! i) = ''.''" by (simp add: stringOfByte_def)
    with single assms(1,3) show False by (simp add: openers_def)
  qed
  ultimately show ?thesis
    using tokenizePattern_first [OF t] single(3)
    by (intro not_member_after [of "i + 1"]) auto
qed

text \<open>Where the occurrence scan starts an identifier, if its run of identifier bytes reaches there.\<close>

definition occurrenceAt :: "string \<Rightarrow> nat \<Rightarrow> bool" where
  "occurrenceAt code p \<longleftrightarrow> aligned code p \<and> isIdentStart (code ! p) \<and> \<not> memberProperty code p"

lemma collect_occurrences:
  assumes "p \<in> collectPatternTargets code s e out" "p \<notin> out"
    and "0 < s" "code ! (s - 1) = CHR ''(''"
  shows "s \<le> p \<and> p < e \<and> occurrenceAt code p"
proof -
  have start: "aligned code s"
    using assms(3,4) aligned_after [of code "s - 1"]
    by (simp add: isIdentPart_def isIdentStart_def less_eq_char_def)
  obtain t ts where toks: "tokenizePattern code s e = t # ts"
    using assms(1,2) by (auto simp: collectPatternTargets_def split: list.splits)
  have token: "s \<le> tkPos v \<and> tkPos v < e \<and> isIdentStart (code ! tkPos v) \<and> aligned code (tkPos v)"
    if "v \<in> set (t # ts)" "tkKind v = Ident" for v
    using that tokenizePattern_range tokenizePattern_aligned [of s e code v] start toks by metis
  consider (bare) "tkKind t = Ident" "p = tkPos t"
    | (walk) found where "tkKind t \<noteq> Ident" "patWalk (t # ts) [] [] = Some found" "p \<in> set found"
    using assms(1,2) toks
    by (auto simp: collectPatternTargets_def simp del: patWalk.simps split: if_splits option.splits)
  then show ?thesis
  proof cases
    case bare
    have "\<not> memberProperty code p"
      using tokenizePattern_first [OF toks] token [of t] bare assms(3,4)
      by (intro not_member_after [of s]) (auto simp: isBlank_def)
    with bare token [of t] show ?thesis by (simp add: occurrenceAt_def)
  next
    case walk
    obtain prev where prev: "prev = t" by blast
    from patWalk_context [OF walk(2,3), of prev] obtain pre u0 v u rest
      where ctx: "prev # t # ts = pre @ u0 # v # u # rest" "tkKind v = Ident" "tkPos v = p" "tkText u0 \<in> openers"
      by auto
    with walk(1) prev obtain pre' where "pre = prev # pre'" by (cases pre) auto
    with ctx toks have split: "tokenizePattern code s e = pre' @ u0 # v # (u # rest)" by simp
    have "\<not> memberProperty code (tkPos v)"
      using tokenizePattern_suffix [OF split] ctx(4) by (intro after_opener) auto
    moreover have "v \<in> set (t # ts)" using split toks by (metis in_set_conv_decomp append_Cons append.assoc append_Nil)
    ultimately show ?thesis using token [of v] ctx by (simp add: occurrenceAt_def)
  qed
qed

section \<open>Loop heads\<close>

text \<open>
  The head's tokens bind \<open>p\<close>: as a name of its pattern, when they are one of the grammar; when they are not
  (two patterns in a row, say), as an identifier between tokens that begin and end an element.
\<close>

definition boundIn :: "ptok list \<Rightarrow> nat \<Rightarrow> bool" where
  "boundIn toks p \<longleftrightarrow>
     (if \<exists>ls. headBinds toks ls then \<exists>ls. headBinds toks ls \<and> p \<in> set ls
      else \<exists>pre u t v post. toks = pre @ u # t # v # post \<and> tkKind t = Ident \<and> tkPos t = p \<and>
        tkText u \<in> openers \<and> tkText v \<in> closers)"

text \<open>
  \<open>p\<close> is bound by a loop head: it lies between the parenthesis after a \<open>for\<close> (or \<open>for await\<close>) and the
  \<open>of\<close> or \<open>in\<close> that closes the binding, and the tokens in between bind it.
\<close>

definition boundInHead :: "string \<Rightarrow> nat \<Rightarrow> bool" where
  "boundInHead code p \<longleftrightarrow>
     (\<exists>i e. wordAt code i ''for'' \<and> headOpen code i < length code \<and> code ! headOpen code i = CHR ''('' \<and>
        forBindingEnd code (headOpen code i + 1) = Some e \<and> headOpen code i < p \<and> p < e \<and>
        boundIn (tokenizePattern code (headOpen code i + 1) e) p)"

lemma walk_context:
  assumes "patWalk toks [] [] = Some res" "p \<in> set res"
  shows "\<exists>pre u t v post. toks = pre @ u # t # v # post \<and> tkKind t = Ident \<and> tkPos t = p \<and>
    tkText u \<in> openers \<and> tkText v \<in> closers"
proof -
  obtain pre u0 t u rest
    where ctx: "\<lparr>tkKind = Other, tkText = [], tkPos = 0\<rparr> # toks = pre @ u0 # t # u # rest"
      and "tkKind t = Ident" "tkPos t = p" "tkText u0 \<in> openers" "tkText u \<in> closers"
    using patWalk_context [OF assms, of "\<lparr>tkKind = Other, tkText = [], tkPos = 0\<rparr>"] by auto
  moreover from ctx have "toks = tl pre @ u0 # t # u # rest"
    using \<open>tkText u0 \<in> openers\<close> by (cases pre) (auto simp: openers_def)
  ultimately show ?thesis by blast
qed

lemma collect_bound:
  assumes "p \<in> collectPatternTargets code s e out" "p \<notin> out"
  shows "boundIn (tokenizePattern code s e) p"
proof (cases "\<exists>ls. headBinds (tokenizePattern code s e) ls")
  case True
  with assms show ?thesis by (auto simp: boundIn_def head_targets)
next
  case False
  then have "\<not> (\<exists>t. tokenizePattern code s e = [t] \<and> tkKind t = Ident)" by (auto simp: headBinds_def)
  with assms obtain found where "patWalk (tokenizePattern code s e) [] [] = Some found" "p \<in> set found"
    by (auto simp: collectPatternTargets_def simp del: patWalk.simps split: list.splits if_splits option.splits)
  from walk_context [OF this] False show ?thesis by (simp add: boundIn_def)
qed

lemma forTargets_turn:
  obtains (finish) "forTargetsFrom code i targets = targets"
  | (skip) i' where "i < length code" "i < i'" "forTargetsFrom code i targets = forTargetsFrom code i' targets"
  | (head) e where "i < length code" "i < e" "wordAt code i ''for''" "headOpen code i < length code"
      "code ! headOpen code i = CHR ''(''" "forBindingEnd code (headOpen code i + 1) = Some e"
      "forTargetsFrom code i targets =
         forTargetsFrom code e (collectPatternTargets code (headOpen code i + 1) e targets)"
proof (cases "i < length code \<and> wordAt code i ''for''")
  case False
  then show thesis using finish skip [of "i + 1"] by (cases "i < length code") (simp_all add: forTargetsFrom.simps [of code i])
next
  case word: True
  note step = forTargetsFrom.simps [of code i targets, folded headOpen_def]
  show thesis
  proof (cases "headOpen code i < length code \<and> code ! headOpen code i = CHR ''(''")
    case False
    with word show thesis by (intro skip [of "i + 3"]) (auto simp: step Let_def)
  next
    case paren: True
    show thesis
    proof (cases "forBindingEnd code (headOpen code i + 1)")
      case None
      with word paren headOpen_ge [of i code] show thesis
        by (intro skip [of "headOpen code i + 1"]) (auto simp: step Let_def)
    next
      case (Some e)
      then have "headOpen code i + 1 \<le> e" by (simp add: forBindingEnd_def bindingEndFrom_ge)
      with word paren Some headOpen_ge [of i code] show thesis by (intro head [of e]) (auto simp: step Let_def)
    qed
  qed
qed

lemma forTargets_sound:
  "p \<in> forTargetsFrom code i targets \<Longrightarrow> p \<in> targets \<or> (boundInHead code p \<and> occurrenceAt code p)"
proof (induction "length code - i" arbitrary: i targets rule: less_induct)
  case less
  show ?case
  proof (cases rule: forTargets_turn [of code i targets])
    case finish
    with less.prems show ?thesis by simp
  next
    case (skip i')
    with less.prems show ?thesis by (intro less.hyps [of i']) auto
  next
    case (head e)
    let ?in = "collectPatternTargets code (headOpen code i + 1) e targets"
    have "p \<in> ?in \<or> (boundInHead code p \<and> occurrenceAt code p)"
      using head less.prems by (intro less.hyps [of e]) auto
    moreover have "boundInHead code p \<and> occurrenceAt code p" if "p \<in> ?in" "p \<notin> targets"
    proof -
      from collect_occurrences [OF that(1)] that(2) head
      have "headOpen code i + 1 \<le> p \<and> p < e \<and> occurrenceAt code p" by simp
      moreover have "boundIn (tokenizePattern code (headOpen code i + 1) e) p" by (rule collect_bound [OF that])
      ultimately show ?thesis using head unfolding boundInHead_def by force
    qed
    ultimately show ?thesis by blast
  qed
qed

lemma bindingEndFrom_keyword:
  "bindingEndFrom code depth i = Some e \<Longrightarrow> e < length code \<and> (wordAt code e ''of'' \<or> wordAt code e ''in'')"
proof (induction code depth i rule: bindingEndFrom.induct)
  case (1 code depth i)
  then show ?case
    by (auto simp: bindingEndFrom.simps [of code depth i] Let_def split: if_splits)
qed

text \<open>Every target is the offset of an occurrence of the global scan.\<close>

lemma target_seen:
  assumes "p \<in> forBindingTargets code"
  shows "p \<in> occPos ` set (scanIdents code)"
proof -
  have p: "boundInHead code p" "occurrenceAt code p"
    using forTargets_sound [of p code 0 "{}"] assms by (auto simp: forBindingTargets_def)
  from p(1) have "p < length code"
    using bindingEndFrom_keyword unfolding boundInHead_def forBindingEnd_def by (metis less_trans)
  with p(2) show ?thesis
    unfolding scanIdents_def occurrenceAt_def by (intro scanIdentsFrom_finds) auto
qed

section \<open>The hoist\<close>

lemma winnableNames_eq:
  "winnableNames T other seen occs =
     firstOccs seen (map occName (filter (\<lambda>occ. occPos occ \<in> T \<and> occName occ \<notin> other) occs))"
  by (induction T other seen occs rule: winnableNames.induct) auto

lemma hoistNames_eq:
  "hoistNames body =
     (let code = maskLiterals body; T = forBindingTargets code; occs = scanIdents code
      in firstOccs {} (map occName (filter (\<lambda>occ. occPos occ \<in> T \<and> occName occ \<notin> otherNames T occs) occs)))"
  by (simp add: hoistNames_def winnableNames_eq Let_def)

section \<open>Properties\<close>

text \<open>C13. What gets a \<open>var\<close>, and how far that is safe. The hoisted names are exactly those with an occurrence in
  the masked body that is a target and none that is not, each once. Every occurrence of a hoisted name in
  the masked body, not only its targets, is bound by the head of a for-of or for-in loop: it lies in the
  head's binding, and is one of the names the binding's pattern binds (never a key, never part of a default),
  for every binding that is one name or a pattern of the grammar. For a binding that is neither, it only
  stands where an element could: the key \<open>k\<close> of \<open>\{\}[k]\<close>, which the loop reads, is hoisted.\<close>

theorem hoist_safe:
  "set (hoistNames body) =
     occName ` {occ \<in> set (scanIdents (maskLiterals body)). occPos occ \<in> forBindingTargets (maskLiterals body)}
     - occName ` {occ \<in> set (scanIdents (maskLiterals body)). occPos occ \<notin> forBindingTargets (maskLiterals body)}
   \<and> distinct (hoistNames body)
   \<and> occPos ` {occ \<in> set (scanIdents (maskLiterals body)). occName occ \<in> set (hoistNames body)}
     \<subseteq> {p. boundInHead (maskLiterals body) p}"
proof (intro conjI)
  show names: "set (hoistNames body) =
      occName ` {occ \<in> set (scanIdents (maskLiterals body)). occPos occ \<in> forBindingTargets (maskLiterals body)}
      - occName ` {occ \<in> set (scanIdents (maskLiterals body)). occPos occ \<notin> forBindingTargets (maskLiterals body)}"
    by (auto simp: hoistNames_eq otherNames_def Let_def)
  show "distinct (hoistNames body)" by (simp add: hoistNames_eq Let_def)
  have "boundInHead code p" if "p \<in> forBindingTargets code" for code p
    using forTargets_sound [of p code 0 "{}"] that by (auto simp: forBindingTargets_def)
  then show "occPos ` {occ \<in> set (scanIdents (maskLiterals body)). occName occ \<in> set (hoistNames body)}
      \<subseteq> {p. boundInHead (maskLiterals body) p}"
    unfolding names by blast
qed

text \<open>Every binding target lies inside the head of a for-of or for-in loop, between its
  parenthesis and its keyword, and is the offset of an identifier the occurrence scan reports, so
  the two scans talk about the same tokens.\<close>

theorem targets_in_heads:
  assumes "p \<in> forBindingTargets code"
  shows "boundInHead code p \<and> p \<in> occPos ` set (scanIdents code)"
  using target_seen [OF assms] forTargets_sound [of p code 0 "{}"] assms
  by (auto simp: forBindingTargets_def)

theorem targets_in_heads_witness:
  "boundInHead ''for (x of [1]) {}'' 5 \<and> 5 \<in> occPos ` set (scanIdents ''for (x of [1]) {}'')"
proof (rule targets_in_heads)
  show "5 \<in> forBindingTargets ''for (x of [1]) {}''" by code_simp
qed

text \<open>C33. Masking literals and comments keeps the length, so offsets still line up, keeps every
  newline, and changes a byte only into a space; masking twice is masking once.\<close>

theorem mask_faithful:
  "masks src (maskLiterals src) \<and> maskLiterals (maskLiterals src) = maskLiterals src"
  by (simp add: maskLiterals_def masks_maskLoop maskLoop_fixed)

text \<open>A name the pattern walk records stands complete in its element: an opener, separator,
  rest mark or key colon before it and a separator, default or closer after it, so inside a
  bracket the object of a member access or call is never recorded.\<close>

theorem pattern_names_complete:
  assumes "patWalk toks [] [] = Some res" "p \<in> set res"
  shows "\<exists>pre u0 t u rest. toks = pre @ u0 # t # u # rest \<and> tkKind t = Ident \<and>
           tkPos t = p \<and> tkText u0 \<in> openers \<and> tkText u \<in> closers"
  by (rule walk_context [OF assms])

theorem pattern_names_complete_witness:
  "\<exists>pre u0 t u rest. tokenizePattern ''[x]'' 0 3 = pre @ u0 # t # u # rest \<and>
     tkKind t = Ident \<and> tkPos t = 1 \<and> tkText u0 \<in> openers \<and> tkText u \<in> closers"
proof (rule pattern_names_complete)
  show "patWalk (tokenizePattern ''[x]'' 0 3) [] [] = Some [1]" by code_simp
  show "1 \<in> set [1 :: nat]" by simp
qed

text \<open>At the top level of the binding the walk does not see that a bracket after a complete
  pattern is a member access: the key of \<open>\{\}[k]\<close>, which the loop only reads, is hoisted.\<close>

theorem top_level_member_hoisted:
  "hoistSloppyForBindings ''for ({}[k] of [1]) {}'' = ''var k;'' @ [NL]"
  by code_simp

text \<open>A read inside a template substitution is masked with the literal around it, so it does
  not keep its name from being hoisted.\<close>

theorem template_read_masked:
  "hoistSloppyForBindings ''for (x of [1]) { f(`${x}`) }'' = ''var x;'' @ [NL]"
  by code_simp

end
