(* ===== verification/Meta.thy ===== *)
theory Meta
  imports GoStrings
begin

text \<open>
  \<open>pkg/tc39/meta.go\<close>: the frontmatter of a test262 file. Decoding the YAML block is
  \<open>gopkg.in/yaml.v3\<close>'s; it is the parameter \<open>yaml\<close>, which gives an error or the decoded record.
\<close>

record negative =
  negPhase :: string
  negType :: string

record meta =
  mDescription :: string
  mInfo :: string
  mEsid :: string
  mEs5id :: string
  mEs6id :: string
  mIncludes :: "string list"
  mFlags :: "string list"
  mFeatures :: "string list"
  mNegative :: "negative option"
  mLocale :: "string list"

definition zeroMeta :: meta where
  "zeroMeta = \<lparr>mDescription = [], mInfo = [], mEsid = [], mEs5id = [], mEs6id = [],
     mIncludes = [], mFlags = [], mFeatures = [], mNegative = None, mLocale = []\<rparr>"

definition HasFlag :: "meta \<Rightarrow> string \<Rightarrow> bool" where
  "HasFlag m name = list_ex (\<lambda>f. f = name) (mFlags m)"

definition HasFeature :: "meta \<Rightarrow> string \<Rightarrow> bool" where
  "HasFeature m name = list_ex (\<lambda>f. f = name) (mFeatures m)"

definition metaStart :: string where "metaStart = ''/*---''"

definition metaEnd :: string where "metaEnd = ''---*/''"

definition ParseMeta :: "(string \<Rightarrow> goerror + meta) \<Rightarrow> string \<Rightarrow> goerror + meta" where
  "ParseMeta yaml src =
     (case Index src metaStart of
        None \<Rightarrow> Inr zeroMeta
      | Some start \<Rightarrow>
          (let rest = drop (start + length metaStart) src in
           case Index rest metaEnd of
             None \<Rightarrow> Inl (Msg ''unterminated frontmatter block'')
           | Some end \<Rightarrow>
               (case yaml (take end rest) of
                  Inl e \<Rightarrow> Inl (Wrapped ''frontmatter'' e)
                | Inr m \<Rightarrow> Inr m)))"

lemma HasFlag_iff: "HasFlag m name \<longleftrightarrow> name \<in> set (mFlags m)"
  by (auto simp: HasFlag_def list_ex_iff)

text \<open>The frontmatter decoded is the text between the first opening marker of the file and the
  first closing marker after it, and nothing else of the file matters.\<close>

theorem frontmatter_extracted:
  assumes "Index (pre @ metaStart @ body @ metaEnd @ rest) metaStart = Some (length pre)"
    and "Index (body @ metaEnd @ rest) metaEnd = Some (length body)" and "yaml body = Inr m"
  shows "ParseMeta yaml (pre @ metaStart @ body @ metaEnd @ rest) = Inr m"
  using assms by (simp add: ParseMeta_def)

theorem frontmatter_extracted_witness:
  "ParseMeta (\<lambda>y. if y = ''flags: [raw]'' then Inr (zeroMeta\<lparr>mFlags := [''raw'']\<rparr>) else Inl (Msg y))
     (''// c'' @ metaStart @ ''flags: [raw]'' @ metaEnd @ ''f();'')
   = Inr (zeroMeta\<lparr>mFlags := [''raw'']\<rparr>)"
  by (rule frontmatter_extracted) (code_simp+)

end
