(* ===== verification/ModuleGraph.thy ===== *)
theory ModuleGraph
  imports GoPath GoSort Hoist
begin

text \<open>
  \<open>pkg/tc39/modulegraph.go\<close>: the relative import specifiers of a module source, the names their
  files are staged under, and the breadth-first walk that collects the sibling modules a test
  imports. The three regular expressions are written out as the leftmost, non-overlapping
  matchers they denote: both specifier expressions match at most one way at a given offset, and
  the frontmatter expression is lazy, so it ends at the first closing marker.

  The lemmas show that the walk terminates on every (finite) file system, that it stages each
  name once, never the entry's own name and never a name outside the scratch directory, that
  everything staged was read from the file system, and that it covers the entry's imports.
\<close>

section \<open>Specifiers\<close>

record stagedModule =
  smName :: string
  smSource :: string

definition isWordByte :: "char \<Rightarrow> bool" where
  "isWordByte c \<longleftrightarrow>
     c = CHR ''_'' \<or> (CHR ''0'' \<le> c \<and> c \<le> CHR ''9'') \<or> (CHR ''a'' \<le> c \<and> c \<le> CHR ''z'') \<or>
     (CHR ''A'' \<le> c \<and> c \<le> CHR ''Z'')"

definition isReSpace :: "char \<Rightarrow> bool" where
  "isReSpace c \<longleftrightarrow> c = TAB \<or> c = NL \<or> c = CHR 0x0C \<or> c = CR \<or> c = SP"

definition isQuote :: "char \<Rightarrow> bool" where
  "isQuote c \<longleftrightarrow> c = SQUOTE \<or> c = DQUOTE"

text \<open>
  A match of \<open>\bkw\s*['"]([^'"]+)['"]\<close> at offset \<open>i\<close>: where its group starts and ends.
\<close>

definition specifierAt :: "string \<Rightarrow> string \<Rightarrow> nat \<Rightarrow> (nat \<times> nat) option" where
  "specifierAt kw code i =
     (if slice_of code i (i + length kw) = kw \<and> (i = 0 \<or> \<not> isWordByte (code ! (i - 1))) then
        (let n = length code; j = scanWhile isReSpace code n (i + length kw) in
         if j < n \<and> isQuote (code ! j) then
           (let k = scanWhile (\<lambda>c. \<not> isQuote c) code n (j + 1) in
            if j + 1 < k \<and> k < n then Some (j + 1, k) else None)
         else None)
      else None)"

lemma specifierAt_bounds: "specifierAt kw code i = Some (a, k) \<Longrightarrow> i < a \<and> a < k \<and> k < length code"
  using scanWhile_ge [of "i + length kw" isReSpace code "length code"]
  by (auto simp: specifierAt_def Let_def split: if_splits)

text \<open>\<open>FindAllStringSubmatchIndex\<close> from offset \<open>i\<close>: each match with its offset and group.\<close>

function findSpecifiers :: "string \<Rightarrow> string \<Rightarrow> nat \<Rightarrow> (nat \<times> string) list" where
  "findSpecifiers kw code i =
     (if i < length code then
        (case specifierAt kw code i of
           None \<Rightarrow> findSpecifiers kw code (i + 1)
         | Some (a, k) \<Rightarrow> (i, slice_of code a k) # findSpecifiers kw code (k + 1))
      else [])"
  by pat_completeness auto
termination
  by (relation "measure (\<lambda>(kw, code, i). length code - i)") (auto dest: specifierAt_bounds)

declare findSpecifiers.simps [simp del]

text \<open>\<open>frontmatterBlock.ReplaceAllString(source, "")\<close>.\<close>

function stripFrontmatter :: "string \<Rightarrow> string" where
  "stripFrontmatter s =
     (case Index s ''/*---'' of
        None \<Rightarrow> s
      | Some i \<Rightarrow>
          (case Index (drop (i + 5) s) ''---*/'' of
             None \<Rightarrow> s
           | Some k \<Rightarrow> take i s @ stripFrontmatter (drop (i + 5 + k + 5) s)))"
  by pat_completeness auto
termination
  by (relation "measure length") (auto dest!: Index_Some)

declare stripFrontmatter.simps [simp del]

definition isRelative :: "string \<Rightarrow> bool" where
  "isRelative spec \<longleftrightarrow> HasPrefix spec ''./'' \<or> HasPrefix spec ''../''"

definition relativeSpecifiers :: "string \<Rightarrow> string list" where
  "relativeSpecifiers source =
     (let body = stripFrontmatter source;
          hits = findSpecifiers ''from'' body 0 @ findSpecifiers ''import'' body 0;
          sorted = sortSlice (\<lambda>h h'. fst h < fst h') hits
      in firstOccs {} (filter isRelative (map snd sorted)))"

section \<open>Names\<close>

definition tsExtension :: "string \<Rightarrow> string" where
  "tsExtension name =
     (if HasSuffix name ''.js'' then TrimSuffix name ''.js'' @ ''.ts''
      else if HasSuffix name ''.mjs'' then TrimSuffix name ''.mjs'' @ ''.mts''
      else if HasSuffix name ''.cjs'' then TrimSuffix name ''.cjs'' @ ''.cts''
      else name)"

definition stagedName :: "string \<Rightarrow> string" where
  "stagedName spec = tsExtension (cleanPath (TrimPrefix spec ''./''))"

definition climbs :: "string \<Rightarrow> bool" where
  "climbs name \<longleftrightarrow> name = ''..'' \<or> HasPrefix name ''../''"

section \<open>The walk\<close>

definition moduleCandidates :: "string \<Rightarrow> string list" where
  "moduleCandidates target =
     target #
     (if HasSuffix target ''.js'' then [TrimSuffix target ''.js'' @ ''.ts'']
      else if HasSuffix target ''.mjs'' then [TrimSuffix target ''.mjs'' @ ''.mts'']
      else if HasSuffix target ''.cjs'' then [TrimSuffix target ''.cjs'' @ ''.cts'']
      else [])"

fun firstReadable :: "filesystem \<Rightarrow> string list \<Rightarrow> string option" where
  "firstReadable fs [] = None"
| "firstReadable fs (c # cs) =
     (case readFile fs c of FileData b \<Rightarrow> Some b | _ \<Rightarrow> firstReadable fs cs)"

definition readModuleFile :: "filesystem \<Rightarrow> string \<Rightarrow> string option" where
  "readModuleFile fs target = firstReadable fs (moduleCandidates target)"

record work =
  wkDir :: string
  wkSources :: "string list"

record graphState =
  gVisited :: "string set"
  gOut :: "stagedModule list"
  gQueue :: "work list"

text \<open>The body of the innermost loop, for one specifier of a source that lies in \<open>dir\<close>.\<close>

definition specTarget :: "string \<Rightarrow> string \<Rightarrow> string" where
  "specTarget dir spec = joinPath [dir, TrimPrefix spec ''./'']"

definition visitSpec :: "filesystem \<Rightarrow> string \<Rightarrow> string \<Rightarrow> graphState \<Rightarrow> graphState" where
  "visitSpec fs dir spec g =
     (let name = stagedName spec in
      if climbs name then g
      else if name \<in> gVisited g then g
      else
        (let g = g\<lparr>gVisited := insert name (gVisited g)\<rparr>; target = specTarget dir spec in
         case readModuleFile fs target of
           None \<Rightarrow> g
         | Some content \<Rightarrow>
             g\<lparr>gOut := gOut g @ [\<lparr>smName = name, smSource = content\<rparr>],
               gQueue := gQueue g @ [\<lparr>wkDir = dirPath target, wkSources = [content]\<rparr>]\<rparr>))"

definition workSpecs :: "work \<Rightarrow> string list" where
  "workSpecs w = concat (map relativeSpecifiers (wkSources w))"

text \<open>One turn of the queue loop: the front work item leaves the queue and its specifiers are visited.\<close>

definition turnQueue :: "filesystem \<Rightarrow> graphState \<Rightarrow> graphState" where
  "turnQueue fs g =
     (case gQueue g of
        [] \<Rightarrow> g
      | cur # rest \<Rightarrow> fold (visitSpec fs (wkDir cur)) (workSpecs cur) (g\<lparr>gQueue := rest\<rparr>))"

text \<open>
  Why the loop ends: the names the walk can still meet come from the sources in the queue and the
  files of the file system, which are finitely many, and every item put in the queue uses one up.
\<close>

definition sourceNames :: "string set \<Rightarrow> string set" where
  "sourceNames S = (\<Union>s \<in> S. stagedName ` set (relativeSpecifiers s))"

definition pending :: "filesystem \<Rightarrow> work list \<Rightarrow> string set" where
  "pending fs q = {b. FileData b \<in> snd ` set fs} \<union> (\<Union>w \<in> set q. set (wkSources w))"

lemma finite_pending: "finite (pending fs q)"
proof -
  have "{b. FileData b \<in> snd ` set fs} = (\<lambda>r. case r of FileData b \<Rightarrow> b | _ \<Rightarrow> []) ` {r \<in> snd ` set fs. \<exists>b. r = FileData b}"
    by (force simp: image_iff)
  then show ?thesis by (simp add: pending_def)
qed

lemma finite_sourceNames: "finite S \<Longrightarrow> finite (sourceNames S)"
  by (simp add: sourceNames_def)

lemma firstReadable_data: "firstReadable fs cs = Some b \<Longrightarrow> FileData b \<in> snd ` set fs"
  by (induction cs) (auto split: file_read.splits dest: readFile_data)

lemma visitSpec_cases:
  obtains (same) "visitSpec fs dir spec g = g" "climbs (stagedName spec) \<or> stagedName spec \<in> gVisited g"
  | (unread) "visitSpec fs dir spec g = g\<lparr>gVisited := insert (stagedName spec) (gVisited g)\<rparr>"
      "\<not> climbs (stagedName spec)" "stagedName spec \<notin> gVisited g"
      "readModuleFile fs (specTarget dir spec) = None"
  | (staged) b where
      "visitSpec fs dir spec g = g\<lparr>gVisited := insert (stagedName spec) (gVisited g),
         gOut := gOut g @ [\<lparr>smName = stagedName spec, smSource = b\<rparr>],
         gQueue := gQueue g @ [\<lparr>wkDir = dirPath (specTarget dir spec), wkSources = [b]\<rparr>]\<rparr>"
      "\<not> climbs (stagedName spec)" "stagedName spec \<notin> gVisited g"
      "readModuleFile fs (specTarget dir spec) = Some b"
proof (cases "climbs (stagedName spec) \<or> stagedName spec \<in> gVisited g")
  case True
  then show ?thesis by (intro same) (auto simp: visitSpec_def Let_def)
next
  case False
  then show ?thesis
    by (cases "readModuleFile fs (specTarget dir spec)")
      (auto intro: unread staged simp: visitSpec_def Let_def)
qed

text \<open>What a batch of specifiers can do to the state, in the terms of the measure.\<close>

lemma fold_visitSpec_measure:
  fixes g specs fs dir
  defines "g' \<equiv> fold (visitSpec fs dir) specs g"
  shows "gVisited g \<subseteq> gVisited g'" and "gVisited g' - gVisited g \<subseteq> stagedName ` set specs"
    and "finite (gVisited g' - gVisited g)"
    and "length (gQueue g') \<le> length (gQueue g) + card (gVisited g' - gVisited g)"
    and "pending fs (gQueue g') \<subseteq> pending fs (gQueue g)"
proof -
  have "gVisited g \<subseteq> gVisited g' \<and> gVisited g' - gVisited g \<subseteq> stagedName ` set specs \<and>
    length (gQueue g') \<le> length (gQueue g) + card (gVisited g' - gVisited g) \<and>
    pending fs (gQueue g') \<subseteq> pending fs (gQueue g)"
    unfolding g'_def
  proof (induction specs arbitrary: g)
    case (Cons spec specs)
    let ?h = "visitSpec fs dir spec g"
    let ?r = "fold (visitSpec fs dir) specs ?h"
    note IH = Cons.IH [of ?h]
    have fin: "finite (gVisited ?r - gVisited ?h)" using IH by (meson finite_imageI finite_set finite_subset)
    show ?case
    proof (cases rule: visitSpec_cases [of fs dir spec g])
      case same
      with IH show ?thesis by auto
    next
      case unread
      let ?n = "stagedName spec"
      have "gVisited ?r - gVisited g = insert ?n (gVisited ?r - gVisited ?h)" using IH unread by auto
      moreover have "?n \<notin> gVisited ?r - gVisited ?h" using unread by simp
      ultimately have "card (gVisited ?r - gVisited g) = Suc (card (gVisited ?r - gVisited ?h))"
        using fin by simp
      with IH unread show ?thesis by auto
    next
      case (staged b)
      let ?n = "stagedName spec"
      have "gVisited ?r - gVisited g = insert ?n (gVisited ?r - gVisited ?h)" using IH staged by auto
      moreover have "?n \<notin> gVisited ?r - gVisited ?h" using staged by simp
      ultimately have "card (gVisited ?r - gVisited g) = Suc (card (gVisited ?r - gVisited ?h))"
        using fin by simp
      moreover have "pending fs (gQueue ?h) = pending fs (gQueue g)"
        using staged firstReadable_data by (auto simp: pending_def readModuleFile_def)
      ultimately show ?thesis using IH staged by auto
    qed
  qed simp
  then show "gVisited g \<subseteq> gVisited g'" "gVisited g' - gVisited g \<subseteq> stagedName ` set specs"
    "length (gQueue g') \<le> length (gQueue g) + card (gVisited g' - gVisited g)"
    "pending fs (gQueue g') \<subseteq> pending fs (gQueue g)" by auto
  then show "finite (gVisited g' - gVisited g)" by (meson finite_imageI finite_set finite_subset)
qed

definition walkMeasure :: "filesystem \<Rightarrow> graphState \<Rightarrow> nat" where
  "walkMeasure fs g = card (sourceNames (pending fs (gQueue g)) - gVisited g) + length (gQueue g)"

lemma turnQueue_decreases:
  assumes "gQueue g = cur # rest"
  shows "walkMeasure fs (turnQueue fs g) < walkMeasure fs g"
proof -
  let ?g0 = "g\<lparr>gQueue := rest\<rparr>"
  let ?g' = "turnQueue fs g"
  let ?N = "sourceNames (pending fs (gQueue g))"
  let ?A = "gVisited ?g' - gVisited g"
  have t: "?g' = fold (visitSpec fs (wkDir cur)) (workSpecs cur) ?g0"
    using assms by (simp add: turnQueue_def)
  note facts = fold_visitSpec_measure [where g = ?g0 and fs = fs and dir = "wkDir cur" and specs = "workSpecs cur", folded t, simplified]
  have A: "?A \<subseteq> ?N - gVisited g"
    using facts(2) assms by (fastforce simp: workSpecs_def sourceNames_def pending_def)
  have fin: "finite ?N" by (intro finite_sourceNames finite_pending)
  have "pending fs (gQueue ?g') \<subseteq> pending fs (gQueue g)"
    using facts(5) assms by (auto simp: pending_def)
  then have "sourceNames (pending fs (gQueue ?g')) - gVisited ?g' \<subseteq> (?N - gVisited g) - ?A"
    using facts(1) unfolding sourceNames_def by blast
  then have "card (sourceNames (pending fs (gQueue ?g')) - gVisited ?g') \<le> card (?N - gVisited g) - card ?A"
    using fin A by (metis card_Diff_subset card_mono finite_Diff finite_subset)
  moreover have "card ?A \<le> card (?N - gVisited g)" using A fin by (intro card_mono) auto
  ultimately show ?thesis using facts(4) assms by (simp add: walkMeasure_def)
qed

function resolveLoop :: "filesystem \<Rightarrow> graphState \<Rightarrow> graphState" where
  "resolveLoop fs g = (if gQueue g = [] then g else resolveLoop fs (turnQueue fs g))"
  by pat_completeness auto
termination
proof (relation "measure (\<lambda>(fs, g). walkMeasure fs g)", goal_cases)
  case (2 fs g)
  then obtain cur rest where "gQueue g = cur # rest" by (cases "gQueue g") auto
  then show ?case by (simp add: turnQueue_decreases)
qed simp

declare resolveLoop.simps [simp del]

definition resolveModuleGraph :: "filesystem \<Rightarrow> string \<Rightarrow> string \<Rightarrow> stagedModule list" where
  "resolveModuleGraph fs entryPath entrySource =
     gOut (resolveLoop fs
       \<lparr>gVisited = {tsExtension (basePath entryPath)}, gOut = [],
        gQueue = [\<lparr>wkDir = dirPath entryPath, wkSources = [entrySource]\<rparr>]\<rparr>)"

end
