(* ===== verification/ModuleGraphFacts.thy ===== *)
theory ModuleGraphFacts
  imports ModuleGraph
begin

text \<open>
  The invariants and properties of the module walk of theory \<open>ModuleGraph\<close>, and the staging of a
  job's files (\<open>stageJob\<close>), which writes what the walk collected.
\<close>

section \<open>Specifiers\<close>

lemma findSpecifiers_ge: "(a, s) \<in> set (findSpecifiers kw code i) \<Longrightarrow> i \<le> a"
proof (induction kw code i rule: findSpecifiers.induct)
  case (1 kw code i)
  then show ?case
    by (subst (asm) (3) findSpecifiers.simps)
      (fastforce split: if_splits option.splits dest: specifierAt_bounds)
qed

lemma findSpecifiers_word:
  "(a, s) \<in> set (findSpecifiers kw code i) \<Longrightarrow> slice_of code a (a + length kw) = kw"
proof (induction kw code i rule: findSpecifiers.induct)
  case (1 kw code i)
  then show ?case
    by (subst (asm) (3) findSpecifiers.simps)
      (auto split: if_splits option.splits simp: specifierAt_def)
qed

section \<open>The walk keeps its bookkeeping\<close>

text \<open>
  Every staged module was visited under its name, each once, none is the entry or climbs out of
  the scratch directory, and its source is the content of some file.
\<close>

definition staged_ok :: "filesystem \<Rightarrow> string \<Rightarrow> graphState \<Rightarrow> bool" where
  "staged_ok fs entry g \<longleftrightarrow>
     distinct (map smName (gOut g)) \<and> smName ` set (gOut g) \<subseteq> gVisited g - {entry} \<and> entry \<in> gVisited g \<and>
     (\<forall>m \<in> set (gOut g). \<not> climbs (smName m) \<and> FileData (smSource m) \<in> snd ` set fs)"

text \<open>
  The sources the walk can come to, each with the directory its imports are resolved against: the test's
  own, and the content an import of such a source is resolved to.
\<close>

inductive inGraph :: "filesystem \<Rightarrow> string \<Rightarrow> string \<Rightarrow> string \<Rightarrow> string \<Rightarrow> bool" for fs path src where
  entry: "inGraph fs path src (dirPath path) src"
| sibling: "inGraph fs path src dir s \<Longrightarrow> spec \<in> set (relativeSpecifiers s) \<Longrightarrow>
    readModuleFile fs (specTarget dir spec) = Some b \<Longrightarrow>
    inGraph fs path src (dirPath (specTarget dir spec)) b"

text \<open>An import of such a source, as it is resolved.\<close>

definition imported :: "filesystem \<Rightarrow> string \<Rightarrow> string \<Rightarrow> string \<Rightarrow> string \<Rightarrow> bool" where
  "imported fs path src dir spec \<longleftrightarrow> (\<exists>s. inGraph fs path src dir s \<and> spec \<in> set (relativeSpecifiers s))"

text \<open>
  What waits in the queue is a source of the graph, what is staged is what an import of the graph is
  resolved to, and a visited name is the entry, a staged one, or that of an import whose file cannot
  be read.
\<close>

definition graph_ok :: "filesystem \<Rightarrow> string \<Rightarrow> string \<Rightarrow> graphState \<Rightarrow> bool" where
  "graph_ok fs path src g \<longleftrightarrow>
     (\<forall>w \<in> set (gQueue g). \<forall>s \<in> set (wkSources w). inGraph fs path src (wkDir w) s) \<and>
     (\<forall>m \<in> set (gOut g). \<exists>dir spec. imported fs path src dir spec \<and> smName m = stagedName spec \<and>
        readModuleFile fs (specTarget dir spec) = Some (smSource m)) \<and>
     (\<forall>n \<in> gVisited g. n = tsExtension (basePath path) \<or> n \<in> smName ` set (gOut g) \<or>
        (\<exists>dir spec. imported fs path src dir spec \<and> n = stagedName spec \<and> readModuleFile fs (specTarget dir spec) = None))"

text \<open>A source the walk knows waits in the queue or has had all its specifiers visited.\<close>

definition covered :: "graphState \<Rightarrow> string \<Rightarrow> bool" where
  "covered g src \<longleftrightarrow> (\<forall>spec \<in> set (relativeSpecifiers src). climbs (stagedName spec) \<or> stagedName spec \<in> gVisited g)"

definition closed_ok :: "string \<Rightarrow> graphState \<Rightarrow> bool" where
  "closed_ok src0 g \<longleftrightarrow>
     (\<forall>src \<in> insert src0 (smSource ` set (gOut g)). (\<exists>w \<in> set (gQueue g). src \<in> set (wkSources w)) \<or> covered g src)"

lemma visitSpec_staged_ok: "staged_ok fs entry g \<Longrightarrow> staged_ok fs entry (visitSpec fs dir spec g)"
proof (cases rule: visitSpec_cases [of fs dir spec g])
  case (staged b)
  assume ok: "staged_ok fs entry g"
  from staged(4) have "FileData b \<in> snd ` set fs"
    by (auto simp: readModuleFile_def dest: firstReadable_data)
  with ok staged show ?thesis by (auto simp: staged_ok_def)
qed (auto simp: staged_ok_def)

lemma visitSpec_graph_ok:
  assumes "imported fs path src dir spec" "graph_ok fs path src g"
  shows "graph_ok fs path src (visitSpec fs dir spec g)"
proof (cases rule: visitSpec_cases [of fs dir spec g])
  case same
  with assms(2) show ?thesis by simp
next
  case unread
  with assms show ?thesis unfolding graph_ok_def by auto
next
  case (staged b)
  from assms(1) staged(4) have "inGraph fs path src (dirPath (specTarget dir spec)) b"
    by (auto simp: imported_def intro: inGraph.sibling)
  with assms staged show ?thesis unfolding graph_ok_def by auto
qed

lemma covered_mono: "gVisited g \<subseteq> gVisited g' \<Longrightarrow> covered g src \<Longrightarrow> covered g' src"
  by (auto simp: covered_def)

lemma visitSpec_mono: "gVisited g \<subseteq> gVisited (visitSpec fs dir spec g)"
  by (cases rule: visitSpec_cases [of fs dir spec g]) auto

lemma visitSpec_visits:
  "climbs (stagedName spec) \<or> stagedName spec \<in> gVisited (visitSpec fs dir spec g)"
  by (cases rule: visitSpec_cases [of fs dir spec g]) auto

lemma visitSpec_queue: "set (gQueue g) \<subseteq> set (gQueue (visitSpec fs dir spec g))"
  by (cases rule: visitSpec_cases [of fs dir spec g]) auto

lemma visitSpec_new_source:
  "src \<in> smSource ` set (gOut (visitSpec fs dir spec g)) \<Longrightarrow>
   src \<in> smSource ` set (gOut g) \<or> (\<exists>w \<in> set (gQueue (visitSpec fs dir spec g)). src \<in> set (wkSources w))"
  by (cases rule: visitSpec_cases [of fs dir spec g]) auto

lemma fold_visitSpec_inv:
  "P g \<Longrightarrow> (\<And>spec g. spec \<in> set specs \<Longrightarrow> P g \<Longrightarrow> P (visitSpec fs dir spec g)) \<Longrightarrow>
   P (fold (visitSpec fs dir) specs g)"
  by (induction specs arbitrary: g) auto

lemma fold_visitSpec_visits:
  "spec \<in> set specs \<Longrightarrow> climbs (stagedName spec) \<or> stagedName spec \<in> gVisited (fold (visitSpec fs dir) specs g)"
proof (induction specs arbitrary: g)
  case (Cons s specs)
  show ?case
  proof (cases "spec = s")
    case True
    then show ?thesis
      using visitSpec_visits [of spec fs dir g] fold_visitSpec_measure(1) [of "visitSpec fs dir spec g" fs dir specs]
      by auto
  qed (use Cons in auto)
qed simp

lemma turnQueue_closed:
  assumes "closed_ok src0 g" "gQueue g = cur # rest"
  shows "closed_ok src0 (turnQueue fs g)"
proof -
  let ?specs = "workSpecs cur" and ?d = "wkDir cur"
  let ?known = "\<lambda>h src. (\<exists>w \<in> set (gQueue h). src \<in> set (wkSources w)) \<or> covered h src \<or> src \<in> set (wkSources cur)"
  let ?inv = "\<lambda>h. \<forall>src \<in> insert src0 (smSource ` set (gOut h)). ?known h src"
  let ?after = "turnQueue fs g"
  have t: "?after = fold (visitSpec fs ?d) ?specs (g\<lparr>gQueue := rest\<rparr>)"
    using assms(2) by (simp add: turnQueue_def)
  have "?inv ?after" unfolding t
  proof (rule fold_visitSpec_inv)
    show "?inv (g\<lparr>gQueue := rest\<rparr>)" using assms by (auto simp: closed_ok_def covered_def)
  next
    fix spec h assume inv: "?inv h"
    have keep: "?known (visitSpec fs ?d spec h) src" if "?known h src" for src
      using that visitSpec_queue covered_mono [OF visitSpec_mono] by blast
    show "?inv (visitSpec fs ?d spec h)"
    proof
      fix src assume "src \<in> insert src0 (smSource ` set (gOut (visitSpec fs ?d spec h)))"
      then show "?known (visitSpec fs ?d spec h) src"
        using visitSpec_new_source [of src fs ?d spec h] inv keep by blast
    qed
  qed
  moreover have "covered ?after src" if "src \<in> set (wkSources cur)" for src
    using fold_visitSpec_visits [of _ ?specs fs ?d "g\<lparr>gQueue := rest\<rparr>"] that
    unfolding t covered_def workSpecs_def by auto
  ultimately show ?thesis unfolding closed_ok_def by blast
qed

text \<open>A property every turn keeps holds at the end of the walk.\<close>

lemma resolveLoop_inv:
  "P g \<Longrightarrow> (\<And>g cur rest. P g \<Longrightarrow> gQueue g = cur # rest \<Longrightarrow> P (turnQueue fs g)) \<Longrightarrow> P (resolveLoop fs g)"
proof (induction fs g rule: resolveLoop.induct)
  case (1 fs g)
  show ?case
  proof (cases "gQueue g")
    case Nil
    with "1.prems" show ?thesis by (simp add: resolveLoop.simps [of fs g])
  next
    case (Cons cur rest)
    with "1.prems" have "P (turnQueue fs g)" by blast
    with "1.IH" "1.prems"(2) Cons have "P (resolveLoop fs (turnQueue fs g))" by simp
    with Cons show ?thesis by (simp add: resolveLoop.simps [of fs g])
  qed
qed

lemma resolveLoop_empty: "gQueue (resolveLoop fs g) = []"
proof (induction fs g rule: resolveLoop.induct)
  case (1 fs g)
  then show ?case by (subst resolveLoop.simps) simp
qed

lemma turnQueue_inv:
  assumes "P (g\<lparr>gQueue := rest\<rparr>)" "gQueue g = cur # rest"
    and "\<And>spec g. spec \<in> set (workSpecs cur) \<Longrightarrow> P g \<Longrightarrow> P (visitSpec fs (wkDir cur) spec g)"
  shows "P (turnQueue fs g)"
  using assms by (auto simp: turnQueue_def intro: fold_visitSpec_inv)

text \<open>Each turn takes one item off the queue and puts one on it for each module it stages.\<close>

lemma fold_visitSpec_lengths:
  fixes g :: graphState
  shows "length (gQueue (fold (visitSpec fs dir) specs g)) + length (gOut g) =
   length (gQueue g) + length (gOut (fold (visitSpec fs dir) specs g))"
  "length (gOut g) \<le> length (gOut (fold (visitSpec fs dir) specs g))"
proof -
  have "length (gQueue (fold (visitSpec fs dir) specs g)) + length (gOut g) =
      length (gQueue g) + length (gOut (fold (visitSpec fs dir) specs g)) \<and>
    length (gOut g) \<le> length (gOut (fold (visitSpec fs dir) specs g))"
  proof (induction specs arbitrary: g)
    case (Cons spec specs)
    have "length (gQueue (visitSpec fs dir spec g)) + length (gOut g) =
        length (gQueue g) + length (gOut (visitSpec fs dir spec g))"
      "length (gOut g) \<le> length (gOut (visitSpec fs dir spec g))"
      by (cases rule: visitSpec_cases [of fs dir spec g]; simp)+
    with Cons.IH [of "visitSpec fs dir spec g"] show ?case by simp
  qed simp
  then show "length (gQueue (fold (visitSpec fs dir) specs g)) + length (gOut g) =
      length (gQueue g) + length (gOut (fold (visitSpec fs dir) specs g))"
    "length (gOut g) \<le> length (gOut (fold (visitSpec fs dir) specs g))" by blast+
qed

lemma turnQueue_lengths:
  fixes g :: graphState
  assumes "gQueue g \<noteq> []"
  shows "Suc (length (gQueue (turnQueue fs g)) + length (gOut g)) = length (gQueue g) + length (gOut (turnQueue fs g))"
    "length (gOut g) \<le> length (gOut (turnQueue fs g))"
proof -
  obtain cur rest where q: "gQueue g = cur # rest" using assms by (cases "gQueue g") auto
  note l = fold_visitSpec_lengths [where fs = fs and dir = "wkDir cur" and specs = "workSpecs cur" and g = "g\<lparr>gQueue := rest\<rparr>"]
  show "Suc (length (gQueue (turnQueue fs g)) + length (gOut g)) = length (gQueue g) + length (gOut (turnQueue fs g))"
    using l(1) q by (simp add: turnQueue_def)
  show "length (gOut g) \<le> length (gOut (turnQueue fs g))" using l(2) q by (simp add: turnQueue_def)
qed

lemma resolveLoop_grows:
  fixes g :: graphState
  shows "length (gOut g) \<le> length (gOut (resolveLoop fs g))"
proof (rule resolveLoop_inv)
  fix h :: graphState and cur rest assume "length (gOut g) \<le> length (gOut h)" "gQueue h = cur # rest"
  with turnQueue_lengths(2) [where g = h and fs = fs] show "length (gOut g) \<le> length (gOut (turnQueue fs h))" by simp
qed simp

lemma turnQueue_done: "gQueue g = [] \<Longrightarrow> (turnQueue fs ^^ k) g = g"
  by (induction k) (simp_all add: turnQueue_def)

lemma walk_turns:
  "gQueue ((turnQueue fs ^^ k) g) = [] \<longleftrightarrow> length (gQueue g) + length (gOut (resolveLoop fs g)) \<le> k + length (gOut g)"
proof (induction fs g arbitrary: k rule: resolveLoop.induct)
  case (1 fs g)
  show ?case
  proof (cases "gQueue g = []")
    case True
    then show ?thesis by (simp add: turnQueue_done resolveLoop.simps [of fs g])
  next
    case False
    note l = turnQueue_lengths [OF False, where fs = fs]
    have r: "resolveLoop fs g = resolveLoop fs (turnQueue fs g)" using False by (simp add: resolveLoop.simps [of fs g])
    show ?thesis
    proof (cases k)
      case 0
      have "0 < length (gQueue g)" using False by simp
      with resolveLoop_grows [where g = g and fs = fs] have "\<not> length (gQueue g) + length (gOut (resolveLoop fs g)) \<le> length (gOut g)"
        by linarith
      with 0 False show ?thesis by simp
    next
      case (Suc m)
      have "(turnQueue fs ^^ k) g = (turnQueue fs ^^ m) (turnQueue fs g)" using Suc by (simp add: funpow_swap1)
      with "1.IH" [OF False, of m] l(1) Suc r show ?thesis by simp linarith
    qed
  qed
qed

abbreviation startWalk :: "string \<Rightarrow> string \<Rightarrow> graphState" where
  "startWalk entryPath src \<equiv>
     \<lparr>gVisited = {tsExtension (basePath entryPath)}, gOut = [],
      gQueue = [\<lparr>wkDir = dirPath entryPath, wkSources = [src]\<rparr>]\<rparr>"

lemma invariants_pop:
  "staged_ok fs e (g\<lparr>gQueue := q\<rparr>) = staged_ok fs e g"
  "graph_ok fs path src g \<Longrightarrow> set q \<subseteq> set (gQueue g) \<Longrightarrow> graph_ok fs path src (g\<lparr>gQueue := q\<rparr>)"
  unfolding graph_ok_def by (auto simp: staged_ok_def)

lemma walk_invariants:
  shows "staged_ok fs (tsExtension (basePath path)) (resolveLoop fs (startWalk path src))"
    and "graph_ok fs path src (resolveLoop fs (startWalk path src))"
    and "closed_ok src (resolveLoop fs (startWalk path src))"
proof -
  let ?e = "tsExtension (basePath path)"
  show "staged_ok fs ?e (resolveLoop fs (startWalk path src))"
  proof (rule resolveLoop_inv)
    show "staged_ok fs ?e (startWalk path src)" by (simp add: staged_ok_def)
  next
    fix g cur rest assume "staged_ok fs ?e g" "gQueue g = cur # rest"
    then show "staged_ok fs ?e (turnQueue fs g)"
      by (intro turnQueue_inv [where P = "staged_ok fs ?e"]) (simp_all add: invariants_pop visitSpec_staged_ok)
  qed
  show "graph_ok fs path src (resolveLoop fs (startWalk path src))"
  proof (rule resolveLoop_inv)
    show "graph_ok fs path src (startWalk path src)" by (simp add: graph_ok_def inGraph.entry)
  next
    fix g cur rest assume g: "graph_ok fs path src g" "gQueue g = cur # rest"
    show "graph_ok fs path src (turnQueue fs g)"
    proof (rule turnQueue_inv [where P = "graph_ok fs path src", OF _ g(2)])
      show "graph_ok fs path src (g\<lparr>gQueue := rest\<rparr>)" using g by (intro invariants_pop) auto
    next
      fix spec h assume "spec \<in> set (workSpecs cur)" "graph_ok fs path src h"
      with g show "graph_ok fs path src (visitSpec fs (wkDir cur) spec h)"
        by (intro visitSpec_graph_ok) (auto simp: graph_ok_def imported_def workSpecs_def)
    qed
  qed
  show "closed_ok src (resolveLoop fs (startWalk path src))"
  proof (rule resolveLoop_inv)
    show "closed_ok src (startWalk path src)" by (simp add: closed_ok_def)
  qed (rule turnQueue_closed)
qed

text \<open>C36. The modules staged for a test have distinct names, none of them the entry's own name and
  none that climbs out of the scratch directory, and each carries the bytes of a file of the
  corpus.\<close>

theorem staged_modules_sound:
  "distinct (map smName (resolveModuleGraph fs path src)) \<and>
   tsExtension (basePath path) \<notin> smName ` set (resolveModuleGraph fs path src) \<and>
   smName ` set (resolveModuleGraph fs path src) \<inter> {n. climbs n} = {} \<and>
   smSource ` set (resolveModuleGraph fs path src) \<subseteq> {b. FileData b \<in> snd ` set fs}"
  using walk_invariants(1) [of fs path src] by (auto simp: resolveModuleGraph_def staged_ok_def)

text \<open>C35. The walk is sound and closed: every staged module is what an import of the test, or of a module its
  imports lead to, is resolved to, under the name of that import; and every relative specifier of the
  test and of every staged module climbs out of the scratch directory, names the test itself, is
  staged, or is the name of such an import that finds no readable file.\<close>

theorem module_graph_closed:
  assumes "spec \<in> set (relativeSpecifiers s)" "s = src \<or> s \<in> smSource ` set (resolveModuleGraph fs path src)"
  shows "(climbs (stagedName spec) \<or> stagedName spec = tsExtension (basePath path) \<or>
         stagedName spec \<in> smName ` set (resolveModuleGraph fs path src) \<or>
         (\<exists>dir spec'. imported fs path src dir spec' \<and> stagedName spec = stagedName spec' \<and>
            readModuleFile fs (specTarget dir spec') = None)) \<and>
    set (resolveModuleGraph fs path src) \<subseteq> {m. \<exists>dir spec'. imported fs path src dir spec' \<and>
       smName m = stagedName spec' \<and> readModuleFile fs (specTarget dir spec') = Some (smSource m)}"
proof -
  let ?g = "resolveLoop fs (startWalk path src)"
  have "covered ?g s"
    using walk_invariants(3) [of src fs path] resolveLoop_empty assms(2)
    by (auto simp: closed_ok_def resolveModuleGraph_def)
  with assms(1) have "climbs (stagedName spec) \<or> stagedName spec \<in> gVisited ?g" by (auto simp: covered_def)
  with walk_invariants(2) [of fs path src] show ?thesis
    unfolding graph_ok_def resolveModuleGraph_def by blast
qed

definition exampleDisk :: filesystem where
  "exampleDisk =
     [(''t/m.js'', FileData ''import './s/a.js';''),
      (''t/s/a.js'', FileData ''import './b.js';''),
      (''t/s/b.js'', FileData ''export {};'')]"

theorem module_graph_closed_witness:
  "set (resolveModuleGraph exampleDisk ''t/m.js'' ''import './s/a.js';'') \<subseteq>
     {m. \<exists>dir spec'. imported exampleDisk ''t/m.js'' ''import './s/a.js';'' dir spec' \<and>
       smName m = stagedName spec' \<and> readModuleFile exampleDisk (specTarget dir spec') = Some (smSource m)}"
proof (rule module_graph_closed [THEN conjunct2])
  show "''./s/a.js'' \<in> set (relativeSpecifiers ''import './s/a.js';'')" by code_simp
qed simp

text \<open>C9. The walk ends, on imports that run in circles too: it takes one turn of the queue for the test and one for
  each module it stages, no fewer and no more, so each staged source is scanned for imports once.\<close>

theorem module_walk_turns:
  "gQueue ((turnQueue fs ^^ k) (startWalk path src)) = [] \<longleftrightarrow> length (resolveModuleGraph fs path src) < k"
  using walk_turns [where fs = fs and k = k and g = "startWalk path src"] by (simp add: resolveModuleGraph_def Suc_le_eq)

text \<open>A specifier of a nested module is named relative to the directory of the module that
  imports it but staged as if it were relative to the entry: the file \<open>s/b.js\<close> that \<open>s/a.js\<close>
  imports as \<open>./b.js\<close> lands at \<open>b.ts\<close>, not at \<open>s/b.ts\<close>.\<close>

theorem nested_module_misplaced:
  "resolveModuleGraph exampleDisk ''t/m.js'' ''import './s/a.js';'' =
     [\<lparr>smName = ''s/a.ts'', smSource = ''import './b.js';''\<rparr>, \<lparr>smName = ''b.ts'', smSource = ''export {};''\<rparr>]"
  by code_simp

end
