(* ===== verification/Compose.thy ===== *)
theory Compose
  imports GoPath Hoist Meta
begin

text \<open>
  \<open>pkg/tc39/compose.go\<close>: the source a job executes, put together from the mode prologue, the ports
  of the harness includes, the hoist of theory \<open>Hoist\<close> and the test body. The harness directory is
  read through a file system, so a missing port is a branch of the model.
\<close>

text \<open>\<open>discover.go\<close>'s \<open>Case\<close>: one test file with its frontmatter and source.\<close>

record testcase =
  cRel :: string
  cAbs :: string
  cMeta :: meta
  cSource :: string

definition portPath :: "string \<Rightarrow> string \<Rightarrow> string" where
  "portPath portsDir name = joinPath [portsDir, TrimSuffix name ''.js'' @ ''.ts'']"

text \<open>The include loop: each name once, its port followed by a newline; the first failure ends it.\<close>

fun loadPorts :: "filesystem \<Rightarrow> string \<Rightarrow> string set \<Rightarrow> string list \<Rightarrow> goerror + string" where
  "loadPorts fs portsDir seen [] = Inr []"
| "loadPorts fs portsDir seen (name # names) =
     (if name \<in> seen then loadPorts fs portsDir seen names
      else case readFile fs (portPath portsDir name) of
          FileMissing \<Rightarrow> Inl (UnportedInclude name)
        | FileError e \<Rightarrow> Inl (OsError e)
        | FileData inc \<Rightarrow>
            (case loadPorts fs portsDir (insert name seen) names of
               Inl e \<Rightarrow> Inl e
             | Inr rest \<Rightarrow> Inr (inc @ [NL] @ rest)))"

definition composeNames :: "testcase \<Rightarrow> string list" where
  "composeNames c =
     [''sta.js'', ''assert.js''] @ mIncludes (cMeta c) @
     (if HasFlag (cMeta c) ''async'' then [''doneprintHandle.js''] else [])"

definition strictPrologue :: string where
  "strictPrologue = [DQUOTE] @ ''use strict'' @ [DQUOTE] @ '';'' @ [NL]"

definition moduleMarker :: string where
  "moduleMarker = [NL] @ ''export {};'' @ [NL]"

definition Compose :: "filesystem \<Rightarrow> string \<Rightarrow> testcase \<Rightarrow> string \<Rightarrow> goerror + string" where
  "Compose fs portsDir c mode =
     (if HasFlag (cMeta c) ''CanBlockIsFalse'' then Inl (HostContextFlag ''CanBlockIsFalse'')
      else if mode = ''raw'' then Inr (cSource c)
      else case loadPorts fs portsDir {} (composeNames c) of
          Inl e \<Rightarrow> Inl e
        | Inr ports \<Rightarrow>
            Inr ((if mode = ''strict'' then strictPrologue else []) @ ports @
                 (if mode = ''sloppy'' \<and> mNegative (cMeta c) = None
                  then hoistSloppyForBindings (cSource c) else []) @
                 cSource c @
                 (if mode = ''module'' then moduleMarker else [])))"

section \<open>Includes\<close>

text \<open>The bytes of a port; the empty string when it cannot be read.\<close>

definition portText :: "filesystem \<Rightarrow> string \<Rightarrow> string \<Rightarrow> string" where
  "portText fs portsDir name =
     (case readFile fs (portPath portsDir name) of FileData b \<Rightarrow> b | _ \<Rightarrow> [])"

definition portReadable :: "filesystem \<Rightarrow> string \<Rightarrow> string \<Rightarrow> bool" where
  "portReadable fs portsDir name \<longleftrightarrow> (\<exists>b. readFile fs (portPath portsDir name) = FileData b)"

text \<open>The text the include loop writes when every port can be read.\<close>

definition portsText :: "filesystem \<Rightarrow> string \<Rightarrow> string list \<Rightarrow> string" where
  "portsText fs portsDir names = concat (map (\<lambda>n. portText fs portsDir n @ [NL]) names)"

lemma loadPorts_ok:
  "\<forall>n \<in> set names - seen. portReadable fs d n \<Longrightarrow>
   loadPorts fs d seen names = Inr (portsText fs d (firstOccs seen names))"
proof (induction fs d seen names rule: loadPorts.induct)
  case (2 fs d seen name names)
  show ?case
  proof (cases "name \<in> seen")
    case True
    with 2 show ?thesis by simp
  next
    case False
    with "2.prems" obtain b where "readFile fs (portPath d name) = FileData b"
      by (auto simp: portReadable_def)
    with False 2 show ?thesis by (simp add: portsText_def portText_def)
  qed
qed (simp add: portsText_def)

text \<open>The failure is that of the first include, in order of first occurrence, that cannot be read.\<close>

definition portFailure :: "filesystem \<Rightarrow> string \<Rightarrow> string \<Rightarrow> goerror" where
  "portFailure fs d n =
     (case readFile fs (portPath d n) of FileError e \<Rightarrow> OsError e | _ \<Rightarrow> UnportedInclude n)"

lemma loadPorts_fails:
  "find (\<lambda>n. \<not> portReadable fs d n) (firstOccs seen names) = Some n \<Longrightarrow>
   loadPorts fs d seen names = Inl (portFailure fs d n)"
  by (induction fs d seen names rule: loadPorts.induct)
    (auto simp: portReadable_def portFailure_def split: if_splits file_read.splits)

lemma loadPorts_cases:
  "loadPorts fs d {} names =
     (case find (\<lambda>n. \<not> portReadable fs d n) (firstOccs {} names) of
        None \<Rightarrow> Inr (portsText fs d (firstOccs {} names))
      | Some n \<Rightarrow> Inl (portFailure fs d n))"
  using loadPorts_ok [of names "{}" fs d] loadPorts_fails [of fs d "{}" names]
  by (auto simp: find_None_iff split: option.splits)

section \<open>Properties\<close>

text \<open>The ports a test asks for, in order: the mandatory ones, its own includes at their first occurrence, and
  the completion handler of an async test that does not include it itself.\<close>

definition wantedPorts :: "testcase \<Rightarrow> string list" where
  "wantedPorts c =
     ''sta.js'' # ''assert.js'' # firstOccs {''sta.js'', ''assert.js''} (mIncludes (cMeta c)) @
     (if ''async'' \<in> set (mFlags (cMeta c)) \<and> ''doneprintHandle.js'' \<notin> set (mIncludes (cMeta c))
      then [''doneprintHandle.js''] else [])"

lemma composed_ports: "firstOccs {} (composeNames c) = wantedPorts c"
  by (simp add: composeNames_def wantedPorts_def HasFlag_iff firstOccs_append insert_commute)

lemma Compose_ports:
  assumes "''CanBlockIsFalse'' \<notin> set (mFlags (cMeta c))" "mode \<noteq> ''raw''"
  shows "Compose fs d c mode = Inl e \<longleftrightarrow>
      (\<exists>n. find (\<lambda>n. \<not> portReadable fs d n) (wantedPorts c) = Some n \<and> e = portFailure fs d n)"
    and "Compose fs d c mode = Inr out \<longleftrightarrow> list_all (portReadable fs d) (wantedPorts c) \<and>
      out = (if mode = ''strict'' then strictPrologue else []) @ portsText fs d (wantedPorts c) @
        (if mode = ''sloppy'' \<and> mNegative (cMeta c) = None then hoistSloppyForBindings (cSource c) else []) @
        cSource c @ (if mode = ''module'' then moduleMarker else [])"
proof -
  let ?bad = "find (\<lambda>n. \<not> portReadable fs d n) (wantedPorts c)"
  have all: "list_all (portReadable fs d) (wantedPorts c) \<longleftrightarrow> ?bad = None"
    by (auto simp: list_all_iff find_None_iff)
  show "Compose fs d c mode = Inl e \<longleftrightarrow> (\<exists>n. ?bad = Some n \<and> e = portFailure fs d n)"
    using assms by (cases ?bad) (auto simp: Compose_def HasFlag_iff loadPorts_cases composed_ports)
  show "Compose fs d c mode = Inr out \<longleftrightarrow> list_all (portReadable fs d) (wantedPorts c) \<and>
      out = (if mode = ''strict'' then strictPrologue else []) @ portsText fs d (wantedPorts c) @
        (if mode = ''sloppy'' \<and> mNegative (cMeta c) = None then hoistSloppyForBindings (cSource c) else []) @
        cSource c @ (if mode = ''module'' then moduleMarker else [])"
    unfolding all using assms
    by (cases ?bad) (simp_all add: Compose_def HasFlag_iff loadPorts_cases composed_ports eq_commute [of _ out])
qed

text \<open>C14. What composition gives, and when. A host-context test is declined. A raw test is its own bytes. Any
  other test is declined for the first of its ports, in order, that is missing or cannot be read, with
  the matching reason; and composes when all can be, to: the directive of a strict test, each port
  once in that order with a newline after it, for a non-negative sloppy test one \<open>var\<close> of the names to
  hoist if there are any, the body, and for a module the empty export that makes it one.\<close>

theorem compose_result:
  "(Compose fs d c mode = Inl e \<longleftrightarrow>
     (if ''CanBlockIsFalse'' \<in> set (mFlags (cMeta c)) then e = HostContextFlag ''CanBlockIsFalse''
      else mode \<noteq> ''raw'' \<and>
        (\<exists>pre n post. wantedPorts c = pre @ n # post \<and> list_all (portReadable fs d) pre \<and>
           (case readFile fs (portPath d n) of
              FileMissing \<Rightarrow> e = UnportedInclude n | FileError m \<Rightarrow> e = OsError m | FileData b \<Rightarrow> False)))) \<and>
   (Compose fs d c mode = Inr out \<longleftrightarrow> ''CanBlockIsFalse'' \<notin> set (mFlags (cMeta c)) \<and>
     (if mode = ''raw'' then out = cSource c
      else list_all (portReadable fs d) (wantedPorts c) \<and>
        out = (if mode = ''strict'' then [DQUOTE] @ ''use strict'' @ [DQUOTE] @ '';'' @ [NL] else []) @
          concat (map (\<lambda>n. portText fs d n @ [NL]) (wantedPorts c)) @
          (if mode = ''sloppy'' \<and> mNegative (cMeta c) = None \<and> hoistNames (cSource c) \<noteq> []
           then ''var '' @ Join (hoistNames (cSource c)) '', '' @ '';'' @ [NL] else []) @
          cSource c @ (if mode = ''module'' then [NL] @ ''export {};'' @ [NL] else [])))"
proof (cases "''CanBlockIsFalse'' \<in> set (mFlags (cMeta c)) \<or> mode = ''raw''")
  case True
  then show ?thesis by (auto simp: Compose_def HasFlag_iff)
next
  case False
  then have c: "''CanBlockIsFalse'' \<notin> set (mFlags (cMeta c))" "mode \<noteq> ''raw''" by simp_all
  have f: "\<not> portReadable fs d n \<and> e = portFailure fs d n \<longleftrightarrow>
      (case readFile fs (portPath d n) of
         FileMissing \<Rightarrow> e = UnportedInclude n | FileError m \<Rightarrow> e = OsError m | FileData b \<Rightarrow> False)" for n
    by (auto simp: portReadable_def portFailure_def split: file_read.split)
  have "(\<exists>n. find (\<lambda>n. \<not> portReadable fs d n) (wantedPorts c) = Some n \<and> e = portFailure fs d n) \<longleftrightarrow>
      (\<exists>pre n post. wantedPorts c = pre @ n # post \<and> list_all (portReadable fs d) pre \<and>
         (case readFile fs (portPath d n) of
            FileMissing \<Rightarrow> e = UnportedInclude n | FileError m \<Rightarrow> e = OsError m | FileData b \<Rightarrow> False))"
    unfolding f [symmetric] find_first not_not by blast
  with Compose_ports [OF c] c show ?thesis
    by (simp add: strictPrologue_def moduleMarker_def portsText_def hoistSloppyForBindings_def Let_def)
qed

text \<open>A strict job, a module job and a job of a negative test never get a hoisted binding: what
  they compose to is the same whatever the hoist of the body would be.\<close>

theorem compose_unhoisted:
  assumes "mode \<noteq> ''sloppy'' \<or> mNegative (cMeta c) \<noteq> None" "mode \<noteq> ''raw''"
    and "Compose fs d c mode = Inr out"
  shows "out = (if mode = ''strict'' then strictPrologue else []) @
               portsText fs d (firstOccs {} (composeNames c)) @
               cSource c @ (if mode = ''module'' then moduleMarker else [])"
  using assms by (auto simp: Compose_def loadPorts_cases split: if_splits sum.splits option.splits)

definition exampleHarness :: filesystem where
  "exampleHarness = [(''h/sta.ts'', FileData ''S''), (''h/assert.ts'', FileData ''A'')]"

definition exampleCase :: testcase where
  "exampleCase = \<lparr>cRel = ''t.js'', cAbs = ''/t.js'', cMeta = zeroMeta, cSource = ''for (x of [1]) {}''\<rparr>"

theorem compose_unhoisted_witness:
  "strictPrologue @ ''S'' @ [NL] @ ''A'' @ [NL] @ ''for (x of [1]) {}'' =
   (if ''strict'' = ''strict'' then strictPrologue else []) @
     portsText exampleHarness ''h'' (firstOccs {} (composeNames exampleCase)) @
     cSource exampleCase @ (if ''strict'' = ''module'' then moduleMarker else [])"
proof (rule compose_unhoisted)
  show "Compose exampleHarness ''h'' exampleCase ''strict'' =
    Inr (strictPrologue @ ''S'' @ [NL] @ ''A'' @ [NL] @ ''for (x of [1]) {}'')" by code_simp
qed simp_all

theorem compose_result_witness:
  "Compose exampleHarness ''h'' exampleCase ''sloppy'' =
     Inr (''S'' @ [NL] @ ''A'' @ [NL] @ ''var x;'' @ [NL] @ ''for (x of [1]) {}'') \<and>
   Compose [] ''h'' exampleCase ''sloppy'' = Inl (UnportedInclude ''sta.js'')"
proof
  have h: "hoistNames ''for (x of [1]) {}'' = [''x'']" by code_simp
  have r: "portReadable exampleHarness ''h'' ''sta.js'' \<and> portReadable exampleHarness ''h'' ''assert.js'' \<and>
      portText exampleHarness ''h'' ''sta.js'' = ''S'' \<and> portText exampleHarness ''h'' ''assert.js'' = ''A''"
  proof -
    have "readFile exampleHarness (portPath ''h'' ''sta.js'') = FileData ''S''"
      "readFile exampleHarness (portPath ''h'' ''assert.js'') = FileData ''A''" by code_simp+
    then show ?thesis by (simp add: portReadable_def portText_def)
  qed
  show "Compose exampleHarness ''h'' exampleCase ''sloppy'' =
     Inr (''S'' @ [NL] @ ''A'' @ [NL] @ ''var x;'' @ [NL] @ ''for (x of [1]) {}'')"
    by (rule compose_result [THEN conjunct2, THEN iffD2])
      (use h r in \<open>simp add: exampleCase_def zeroMeta_def wantedPorts_def\<close>)
  have "readFile [] (portPath ''h'' ''sta.js'') = FileMissing" by (simp add: readFile_def)
  then have "wantedPorts exampleCase = [] @ ''sta.js'' # [''assert.js''] \<and> list_all (portReadable [] ''h'') [] \<and>
      (case readFile [] (portPath ''h'' ''sta.js'') of FileMissing \<Rightarrow> UnportedInclude ''sta.js'' = UnportedInclude ''sta.js''
       | FileError m \<Rightarrow> UnportedInclude ''sta.js'' = OsError m | FileData b \<Rightarrow> False)"
    by (simp add: exampleCase_def zeroMeta_def wantedPorts_def)
  then have "\<exists>pre n post. wantedPorts exampleCase = pre @ n # post \<and> list_all (portReadable [] ''h'') pre \<and>
      (case readFile [] (portPath ''h'' n) of FileMissing \<Rightarrow> UnportedInclude ''sta.js'' = UnportedInclude n
       | FileError m \<Rightarrow> UnportedInclude ''sta.js'' = OsError m | FileData b \<Rightarrow> False)" by blast
  then show "Compose [] ''h'' exampleCase ''sloppy'' = Inl (UnportedInclude ''sta.js'')"
    by (intro compose_result [THEN conjunct1, THEN iffD2]) (simp add: exampleCase_def zeroMeta_def)
qed

end
