(* ===== verification/Includes.thy ===== *)
theory Includes
  imports Compose GoSort
begin

text \<open>
  \<open>pkg/tc39/includes.go\<close>: the audit of harness includes over a case list. The tally map is kept as
  the list of its entries in the order a \<open>range\<close> over it visits them; the report must not depend
  on that order. The lemmas tie the audit to \<open>Compose\<close>: an include is ported exactly when
  composing can load it.
\<close>

text \<open>\<open>discover.go\<close>'s \<open>modesOf\<close>, which the audit shares with the job expansion; its error is always nil.\<close>

definition modesOf :: "meta \<Rightarrow> string list" where
  "modesOf m =
     (if HasFlag m ''raw'' then [''raw'']
      else if HasFlag m ''module'' then [''module'']
      else if HasFlag m ''onlyStrict'' then [''strict'']
      else if HasFlag m ''noStrict'' then [''sloppy'']
      else [''sloppy'', ''strict''])"

record includeStat =
  isName :: string
  isPorted :: bool
  isJobs :: nat
  isFiles :: nat

record includeReport =
  repUnported :: "includeStat list"
  repPorted :: "includeStat list"

definition includeNames :: "testcase \<Rightarrow> string list" where
  "includeNames c =
     firstOccs {}
       ([''sta.js'', ''assert.js''] @ mIncludes (cMeta c) @
        (if HasFlag (cMeta c) ''async'' then [''doneprintHandle.js''] else []))"

text \<open>\<open>os.Stat\<close> succeeds on every entry of the file system, readable or not.\<close>

definition hasPort :: "filesystem \<Rightarrow> string \<Rightarrow> string \<Rightarrow> bool" where
  "hasPort fs portsDir name = (readFile fs (portPath portsDir name) \<noteq> FileMissing)"

text \<open>The tally map: for each name the number of jobs (modes) and of files that load it.\<close>

type_synonym tallies = "string \<rightharpoonup> nat \<times> nat"

definition tallyName :: "nat \<Rightarrow> string \<Rightarrow> tallies \<Rightarrow> tallies" where
  "tallyName modes name counts =
     (let t = (case counts name of None \<Rightarrow> (0, 0) | Some t \<Rightarrow> t)
      in counts(name \<mapsto> (fst t + modes, snd t + 1)))"

definition tallyCase :: "testcase \<Rightarrow> tallies \<Rightarrow> tallies" where
  "tallyCase c counts =
     (let modes = modesOf (cMeta c)
      in if modes = [] then counts else fold (tallyName (length modes)) (includeNames c) counts)"

definition includeCounts :: "testcase list \<Rightarrow> tallies" where
  "includeCounts cases = fold tallyCase cases Map.empty"

definition reachLess :: "includeStat \<Rightarrow> includeStat \<Rightarrow> bool" where
  "reachLess s t =
     (if isJobs s \<noteq> isJobs t then isJobs s > isJobs t else isName s < isName t)"

definition sortByReach :: "includeStat list \<Rightarrow> includeStat list" where
  "sortByReach stats = sortSlice reachLess stats"

definition includeStatOf :: "filesystem \<Rightarrow> string \<Rightarrow> tallies \<Rightarrow> string \<Rightarrow> includeStat" where
  "includeStatOf fs portsDir counts name =
     (let t = (case counts name of None \<Rightarrow> (0, 0) | Some t \<Rightarrow> t)
      in \<lparr>isName = name, isPorted = hasPort fs portsDir name, isJobs = fst t, isFiles = snd t\<rparr>)"

text \<open>\<open>keys\<close> is the order in which the \<open>range\<close> over the tally map visits its keys.\<close>

definition enumerates :: "string list \<Rightarrow> tallies \<Rightarrow> bool" where
  "enumerates keys counts \<longleftrightarrow> distinct keys \<and> set keys = dom counts"

definition AuditIncludes :: "string list \<Rightarrow> filesystem \<Rightarrow> string \<Rightarrow> testcase list \<Rightarrow> includeReport" where
  "AuditIncludes keys fs portsDir cases =
     (let stats = map (includeStatOf fs portsDir (includeCounts cases)) keys
      in \<lparr>repUnported = sortByReach (filter (\<lambda>s. \<not> isPorted s) stats),
          repPorted = sortByReach (filter isPorted stats)\<rparr>)"

section \<open>Counts\<close>

lemma modesOf_nonempty [simp]: "modesOf m \<noteq> []"
  by (simp add: modesOf_def)

text \<open>The tally as sums over the cases that load the name, each weighted by its modes.\<close>

definition loaders :: "testcase list \<Rightarrow> string \<Rightarrow> testcase list" where
  "loaders cases name = filter (\<lambda>c. name \<in> set (includeNames c)) cases"

definition reachOf :: "testcase list \<Rightarrow> string \<Rightarrow> nat" where
  "reachOf cases name = (\<Sum>c \<leftarrow> loaders cases name. length (modesOf (cMeta c)))"

definition tally :: "tallies \<Rightarrow> string \<Rightarrow> nat \<times> nat" where
  "tally counts name = (case counts name of None \<Rightarrow> (0, 0) | Some t \<Rightarrow> t)"

lemma tally_names:
  "distinct names \<Longrightarrow>
   tally (fold (tallyName k) names counts) n =
     (if n \<in> set names then (fst (tally counts n) + k, snd (tally counts n) + 1) else tally counts n)"
  "dom (fold (tallyName k) names counts) = dom counts \<union> set names"
  by (induction names arbitrary: counts) (auto simp: tally_def tallyName_def Let_def split: option.splits)

lemma tally_cases:
  "tally (fold tallyCase cases counts) n =
     (fst (tally counts n) + reachOf cases n, snd (tally counts n) + length (loaders cases n))"
proof (induction cases arbitrary: counts)
  case (Cons c cases)
  have "distinct (includeNames c)" by (simp add: includeNames_def)
  with Cons show ?case
    by (simp add: tallyCase_def Let_def tally_names(1) reachOf_def loaders_def)
qed (simp add: reachOf_def loaders_def)

lemma includeCounts_tally: "tally (includeCounts cases) n = (reachOf cases n, length (loaders cases n))"
  by (simp add: includeCounts_def tally_cases) (simp add: tally_def)

lemma dom_includeCounts: "dom (includeCounts cases) = {n. loaders cases n \<noteq> []}"
proof -
  have "dom (fold tallyCase cases counts) = dom counts \<union> {n. loaders cases n \<noteq> []}" for counts
    by (induction cases arbitrary: counts) (auto simp: tallyCase_def Let_def tally_names(2) loaders_def)
  then show ?thesis by (simp add: includeCounts_def)
qed

lemma includeStatOf_reach:
  "includeStatOf fs d (includeCounts cases) n =
     \<lparr>isName = n, isPorted = hasPort fs d n, isJobs = reachOf cases n, isFiles = length (loaders cases n)\<rparr>"
  using includeCounts_tally [of cases n] by (simp add: includeStatOf_def tally_def)

lemma ordering_reach: "ordering_less reachLess"
  by (auto simp: ordering_less_def reachLess_def split: if_splits)

lemma separates_reach: "distinct (map isName stats) \<Longrightarrow> separates reachLess stats"
  unfolding separates_def reachLess_def distinct_map inj_on_def by (metis linorder_neqE)

definition exampleCases :: "testcase list" where
  "exampleCases =
     [exampleCase, exampleCase\<lparr>cMeta := zeroMeta\<lparr>mIncludes := [''b.js''], mFlags := [''noStrict'']\<rparr>\<rparr>]"

section \<open>Properties\<close>

text \<open>The audit counts each include that some case loads once, with the number of files that load
  it and of jobs they expand to, ported and unported apart, most jobs first; and the report does not
  depend on the order in which Go's map iteration lists the tallies.\<close>

theorem audit_deterministic:
  assumes "enumerates keys (includeCounts cases)" "enumerates keys' (includeCounts cases)"
  shows "AuditIncludes keys fs d cases = AuditIncludes keys' fs d cases \<and>
    set (repUnported (AuditIncludes keys fs d cases)) =
      {\<lparr>isName = n, isPorted = False, isJobs = reachOf cases n, isFiles = length (loaders cases n)\<rparr> | n.
         loaders cases n \<noteq> [] \<and> \<not> hasPort fs d n} \<and>
    sorted_wrt (\<lambda>s t. \<not> reachLess t s) (repUnported (AuditIncludes keys fs d cases))"
proof (intro conjI)
  let ?st = "includeStatOf fs d (includeCounts cases)"
  have "mset keys = mset keys'"
    using assms by (metis enumerates_def set_eq_iff_mset_eq_distinct)
  then have "mset (map ?st keys) = mset (map ?st keys')" by simp
  then have "mset (filter P (map ?st keys)) = mset (filter P (map ?st keys'))" for P
    by (metis mset_filter)
  moreover have "separates reachLess (filter P (map ?st keys))" for P
    using assms(1) by (intro separates_reach)
      (simp add: enumerates_def filter_map o_def includeStatOf_reach)
  ultimately have "sortByReach (filter P (map ?st keys)) = sortByReach (filter P (map ?st keys'))" for P
    unfolding sortByReach_def by (intro slice.srt_order_free ordering_reach)
  then show "AuditIncludes keys fs d cases = AuditIncludes keys' fs d cases"
    by (simp add: AuditIncludes_def Let_def)
next
  show "set (repUnported (AuditIncludes keys fs d cases)) =
      {\<lparr>isName = n, isPorted = False, isJobs = reachOf cases n, isFiles = length (loaders cases n)\<rparr> | n.
         loaders cases n \<noteq> [] \<and> \<not> hasPort fs d n}"
    using assms(1)
    by (auto simp: AuditIncludes_def Let_def sortByReach_def enumerates_def includeStatOf_reach dom_includeCounts)
next
  show "sorted_wrt (\<lambda>s t. \<not> reachLess t s) (repUnported (AuditIncludes keys fs d cases))"
    by (simp add: AuditIncludes_def Let_def sortByReach_def sorted_sortSlice ordering_reach)
qed

theorem audit_deterministic_witness:
  "repUnported (AuditIncludes [''b.js'', ''assert.js'', ''sta.js''] exampleHarness ''h'' exampleCases) =
   repUnported (AuditIncludes [''sta.js'', ''b.js'', ''assert.js''] exampleHarness ''h'' exampleCases)"
proof -
  have keys: "enumerates ks (includeCounts exampleCases)"
    if "distinct ks" "set ks = {''sta.js'', ''assert.js'', ''b.js''}" for ks
    using that by (auto simp: enumerates_def dom_includeCounts loaders_def includeNames_def exampleCases_def
        exampleCase_def zeroMeta_def HasFlag_def)
  have "enumerates [''b.js'', ''assert.js'', ''sta.js''] (includeCounts exampleCases)"
    and "enumerates [''sta.js'', ''b.js'', ''assert.js''] (includeCounts exampleCases)"
    by (rule keys; auto)+
  from audit_deterministic [OF this] show ?thesis by metis
qed

text \<open>The two lists of the report hold the includes some case loads, split by whether a port is there.\<close>

lemma audit_lists:
  assumes "enumerates keys (includeCounts cases)"
  shows "isName ` set (repPorted (AuditIncludes keys fs d cases)) = {n. loaders cases n \<noteq> [] \<and> hasPort fs d n}"
    and "isName ` set (repUnported (AuditIncludes keys fs d cases)) = {n. loaders cases n \<noteq> [] \<and> \<not> hasPort fs d n}"
proof -
  have keys: "set keys = {n. loaders cases n \<noteq> []}" using assms by (simp add: enumerates_def dom_includeCounts)
  have "isName ` set (filter P (map (includeStatOf fs d (includeCounts cases)) keys)) =
      {n \<in> set keys. P (includeStatOf fs d (includeCounts cases) n)}" for P
    by (force simp: includeStatOf_reach)
  then have "isName ` set (repPorted (AuditIncludes keys fs d cases)) = {n \<in> set keys. hasPort fs d n}"
    and "isName ` set (repUnported (AuditIncludes keys fs d cases)) = {n \<in> set keys. \<not> hasPort fs d n}"
    by (simp_all add: AuditIncludes_def Let_def sortByReach_def includeStatOf_reach)
  then show "isName ` set (repPorted (AuditIncludes keys fs d cases)) = {n. loaders cases n \<noteq> [] \<and> hasPort fs d n}"
    and "isName ` set (repUnported (AuditIncludes keys fs d cases)) = {n. loaders cases n \<noteq> [] \<and> \<not> hasPort fs d n}"
    by (simp_all add: keys)
qed

lemma includeNames_wanted: "includeNames c = wantedPorts c"
  using composed_ports [of c] by (simp add: includeNames_def composeNames_def)

text \<open>C40. The audit is authoritative over what composing does: of an audited case, in a mode that loads ports and
  without the declined host flag, every include is in one of the report's two lists and in one only;
  the case composes exactly when all its includes are in the ported list; and when it does not, it is
  declined for one of its includes that is in the unported list. (Every port that is there can be
  read.)\<close>

theorem audit_authoritative:
  assumes "enumerates keys (includeCounts cases)" "c \<in> set cases"
    and "''CanBlockIsFalse'' \<notin> set (mFlags (cMeta c))" "mode \<noteq> ''raw''"
    and "\<forall>n e. readFile fs (portPath d n) \<noteq> FileError e"
    and "ported = isName ` set (repPorted (AuditIncludes keys fs d cases))"
    and "unported = isName ` set (repUnported (AuditIncludes keys fs d cases))"
  shows "ported \<inter> unported = {} \<and> set (wantedPorts c) \<subseteq> ported \<union> unported \<and>
    (case Compose fs d c mode of
       Inr out \<Rightarrow> set (wantedPorts c) \<subseteq> ported
     | Inl e \<Rightarrow> \<exists>n \<in> set (wantedPorts c) \<inter> unported. e = UnportedInclude n)"
proof -
  note lists = audit_lists [OF assms(1), of fs d, folded assms(6,7)]
  have loaded: "loaders cases n \<noteq> []" if "n \<in> set (wantedPorts c)" for n
    using that assms(2) by (auto simp: loaders_def includeNames_wanted filter_empty_conv)
  have readable: "portReadable fs d n = hasPort fs d n" for n
    using assms(5) by (cases "readFile fs (portPath d n)") (auto simp: portReadable_def hasPort_def)
  have "case Compose fs d c mode of
       Inr out \<Rightarrow> set (wantedPorts c) \<subseteq> ported
     | Inl e \<Rightarrow> \<exists>n \<in> set (wantedPorts c) \<inter> unported. e = UnportedInclude n"
  proof (cases "Compose fs d c mode")
    case (Inl e)
    then obtain pre n post where n: "wantedPorts c = pre @ n # post" "\<not> portReadable fs d n" "e = portFailure fs d n"
      unfolding Compose_ports(1) [OF assms(3,4)] find_first by blast
    then have "n \<in> set (wantedPorts c)" "e = UnportedInclude n"
      using assms(5) by (auto simp: portFailure_def split: file_read.split)
    with n(2) loaded Inl show ?thesis by (auto simp: lists readable)
  next
    case (Inr out)
    then have "list_all (portReadable fs d) (wantedPorts c)" unfolding Compose_ports(2) [OF assms(3,4)] by blast
    with loaded Inr show ?thesis by (auto simp: lists readable list_all_iff)
  qed
  moreover have "ported \<inter> unported = {}" "set (wantedPorts c) \<subseteq> ported \<union> unported" using loaded lists by auto
  ultimately show ?thesis by blast
qed

lemma exampleCases_counts: "enumerates [''sta.js'', ''assert.js'', ''b.js''] (includeCounts exampleCases)"
  by (auto simp: enumerates_def dom_includeCounts loaders_def includeNames_def exampleCases_def
      exampleCase_def zeroMeta_def HasFlag_def)

theorem audit_authoritative_witness:
  "\<exists>n \<in> isName ` set (repUnported (AuditIncludes [''sta.js'', ''assert.js'', ''b.js''] exampleHarness ''h'' exampleCases)).
     Compose exampleHarness ''h'' (exampleCases ! 1) ''sloppy'' = Inl (UnportedInclude n)"
proof -
  have flags: "''CanBlockIsFalse'' \<notin> set (mFlags (cMeta (exampleCases ! 1)))"
    by (simp add: exampleCases_def zeroMeta_def)
  have disk: "\<forall>n e. readFile exampleHarness (portPath ''h'' n) \<noteq> FileError e"
    by (auto simp: readFile_def exampleHarness_def)
  have "exampleCases ! 1 \<in> set exampleCases" by (simp add: exampleCases_def)
  note aud = audit_authoritative [OF exampleCases_counts this flags _ disk refl refl, of "''sloppy''"]
  have "Compose exampleHarness ''h'' (exampleCases ! 1) ''sloppy'' = Inl (UnportedInclude ''b.js'')" by code_simp
  with aud show ?thesis by auto
qed

text \<open>A raw test composes whatever ports exist, yet the audit counts the mandatory includes
  against it: an unported name of the audit need not hand back every job it is counted for.\<close>

theorem audit_counts_raw:
  "Compose [] d (c\<lparr>cMeta := zeroMeta\<lparr>mFlags := [''raw'']\<rparr>\<rparr>) ''raw'' = Inr (cSource c) \<and>
   reachOf [c\<lparr>cMeta := zeroMeta\<lparr>mFlags := [''raw'']\<rparr>\<rparr>] ''sta.js'' = 1"
  by (simp add: Compose_def HasFlag_def zeroMeta_def reachOf_def loaders_def includeNames_def modesOf_def)

end
