(* ===== verification/Outcome.thy ===== *)
theory Outcome
  imports ModuleGraph
begin

text \<open>
  The two records that travel between the orchestrator and its workers: \<open>discover.go\<close>'s \<open>Job\<close> and
  \<open>worker.go\<close>'s \<open>Result\<close>, and the staging of a job's files (\<open>modulegraph.go\<close>'s \<open>stageJob\<close>). A status
  is the string the code uses.
\<close>

record job =
  jID :: string
  jName :: string
  jSource :: string
  jEntryName :: string
  jModules :: "stagedModule list"
  jAsync :: bool
  jNegType :: string
  jNegPhase :: string

record result =
  rID :: string
  rStatus :: string
  rError :: string
  rTailKey :: string

text \<open>
  \<open>stageJob\<close>: what it writes, in order, and the entry path, given how creating a directory and
  writing a file turn out (\<open>None\<close> is success).
\<close>

fun stageModules ::
  "(string \<Rightarrow> goerror option) \<Rightarrow> (string \<Rightarrow> goerror option) \<Rightarrow> string \<Rightarrow> stagedModule list \<Rightarrow>
   goerror option \<times> (string \<times> string) list" where
  "stageModules mkdir write dir [] = (None, [])"
| "stageModules mkdir write dir (m # ms) =
     (let path = joinPath [dir, smName m] in
      case mkdir (dirPath path) of
        Some e \<Rightarrow> (Some e, [])
      | None \<Rightarrow>
          (case write path of
             Some e \<Rightarrow> (Some e, [])
           | None \<Rightarrow>
               (let (err, ws) = stageModules mkdir write dir ms in (err, (path, smSource m) # ws))))"

definition stageJob ::
  "(string \<Rightarrow> goerror option) \<Rightarrow> (string \<Rightarrow> goerror option) \<Rightarrow> string \<Rightarrow> string \<Rightarrow> job \<Rightarrow>
   (goerror + string) \<times> (string \<times> string) list" where
  "stageJob mkdir write dir defaultEntry j =
     (case stageModules mkdir write dir (jModules j) of
        (Some e, ws) \<Rightarrow> (Inl e, ws)
      | (None, ws) \<Rightarrow>
          (let name = (if jEntryName j = [] then defaultEntry else jEntryName j);
               entry = joinPath [dir, name] in
           case write entry of
             Some e \<Rightarrow> (Inl e, ws)
           | None \<Rightarrow> (Inr entry, ws @ [(entry, jSource j)])))"

text \<open>The files a sequence of writes leaves: the last write to a path wins.\<close>

definition written :: "(string \<times> string) list \<Rightarrow> string \<rightharpoonup> string" where
  "written ws = map_of (rev ws)"

lemma stageModules_ok:
  "(\<And>p. mkdir p = None) \<Longrightarrow> (\<And>p. write p = None) \<Longrightarrow>
   stageModules mkdir write dir ms = (None, map (\<lambda>m. (joinPath [dir, smName m], smSource m)) ms)"
  by (induction ms) (simp_all add: Let_def)

text \<open>Staging that meets no error leaves the test's source at the entry path it returns, whatever
  the siblings are called.\<close>

theorem staged_entry:
  assumes "stageJob mkdir write dir def j = (Inr entry, ws)"
  shows "written ws entry = Some (jSource j)"
  using assms by (auto simp: stageJob_def written_def Let_def split: prod.splits option.splits)

theorem staged_entry_witness:
  "written [(''d/b.ts'', ''x''), (''d/t.ts'', ''import'')] ''d/t.ts'' =
     Some (jSource \<lparr>jID = [], jName = [], jSource = ''import'', jEntryName = ''t.ts'',
       jModules = [\<lparr>smName = ''b.ts'', smSource = ''x''\<rparr>], jAsync = False, jNegType = [], jNegPhase = []\<rparr>)"
  by (rule staged_entry [of "\<lambda>_. None" "\<lambda>_. None" "''d''" "''test262.ts''"]) code_simp

end
