(* ===== verification/WorkPool.thy ===== *)
theory WorkPool
  imports Prelude
begin

text \<open>
  The bounded goroutine pool that \<open>Discover\<close> and \<open>Jobs\<close> run their per-file work in. The group comes
  from \<open>golang.org/x/sync/errgroup\<close>, so what it does is not defined here but documented behaviour:
  every submitted function runs, in some order of completion, and \<open>Wait\<close> returns the first error
  in that order. The completion order is a parameter of the model (\<open>order\<close>), and \<open>schedule n order\<close>
  is the documented promise about it. Each function writes its own slot of a slice.

  The locale \<open>slot_pool\<close> is what the callers rely on; from it follows that their result does not
  depend on the schedule.
\<close>

definition schedule :: "nat \<Rightarrow> nat list \<Rightarrow> bool" where
  "schedule n order \<longleftrightarrow> distinct order \<and> set order = {..<n}"

text \<open>One completed function: the first error is kept, a value goes to the function's slot.\<close>

definition completeTask ::
  "(nat \<Rightarrow> goerror + 'a) \<Rightarrow> nat \<Rightarrow> goerror option \<times> (nat \<rightharpoonup> 'a) \<Rightarrow> goerror option \<times> (nat \<rightharpoonup> 'a)" where
  "completeTask task i st =
     (case task i of
        Inl e \<Rightarrow> (case fst st of None \<Rightarrow> (Some e, snd st) | Some e' \<Rightarrow> (Some e', snd st))
      | Inr v \<Rightarrow> (fst st, (snd st)(i \<mapsto> v)))"

text \<open>\<open>Wait\<close>, then the slots in index order; \<open>zero\<close> is the zero value of a slot nobody wrote.\<close>

definition runPool :: "'a \<Rightarrow> (nat \<Rightarrow> goerror + 'a) \<Rightarrow> nat \<Rightarrow> nat list \<Rightarrow> goerror + 'a list" where
  "runPool zero task n order =
     (let st = fold (completeTask task) order (None, Map.empty) in
      case fst st of
        Some e \<Rightarrow> Inl e
      | None \<Rightarrow> Inr (map (\<lambda>i. case snd st i of None \<Rightarrow> zero | Some v \<Rightarrow> v) [0..<n]))"

section \<open>The interface\<close>

locale slot_pool =
  fixes run :: "'a \<Rightarrow> (nat \<Rightarrow> goerror + 'a) \<Rightarrow> nat \<Rightarrow> nat list \<Rightarrow> goerror + 'a list"
  assumes run_ok: "schedule n order \<Longrightarrow> (\<And>i. i < n \<Longrightarrow> task i = Inr (v i)) \<Longrightarrow> run z task n order = Inr (map v [0..<n])"
    and run_err: "schedule n order \<Longrightarrow> i < n \<Longrightarrow> task i = Inl e \<Longrightarrow>
       \<exists>k e'. k < n \<and> task k = Inl e' \<and> run z task n order = Inl e'"
begin

lemma run_cases:
  assumes "schedule n order"
  obtains (failed) k e where "k < n" "task k = Inl e" "run z task n order = Inl e"
    | (finished) v where "\<And>i. i < n \<Longrightarrow> task i = Inr (v i)" "run z task n order = Inr (map v [0..<n])"
proof (cases "\<exists>i e. i < n \<and> task i = Inl e")
  case True
  then obtain i e where "i < n" "task i = Inl e" by blast
  from run_err [of n order i task e z] assms this show ?thesis using failed by blast
next
  case False
  define v where "v i = projr (task i)" for i
  have v: "task i = Inr (v i)" if "i < n" for i
    using False that by (cases "task i") (auto simp: v_def)
  from finished [OF v run_ok [OF assms v]] show ?thesis by blast
qed

lemma run_Inr_iff:
  assumes "schedule n order"
  shows "run z task n order = Inr vs \<longleftrightarrow> length vs = n \<and> (\<forall>i < n. task i = Inr (vs ! i))"
  using assms
proof (cases rule: run_cases [where task = task and z = z])
  case (failed k e)
  have "\<not> (\<forall>i < n. task i = Inr (vs ! i))"
  proof
    assume "\<forall>i < n. task i = Inr (vs ! i)"
    with failed(1) have "task k = Inr (vs ! k)" by blast
    with failed(2) show False by simp
  qed
  with failed(3) show ?thesis by simp
next
  case (finished v)
  have "map v [0..<n] = vs \<longleftrightarrow> length vs = n \<and> (\<forall>i < n. v i = vs ! i)"
    by (auto simp: list_eq_iff_nth_eq)
  moreover have "(\<forall>i < n. task i = Inr (vs ! i)) \<longleftrightarrow> (\<forall>i < n. v i = vs ! i)"
  proof -
    have "task i = Inr (vs ! i) \<longleftrightarrow> v i = vs ! i" if "i < n" for i
      by (subst finished(1) [OF that]) simp
    then show ?thesis by blast
  qed
  ultimately show ?thesis using finished(2) by simp
qed

text \<open>A successful result is the same for every schedule, and failing is too.\<close>

lemma run_schedule_free:
  assumes "schedule n order" "schedule n order'"
  shows "run z task n order = Inr vs \<longleftrightarrow> run z task n order' = Inr vs"
  unfolding run_Inr_iff [OF assms(1)] run_Inr_iff [OF assms(2)] ..

lemma run_Inl: "schedule n order \<Longrightarrow> run z task n order = Inl e \<Longrightarrow> \<exists>k < n. task k = Inl e"
  by (erule run_cases [where task = task and z = z]) auto

end

section \<open>The pool provides it\<close>

lemma completeTask_Inr: "task i = Inr v \<Longrightarrow> completeTask task i (err, slots) = (err, slots(i \<mapsto> v))"
  by (simp add: completeTask_def)

lemma completeTask_Inl: "task i = Inl e \<Longrightarrow> completeTask task i (None, slots) = (Some e, slots)"
  by (simp add: completeTask_def)

lemma fold_completeTask_ok:
  assumes "\<And>i. i \<in> set order \<Longrightarrow> task i = Inr (v i)"
  shows "fold (completeTask task) order (err, slots) = (err, \<lambda>i. if i \<in> set order then Some (v i) else slots i)"
  using assms
proof (induction order arbitrary: slots)
  case (Cons i order)
  have "fold (completeTask task) order (err, slots(i \<mapsto> v i))
      = (err, \<lambda>j. if j \<in> set order then Some (v j) else (slots(i \<mapsto> v i)) j)"
    by (rule Cons.IH) (simp add: Cons.prems)
  moreover have "completeTask task i (err, slots) = (err, slots(i \<mapsto> v i))"
    by (rule completeTask_Inr) (simp add: Cons.prems)
  ultimately show ?case by (simp add: fun_eq_iff)
qed simp

lemma fold_completeTask_err:
  "fst (fold (completeTask task) order (Some e, slots)) = Some e"
proof (induction order arbitrary: slots)
  case (Cons i order)
  then show ?case by (cases "task i") (simp_all add: completeTask_def)
qed simp

lemma fold_completeTask_first:
  "i \<in> set order \<Longrightarrow> task i = Inl e \<Longrightarrow>
   \<exists>k \<in> set order. \<exists>e'. task k = Inl e' \<and> fst (fold (completeTask task) order (None, slots)) = Some e'"
proof (induction order arbitrary: slots)
  case (Cons k order)
  show ?case
  proof (cases "task k")
    case (Inl e')
    then show ?thesis by (auto simp: completeTask_Inl fold_completeTask_err)
  next
    case (Inr v)
    with Cons.prems have "i \<in> set order" by auto
    moreover have "fold (completeTask task) (k # order) (None, slots)
        = fold (completeTask task) order (None, slots(k \<mapsto> v))"
      by (simp only: fold_simps completeTask_Inr [of task k v None slots, OF Inr])
    ultimately show ?thesis
      using Cons.IH [of "slots(k \<mapsto> v)"] Cons.prems(2) by (simp only: list.set bex_simps) blast
  qed
qed simp

interpretation pool: slot_pool runPool
proof unfold_locales
  fix n order and task :: "nat \<Rightarrow> goerror + 'a" and v z
  assume s: "schedule n order" and t: "\<And>i. i < n \<Longrightarrow> task i = Inr (v i)"
  have "fold (completeTask task) order (None, Map.empty)
      = (None, \<lambda>i. if i \<in> set order then Some (v i) else Map.empty i)"
    by (rule fold_completeTask_ok) (use s t in \<open>simp add: schedule_def\<close>)
  with s show "runPool z task n order = Inr (map v [0..<n])"
    by (simp add: runPool_def schedule_def)
next
  fix n order i e and task :: "nat \<Rightarrow> goerror + 'a" and z
  assume s: "schedule n order" and i: "i < n" "task i = Inl e"
  then have "i \<in> set order" by (simp add: schedule_def)
  from fold_completeTask_first [of i order task e Map.empty] i(2) this
  obtain k e' where "k \<in> set order" "task k = Inl e'"
      "fst (fold (completeTask task) order (None, Map.empty)) = Some e'" by blast
  then show "\<exists>k e'. k < n \<and> task k = Inl e' \<and> runPool z task n order = Inl e'"
    using s by (auto simp: runPool_def schedule_def)
qed

end
