(* ===== verification/Discover.thy ===== *)
theory Discover
  imports Includes Outcome ModuleGraphFacts WorkPool "HOL-Library.Sublist"
begin

text \<open>
  \<open>pkg/tc39/discover.go\<close>: finding the cases of a test262 checkout, narrowing them, and expanding them
  into jobs. Both steps run their per-file work in the pool of theory \<open>WorkPool\<close>; the schedule is a
  parameter, and the lemmas show that it does not matter. \<open>modesOf\<close> is in theory \<open>Includes\<close>.
\<close>

section \<open>Walking the checkout\<close>

text \<open>
  \<open>filepath.WalkDir\<close> visits a directory's entries in name order and enters each subdirectory in its
  place, which is the lexicographic order of the component lists. Directories are the proper
  prefixes of the file paths; a base that is neither a file nor a directory is the \<open>Lstat\<close> error
  the callback passes on.
\<close>

definition pathLess :: "string \<Rightarrow> string \<Rightarrow> bool" where
  "pathLess p q \<longleftrightarrow> splitOn SLASH p < splitOn SLASH q"

definition under :: "string \<Rightarrow> string \<Rightarrow> bool" where
  "under base p \<longleftrightarrow> p = base \<or> HasPrefix p (base @ [SLASH])"

definition walkDir :: "filesystem \<Rightarrow> string \<Rightarrow> goerror + string list" where
  "walkDir fs base =
     (let files = filter (under base) (remdups (map fst fs))
      in if files = [] then Inl (OsError (''lstat '' @ base @ '': no such file or directory''))
         else Inr (sortSlice pathLess files))"

definition runnable :: "string \<Rightarrow> bool" where
  "runnable path \<longleftrightarrow> HasSuffix path ''.js'' \<and> \<not> HasSuffix path ''_FIXTURE.js''"

fun collectPaths :: "filesystem \<Rightarrow> string \<Rightarrow> string list \<Rightarrow> goerror + string list" where
  "collectPaths fs root [] = Inr []"
| "collectPaths fs root (dir # dirs) =
     (case walkDir fs (joinPath [root, dir]) of
        Inl e \<Rightarrow> Inl e
      | Inr files \<Rightarrow>
          (case collectPaths fs root dirs of
             Inl e \<Rightarrow> Inl e
           | Inr rest \<Rightarrow> Inr (filter runnable files @ rest)))"

text \<open>What the pool does for one path.\<close>

definition readCase :: "(string \<Rightarrow> goerror + meta) \<Rightarrow> filesystem \<Rightarrow> string \<Rightarrow> string \<Rightarrow> goerror + testcase" where
  "readCase yaml fs root path =
     (case readFile fs path of
        FileMissing \<Rightarrow> Inl (OsError (''open '' @ path @ '': no such file or directory''))
      | FileError e \<Rightarrow> Inl (OsError e)
      | FileData src \<Rightarrow>
          (case relPath root path of
             None \<Rightarrow> Inl (Msg (''Rel: can't make '' @ path @ '' relative to '' @ root))
           | Some rel \<Rightarrow>
               (case ParseMeta yaml src of
                  Inl e \<Rightarrow> Inl (Wrapped rel e)
                | Inr m \<Rightarrow> Inr \<lparr>cRel = rel, cAbs = path, cMeta = m, cSource = src\<rparr>)))"

definition zeroCase :: testcase where
  "zeroCase = \<lparr>cRel = [], cAbs = [], cMeta = zeroMeta, cSource = []\<rparr>"

definition Discover ::
  "nat list \<Rightarrow> (string \<Rightarrow> goerror + meta) \<Rightarrow> filesystem \<Rightarrow> string \<Rightarrow> string list \<Rightarrow> goerror + testcase list" where
  "Discover order yaml fs root dirs =
     (case collectPaths fs root dirs of
        Inl e \<Rightarrow> Inl e
      | Inr paths \<Rightarrow>
          runPool zeroCase (\<lambda>i. readCase yaml fs root (paths ! i)) (length paths) order)"

definition Select :: "testcase list \<Rightarrow> string \<Rightarrow> int \<Rightarrow> testcase list" where
  "Select cases grep limit =
     (let kept = (if grep \<noteq> [] then filter (\<lambda>c. Contains (cRel c) grep) cases else cases)
      in if limit > 0 \<and> int (length kept) > limit then take (nat limit) kept else kept)"

section \<open>Expanding into jobs\<close>

text \<open>\<open>errors.As\<close> looks through the wrapped errors.\<close>

fun asUnported :: "goerror \<Rightarrow> string option" where
  "asUnported (UnportedInclude n) = Some n"
| "asUnported (Wrapped _ e) = asUnported e"
| "asUnported _ = None"

fun asHostFlag :: "goerror \<Rightarrow> string option" where
  "asHostFlag (HostContextFlag f) = Some f"
| "asHostFlag (Wrapped _ e) = asHostFlag e"
| "asHostFlag _ = None"

definition jobID :: "testcase \<Rightarrow> string \<Rightarrow> string" where
  "jobID c mode = cRel c @ ''#'' @ mode"

definition precook :: "testcase \<Rightarrow> string \<Rightarrow> string \<Rightarrow> result" where
  "precook c mode message =
     \<lparr>rID = jobID c mode, rStatus = ''handback'', rError = message, rTailKey = []\<rparr>"

definition newJob :: "filesystem \<Rightarrow> testcase \<Rightarrow> string \<Rightarrow> string \<Rightarrow> job" where
  "newJob fs c mode src =
     \<lparr>jID = jobID c mode, jName = cAbs c, jSource = src,
      jEntryName = (if mode = ''module'' then tsExtension (basePath (cAbs c)) else []),
      jModules = (if mode = ''module'' then resolveModuleGraph fs (cAbs c) (cSource c) else []),
      jAsync = HasFlag (cMeta c) ''async'',
      jNegType = (case mNegative (cMeta c) of None \<Rightarrow> [] | Some n \<Rightarrow> negType n),
      jNegPhase = (case mNegative (cMeta c) of None \<Rightarrow> [] | Some n \<Rightarrow> negPhase n)\<rparr>"

text \<open>One turn of the mode loop: the run stops, or the mode gives a job, or a precooked result.\<close>

definition composeMode :: "filesystem \<Rightarrow> string \<Rightarrow> testcase \<Rightarrow> string \<Rightarrow> goerror + (job + result)" where
  "composeMode fs portsDir c mode =
     (case Compose fs portsDir c mode of
        Inr src \<Rightarrow> Inr (Inl (newJob fs c mode src))
      | Inl e \<Rightarrow>
          (case asUnported e of
             Some n \<Rightarrow> Inr (Inr (precook c mode (''include not ported: '' @ n)))
           | None \<Rightarrow>
               (case asHostFlag e of
                  Some f \<Rightarrow> Inr (Inr (precook c mode (''host context flag not modeled: '' @ f)))
                | None \<Rightarrow> Inl (Wrapped (cRel c) e))))"

fun composeModes :: "filesystem \<Rightarrow> string \<Rightarrow> testcase \<Rightarrow> string list \<Rightarrow> goerror + job list \<times> result list" where
  "composeModes fs portsDir c [] = Inr ([], [])"
| "composeModes fs portsDir c (mode # modes) =
     (case composeMode fs portsDir c mode of
        Inl e \<Rightarrow> Inl e
      | Inr out \<Rightarrow>
          (case composeModes fs portsDir c modes of
             Inl e \<Rightarrow> Inl e
           | Inr (jobs, precooked) \<Rightarrow>
               (case out of
                  Inl j \<Rightarrow> Inr (j # jobs, precooked)
                | Inr r \<Rightarrow> Inr (jobs, r # precooked))))"

definition composeCase :: "filesystem \<Rightarrow> string \<Rightarrow> testcase \<Rightarrow> goerror + job list \<times> result list" where
  "composeCase fs portsDir c = composeModes fs portsDir c (modesOf (cMeta c))"

definition Jobs :: "nat list \<Rightarrow> filesystem \<Rightarrow> string \<Rightarrow> testcase list \<Rightarrow> goerror + job list \<times> result list" where
  "Jobs order fs portsDir cases =
     (case runPool ([], []) (\<lambda>i. composeCase fs portsDir (cases ! i)) (length cases) order of
        Inl e \<Rightarrow> Inl e
      | Inr slots \<Rightarrow> Inr (concat (map fst slots), concat (map snd slots)))"

section \<open>Facts about the expansion\<close>

lemma composeModes_map:
  "composeModes fs d c modes = Inr (js, pre) \<Longrightarrow>
   \<exists>outs. map (composeMode fs d c) modes = map Inr outs \<and>
     js = concat (map (\<lambda>out. case out of Inl j \<Rightarrow> [j] | Inr _ \<Rightarrow> []) outs) \<and>
     pre = concat (map (\<lambda>out. case out of Inl _ \<Rightarrow> [] | Inr r \<Rightarrow> [r]) outs)"
proof (induction modes arbitrary: js pre)
  case (Cons mode modes)
  from Cons.prems obtain out js' pre' where out: "composeMode fs d c mode = Inr out"
    and rest: "composeModes fs d c modes = Inr (js', pre')"
    and these: "case out of Inl j \<Rightarrow> js = j # js' \<and> pre = pre' | Inr r \<Rightarrow> js = js' \<and> pre = r # pre'"
    by (auto split: sum.splits)
  from Cons.IH [OF rest] obtain outs where "map (composeMode fs d c) modes = map Inr outs"
    "js' = concat (map (\<lambda>out. case out of Inl j \<Rightarrow> [j] | Inr _ \<Rightarrow> []) outs)"
    "pre' = concat (map (\<lambda>out. case out of Inl _ \<Rightarrow> [] | Inr r \<Rightarrow> [r]) outs)" by blast
  with out these show ?case by (intro exI [of _ "out # outs"]) (auto split: sum.splits)
qed simp

lemma composeMode_id:
  "composeMode fs d c mode = Inr out \<Longrightarrow>
   (case out of Inl j \<Rightarrow> jID j | Inr r \<Rightarrow> rID r) = jobID c mode"
  by (auto simp: composeMode_def newJob_def precook_def split: sum.splits option.splits)

lemma composeModes_ids:
  "composeModes fs d c modes = Inr (js, pre) \<Longrightarrow>
   mset (map jID js @ map rID pre) = mset (map (jobID c) modes)"
proof (induction modes arbitrary: js pre)
  case (Cons mode modes)
  from Cons.prems obtain out js' pre' where out: "composeMode fs d c mode = Inr out"
    and rest: "composeModes fs d c modes = Inr (js', pre')"
    and these: "case out of Inl j \<Rightarrow> js = j # js' \<and> pre = pre' | Inr r \<Rightarrow> js = js' \<and> pre = r # pre'"
    by (auto split: sum.splits)
  from Cons.IH [OF rest] these composeMode_id [OF out] show ?case by (auto split: sum.splits)
qed simp

text \<open>The jobs of a run, case by case, once every case has composed.\<close>

lemma Jobs_Inr:
  assumes "schedule (length cases) order"
  shows "Jobs order fs d cases = Inr (js, pre) \<longleftrightarrow>
    (\<exists>slots. map (composeCase fs d) cases = map Inr slots \<and>
       js = concat (map fst slots) \<and> pre = concat (map snd slots))"
proof -
  let ?run = "runPool ([], []) (\<lambda>i. composeCase fs d (cases ! i)) (length cases) order"
  have "Jobs order fs d cases = Inr (js, pre) \<longleftrightarrow>
      (\<exists>slots. ?run = Inr slots \<and> js = concat (map fst slots) \<and> pre = concat (map snd slots))"
    by (cases ?run) (auto simp: Jobs_def)
  then show ?thesis unfolding pool.run_Inr_iff [OF assms] map_eq_map_conv_nth .
qed

lemma slots_ids:
  "map (composeCase fs d) cases = map Inr slots \<Longrightarrow>
   mset (map jID (concat (map fst slots)) @ map rID (concat (map snd slots)))
     = mset (concat (map (\<lambda>c. map (jobID c) (modesOf (cMeta c))) cases))"
proof (induction cases arbitrary: slots)
  case (Cons c cases)
  then obtain js pre slots' where s: "slots = (js, pre) # slots'"
    "composeCase fs d c = Inr (js, pre)" "map (composeCase fs d) cases = map Inr slots'"
    by (cases slots) auto
  from composeModes_ids [OF s(2) [unfolded composeCase_def]] Cons.IH [OF s(3)] show ?case
    by (simp add: s(1) union_ac)
qed simp

text \<open>A mode has no \<open>#\<close>, so an ID gives back its path and mode, whatever the path.\<close>

lemma modesOf_plain: "mode \<in> set (modesOf m) \<Longrightarrow> CHR ''#'' \<notin> set mode"
  by (auto simp: modesOf_def split: if_splits)

lemma distinct_modesOf: "distinct (modesOf m)"
  by (simp add: modesOf_def)

lemma last_sep_unique:
  "c \<notin> set m \<Longrightarrow> c \<notin> set m' \<Longrightarrow> r @ c # m = r' @ c # m' \<Longrightarrow> r = r' \<and> m = m'"
proof (induction r arbitrary: r')
  case Nil
  then show ?case by (cases r') auto
next
  case (Cons a r)
  then show ?case by (cases r') auto
qed

lemma jobID_inject:
  "CHR ''#'' \<notin> set m \<Longrightarrow> CHR ''#'' \<notin> set m' \<Longrightarrow> jobID c m = jobID c' m' \<longleftrightarrow> cRel c = cRel c' \<and> m = m'"
  using last_sep_unique [of "CHR ''#''" m m' "cRel c" "cRel c'"] by (auto simp: jobID_def)

lemma distinct_jobIDs:
  "distinct (map cRel cases) \<Longrightarrow> distinct (concat (map (\<lambda>c. map (jobID c) (modesOf (cMeta c))) cases))"
proof (induction cases)
  case (Cons c cases)
  have "inj_on (jobID c) (set (modesOf (cMeta c)))"
    by (auto simp: inj_on_def jobID_inject modesOf_plain)
  moreover have "cRel c \<notin> cRel ` set cases" using Cons.prems by simp
  ultimately show ?case
    using Cons by (auto simp: distinct_map distinct_modesOf jobID_inject modesOf_plain)
qed simp

lemma composeMode_error:
  assumes "composeMode fs d c mode = Inl e"
  obtains n e' where "n \<in> set (composeNames c)" "readFile fs (portPath d n) = FileError e'"
    "e = Wrapped (cRel c) (OsError e')"
proof -
  from assms obtain e' where e': "Compose fs d c mode = Inl e'" "asUnported e' = None"
      "asHostFlag e' = None" "e = Wrapped (cRel c) e'"
    by (auto simp: composeMode_def split: sum.splits option.splits)
  then obtain n where n: "find (\<lambda>n. \<not> portReadable fs d n) (firstOccs {} (composeNames c)) = Some n"
      "e' = portFailure fs d n"
    by (auto simp: Compose_def loadPorts_cases split: if_splits option.splits)
  then have "n \<in> set (composeNames c)" by (auto simp: find_Some_iff) (metis nth_mem set_firstOccs DiffD1)
  moreover from n e' obtain e'' where "readFile fs (portPath d n) = FileError e''"
    by (auto simp: portFailure_def split: file_read.splits)
  ultimately show ?thesis using n e' by (intro that [of n e'']) (simp_all add: portFailure_def)
qed

lemma composeModes_total:
  "(\<And>mode. mode \<in> set modes \<Longrightarrow> \<exists>out. composeMode fs d c mode = Inr out) \<Longrightarrow>
   \<exists>r. composeModes fs d c modes = Inr r"
proof (induction modes)
  case (Cons mode modes)
  then obtain out r where "composeMode fs d c mode = Inr out" "composeModes fs d c modes = Inr r" by fastforce
  then show ?case by (cases r; cases out) auto
qed simp

lemma composeModes_jobs:
  "composeModes fs d c modes = Inr (js, pre) \<Longrightarrow>
   set js = {newJob fs c mode src | mode src. mode \<in> set modes \<and> Compose fs d c mode = Inr src}"
proof (induction modes arbitrary: js pre)
  case (Cons mode modes)
  from Cons.prems obtain out js' pre' where out: "composeMode fs d c mode = Inr out"
    and rest: "composeModes fs d c modes = Inr (js', pre')"
    and these: "case out of Inl j \<Rightarrow> js = j # js' \<and> pre = pre' | Inr r \<Rightarrow> js = js' \<and> pre = r # pre'"
    by (auto split: sum.splits)
  show ?case
  proof (cases "Compose fs d c mode")
    case (Inl e)
    with out these have "js = js'" by (auto simp: composeMode_def split: option.splits)
    with Inl Cons.IH [OF rest] show ?thesis by auto
  next
    case (Inr src)
    with out these have "js = newJob fs c mode src # js'" by (auto simp: composeMode_def)
    with Inr Cons.IH [OF rest] show ?thesis by auto
  qed
qed simp

end
