(* ===== verification/DiscoverFacts.thy ===== *)
theory DiscoverFacts
  imports Discover
begin

text \<open>
  What discovery, selection and job expansion guarantee: every runnable file under the prefixes is a
  case, every case and mode is exactly one job or one precooked result, and none of it depends on
  how the pools schedule their work.
\<close>

section \<open>Discovery\<close>

lemma walkDir_Inr:
  assumes "walkDir fs base = Inr files"
  shows "set files = {p \<in> fst ` set fs. under base p}" "distinct files" "sorted_wrt (\<lambda>p q. \<not> pathLess q p) files"
proof -
  from assms have files: "files = sortSlice pathLess (filter (under base) (remdups (map fst fs)))"
    by (simp add: walkDir_def Let_def split: if_splits)
  have "ordering_less pathLess" unfolding pathLess_def by (rule ordering_key)
  then show "sorted_wrt (\<lambda>p q. \<not> pathLess q p) files" by (simp add: files sorted_sortSlice)
  show "set files = {p \<in> fst ` set fs. under base p}" "distinct files" by (auto simp: files)
qed

lemma collectPaths_set:
  "collectPaths fs root dirs = Inr paths \<Longrightarrow>
   set paths = {p \<in> fst ` set fs. runnable p \<and> (\<exists>dir \<in> set dirs. under (joinPath [root, dir]) p)}"
proof (induction dirs arbitrary: paths)
  case (Cons dir dirs)
  from Cons.prems obtain files rest where w: "walkDir fs (joinPath [root, dir]) = Inr files"
      "collectPaths fs root dirs = Inr rest" "paths = filter runnable files @ rest"
    by (auto split: sum.splits)
  show ?case
    unfolding w(3) set_append set_filter walkDir_Inr(1) [OF w(1)] Cons.IH [OF w(2)] by auto
qed simp

lemma collectPaths_one:
  "collectPaths fs root [dir] = Inr paths \<Longrightarrow> distinct paths \<and> sorted_wrt (\<lambda>p q. \<not> pathLess q p) paths"
  using walkDir_Inr by (auto split: sum.splits intro: sorted_wrt_filter)

lemma readCase_Inr:
  "readCase yaml fs root path = Inr c \<longleftrightarrow>
   cAbs c = path \<and> readFile fs path = FileData (cSource c) \<and> relPath root path = Some (cRel c) \<and>
   ParseMeta yaml (cSource c) = Inr (cMeta c)"
  by (auto simp: readCase_def split: file_read.splits option.splits sum.splits)

lemma readCases:
  "map (readCase yaml fs root) paths = map Inr cs \<Longrightarrow>
   map cAbs cs = paths \<and>
   list_all (\<lambda>c. readFile fs (cAbs c) = FileData (cSource c) \<and> relPath root (cAbs c) = Some (cRel c) \<and>
                 ParseMeta yaml (cSource c) = Inr (cMeta c)) cs"
proof (induction paths arbitrary: cs)
  case (Cons p paths)
  then obtain c cs' where "cs = c # cs'" "readCase yaml fs root p = Inr c"
      "map (readCase yaml fs root) paths = map Inr cs'" by (cases cs) auto
  with Cons.IH show ?case by (simp add: readCase_Inr)
qed simp

lemma Discover_Inr:
  assumes "collectPaths fs root dirs = Inr paths" "schedule (length paths) order"
  shows "Discover order yaml fs root dirs = Inr cs \<longleftrightarrow> map (readCase yaml fs root) paths = map Inr cs"
proof -
  have "Discover order yaml fs root dirs =
      runPool zeroCase (\<lambda>i. readCase yaml fs root (paths ! i)) (length paths) order"
    using assms(1) by (simp add: Discover_def)
  then show ?thesis
    by (simp only: pool.run_Inr_iff [OF assms(2)] map_eq_map_conv_nth)
qed

definition tinyYaml :: "string \<Rightarrow> goerror + meta" where
  "tinyYaml s = Inr zeroMeta"

definition tinyDisk :: filesystem where
  "tinyDisk =
     [(''t/a/y.js'', FileData ''y''), (''t/a-b/z.js'', FileData ''z''), (''t/a/x_FIXTURE.js'', FileData ''f''),
      (''t/a/x.js'', FileData ''x''), (''t/a/notes.md'', FileData ''n'')]"

text \<open>Discovery that succeeds yields one case per collected path, in the order collected, whatever
  order the pool finishes in: its bytes, its frontmatter, and its path relative to the root; the
  paths are exactly the \<open>.js\<close> files under the prefixes that are not fixtures.\<close>

theorem discover_cases:
  assumes "collectPaths fs root dirs = Inr paths" "schedule (length paths) order"
    and "Discover order yaml fs root dirs = Inr cs"
  shows "map cAbs cs = paths \<and>
    set (map cAbs cs) = {p \<in> fst ` set fs. runnable p \<and> (\<exists>dir \<in> set dirs. under (joinPath [root, dir]) p)} \<and>
    list_all (\<lambda>c. readFile fs (cAbs c) = FileData (cSource c) \<and> relPath root (cAbs c) = Some (cRel c) \<and>
                  ParseMeta yaml (cSource c) = Inr (cMeta c)) cs"
proof -
  have cs: "map (readCase yaml fs root) paths = map Inr cs"
    using Discover_Inr [OF assms(1,2)] assms(3) by blast
  have "map cAbs cs = paths" and
    "list_all (\<lambda>c. readFile fs (cAbs c) = FileData (cSource c) \<and> relPath root (cAbs c) = Some (cRel c) \<and>
                  ParseMeta yaml (cSource c) = Inr (cMeta c)) cs"
    using readCases [OF cs] by auto
  then show ?thesis using collectPaths_set [OF assms(1)] by simp
qed

theorem discover_cases_witness:
  "map cAbs [\<lparr>cRel = ''a/x.js'', cAbs = ''t/a/x.js'', cMeta = zeroMeta, cSource = ''x''\<rparr>,
             \<lparr>cRel = ''a/y.js'', cAbs = ''t/a/y.js'', cMeta = zeroMeta, cSource = ''y''\<rparr>]
   = [''t/a/x.js'', ''t/a/y.js'']"
proof -
  have "collectPaths tinyDisk ''t'' [''a''] = Inr [''t/a/x.js'', ''t/a/y.js'']" by code_simp
  moreover have "schedule (length [''t/a/x.js'', ''t/a/y.js'']) [1, 0]" by (auto simp: schedule_def)
  moreover have "Discover [1, 0] tinyYaml tinyDisk ''t'' [''a''] =
      Inr [\<lparr>cRel = ''a/x.js'', cAbs = ''t/a/x.js'', cMeta = zeroMeta, cSource = ''x''\<rparr>,
           \<lparr>cRel = ''a/y.js'', cAbs = ''t/a/y.js'', cMeta = zeroMeta, cSource = ''y''\<rparr>]" by code_simp
  ultimately show ?thesis by (rule discover_cases [THEN conjunct1])
qed

text \<open>Overlapping prefixes list a file once for each, so its identity is no longer unique, and the
  component order of the walk is not the order of the path strings.\<close>

theorem discover_overlap:
  "collectPaths tinyDisk ''t'' [''.'', ''a''] =
     Inr [''t/a/x.js'', ''t/a/y.js'', ''t/a-b/z.js'', ''t/a/x.js'', ''t/a/y.js''] \<and>
   (''t/a-b/z.js'' :: string) < ''t/a/x.js''"
  by code_simp

section \<open>Selection\<close>

text \<open>Selection keeps the discovery order and only drops cases; a positive limit is respected, only
  cases whose path contains the pattern remain, and selecting again changes nothing.\<close>

theorem select_stable:
  "subseq (Select cs grep limit) cs \<and>
   set (Select cs grep limit) \<subseteq> {c. Contains (cRel c) grep} \<and>
   (limit \<le> 0 \<or> int (length (Select cs grep limit)) \<le> limit) \<and>
   Select (Select cs grep limit) grep limit = Select cs grep limit"
proof -
  have any: "Contains s []" for s by (cases s) (simp_all add: Contains_def HasPrefix_def)
  have sub: "set (take n xs) \<subseteq> set xs" for n and xs :: "testcase list" by (rule set_take_subset)
  have kept: "filter (\<lambda>c. Contains (cRel c) grep) (take n (filter (\<lambda>c. Contains (cRel c) grep) cs))
      = take n (filter (\<lambda>c. Contains (cRel c) grep) cs)" for n
    using set_take_subset by (fastforce simp: filter_id_conv)
  have "subseq (take n xs) xs" for n and xs :: "testcase list"
    using list_emb_append2 [of "(=)" "take n xs" "take n xs" "[]"] by (metis append_take_drop_id list_emb_prefix subseq_order.refl)
  then have "subseq (take n (filter P cs)) cs" for n P
    using subseq_order.trans subseq_filter_left by blast
  moreover have "subseq (filter P cs) cs" for P by (rule subseq_filter_left)
  moreover have "set (take n (filter P cs)) \<subseteq> {c. P c}" for n P using set_take_subset [of n "filter P cs"] by auto
  ultimately show ?thesis
    using any kept by (auto simp: Select_def Let_def)
qed

section \<open>Job expansion\<close>

definition threeCases :: "testcase list" where
  "threeCases =
     [exampleCase,
      exampleCase\<lparr>cRel := ''u.js'', cMeta := zeroMeta\<lparr>mIncludes := [''b.js''], mFlags := [''noStrict'']\<rparr>\<rparr>,
      exampleCase\<lparr>cRel := ''v.js'', cMeta := zeroMeta\<lparr>mFlags := [''raw'', ''async'']\<rparr>\<rparr>]"

lemma threeCases_jobs:
  "schedule (length threeCases) [2, 0, 1]"
  "\<exists>js pre. Jobs [2, 0, 1] exampleHarness ''h'' threeCases = Inr (js, pre) \<and>
     map jID js = [''t.js#sloppy'', ''t.js#strict'', ''v.js#raw''] \<and> map rID pre = [''u.js#sloppy'']"
proof -
  show "schedule (length threeCases) [2, 0, 1]" by (auto simp: schedule_def threeCases_def)
  have "(case Jobs [2, 0, 1] exampleHarness ''h'' threeCases of
       Inr (js, pre) \<Rightarrow> map jID js = [''t.js#sloppy'', ''t.js#strict'', ''v.js#raw''] \<and> map rID pre = [''u.js#sloppy'']
     | Inl _ \<Rightarrow> False)" by code_simp
  then show "\<exists>js pre. Jobs [2, 0, 1] exampleHarness ''h'' threeCases = Inr (js, pre) \<and>
     map jID js = [''t.js#sloppy'', ''t.js#strict'', ''v.js#raw''] \<and> map rID pre = [''u.js#sloppy'']"
    by (auto split: sum.splits)
qed

text \<open>C15. Every case is accounted for: the IDs of the jobs and of the precooked results together are one
  ID for each case and each mode its flags give, and no ID occurs twice when the cases have
  distinct relative paths.\<close>

theorem jobs_accounted:
  assumes "schedule (length cases) order" "Jobs order fs d cases = Inr (js, pre)"
    and "distinct (map cRel cases)"
  shows "mset (map jID js @ map rID pre) =
      mset (concat (map (\<lambda>c. map (jobID c) (modesOf (cMeta c))) cases)) \<and>
    distinct (map jID js @ map rID pre)"
proof -
  from Jobs_Inr [OF assms(1)] assms(2) obtain slots where s: "map (composeCase fs d) cases = map Inr slots"
    "js = concat (map fst slots)" "pre = concat (map snd slots)" by blast
  have "mset (map jID js @ map rID pre) = mset (concat (map (\<lambda>c. map (jobID c) (modesOf (cMeta c))) cases))"
    unfolding s(2,3) by (rule slots_ids [OF s(1)])
  with distinct_jobIDs [OF assms(3)] show ?thesis by (metis mset_eq_imp_distinct_iff)
qed

theorem jobs_accounted_witness:
  "\<exists>js pre. Jobs [2, 0, 1] exampleHarness ''h'' threeCases = Inr (js, pre) \<and>
     length js = 3 \<and> distinct (map jID js @ map rID pre)"
proof -
  from threeCases_jobs(2) obtain js pre where j: "Jobs [2, 0, 1] exampleHarness ''h'' threeCases = Inr (js, pre)"
    "map jID js = [''t.js#sloppy'', ''t.js#strict'', ''v.js#raw'']" by (elim exE conjE) (rule that)
  have "distinct (map cRel threeCases)" by code_simp
  from jobs_accounted [OF threeCases_jobs(1) j(1) this] have "distinct (map jID js @ map rID pre)" by blast
  moreover have "length js = 3" using arg_cong [OF j(2), of length] by simp
  ultimately show ?thesis using j(1) by blast
qed

lemma jobs_made:
  assumes "schedule (length cases) order" "Jobs order fs d cases = Inr (js, pre)"
  shows "set js = {newJob fs c mode src | c mode src.
      c \<in> set cases \<and> mode \<in> set (modesOf (cMeta c)) \<and> Compose fs d c mode = Inr src}"
proof -
  from Jobs_Inr [OF assms(1)] assms(2) obtain slots where s: "map (composeCase fs d) cases = map Inr slots"
    "js = concat (map fst slots)" "pre = concat (map snd slots)" by blast
  have "set (concat (map fst slots)) = {newJob fs c mode src | c mode src.
      c \<in> set cases \<and> mode \<in> set (modesOf (cMeta c)) \<and> Compose fs d c mode = Inr src}"
    using s(1)
  proof (induction cases arbitrary: slots)
    case (Cons c cases)
    from Cons.prems obtain js pre slots' where t: "slots = (js, pre) # slots'"
      "composeModes fs d c (modesOf (cMeta c)) = Inr (js, pre)" "map (composeCase fs d) cases = map Inr slots'"
      by (cases slots) (auto simp flip: composeCase_def)
    show ?case
      unfolding t(1) list.map concat.simps set_append Cons.IH [OF t(3)] fst_conv composeModes_jobs [OF t(2)]
      by auto
  qed simp
  with s(2) show ?thesis by simp
qed

text \<open>C34. What a job carries. The jobs of an expansion are exactly the records that stand for one case in one of its
  modes that composes: the ID is the case's path and the mode, the source what composing gives; a module
  job, and no other, has as entry name that of the test under its TypeScript extension and the modules the
  test imports; the async flag and the type and phase of the expected error are the case's own.\<close>

theorem jobs_contents:
  assumes "schedule (length cases) order" "Jobs order fs d cases = Inr (js, pre)"
  shows "j \<in> set js \<longleftrightarrow> (\<exists>c mode. c \<in> set cases \<and> mode \<in> set (modesOf (cMeta c)) \<and>
      Compose fs d c mode = Inr (jSource j) \<and> jID j = cRel c @ ''#'' @ mode \<and> jName j = cAbs c \<and>
      (if mode = ''module''
       then jEntryName j = tsExtension (basePath (cAbs c)) \<and> jModules j = resolveModuleGraph fs (cAbs c) (cSource c)
       else jEntryName j = [] \<and> jModules j = []) \<and>
      jAsync j = (''async'' \<in> set (mFlags (cMeta c))) \<and>
      (case mNegative (cMeta c) of
         None \<Rightarrow> jNegType j = [] \<and> jNegPhase j = []
       | Some n \<Rightarrow> jNegType j = negType n \<and> jNegPhase j = negPhase n))"
proof -
  have "j = newJob fs c mode (jSource j) \<longleftrightarrow> jID j = cRel c @ ''#'' @ mode \<and> jName j = cAbs c \<and>
      (if mode = ''module''
       then jEntryName j = tsExtension (basePath (cAbs c)) \<and> jModules j = resolveModuleGraph fs (cAbs c) (cSource c)
       else jEntryName j = [] \<and> jModules j = []) \<and>
      jAsync j = (''async'' \<in> set (mFlags (cMeta c))) \<and>
      (case mNegative (cMeta c) of
         None \<Rightarrow> jNegType j = [] \<and> jNegPhase j = []
       | Some n \<Rightarrow> jNegType j = negType n \<and> jNegPhase j = negPhase n)" for c mode
    by (cases j) (auto simp: newJob_def jobID_def HasFlag_iff split: option.split)
  moreover have "j \<in> set js \<longleftrightarrow> (\<exists>c mode. c \<in> set cases \<and> mode \<in> set (modesOf (cMeta c)) \<and>
      Compose fs d c mode = Inr (jSource j) \<and> j = newJob fs c mode (jSource j))"
  proof -
    have "jSource (newJob fs c mode src) = src" for c mode src by (simp add: newJob_def)
    then show ?thesis unfolding jobs_made [OF assms] mem_Collect_eq by metis
  qed
  ultimately show ?thesis by simp
qed

theorem jobs_contents_witness:
  "\<exists>js pre. Jobs [2, 0, 1] exampleHarness ''h'' threeCases = Inr (js, pre) \<and>
     list_all (\<lambda>j. jEntryName j = [] \<and> jModules j = []) js"
proof -
  obtain js pre where j: "Jobs [2, 0, 1] exampleHarness ''h'' threeCases = Inr (js, pre)"
    using threeCases_jobs(2) by blast
  have "jEntryName x = [] \<and> jModules x = []" if "x \<in> set js" for x
  proof -
    from that jobs_contents [OF threeCases_jobs(1) j] obtain c mode where
      "c \<in> set threeCases" "mode \<in> set (modesOf (cMeta c))"
      "if mode = ''module'' then jEntryName x = tsExtension (basePath (cAbs c)) \<and>
         jModules x = resolveModuleGraph exampleHarness (cAbs c) (cSource c)
       else jEntryName x = [] \<and> jModules x = []" by blast
    moreover have "list_all (\<lambda>c. ''module'' \<notin> set (modesOf (cMeta c))) threeCases" by code_simp
    ultimately show ?thesis by (auto simp: list_all_iff split: if_splits)
  qed
  with j show ?thesis by (auto simp: list_all_iff)
qed

text \<open>The expansion does not depend on the pool's schedule, and only a port that is there but cannot
  be read can stop a run: a missing port or an unsupported host flag never does.\<close>

theorem jobs_schedule_free:
  assumes "schedule (length cases) order" "schedule (length cases) order'"
    and "\<forall>n e. readFile fs (portPath d n) \<noteq> FileError e"
  shows "Jobs order fs d cases = Jobs order' fs d cases \<and> (\<exists>r. Jobs order fs d cases = Inr r)"
proof -
  have "\<exists>r. composeCase fs d c = Inr r" for c
    unfolding composeCase_def
  proof (rule composeModes_total)
    fix mode
    show "\<exists>out. composeMode fs d c mode = Inr out"
    proof (cases "composeMode fs d c mode")
      case (Inl e)
      from composeMode_error [OF this] assms(3) show ?thesis by blast
    qed simp
  qed
  then obtain f where f: "\<And>c. composeCase fs d c = Inr (f c)" by metis
  have "map (composeCase fs d) cases = map Inr (map f cases)" by (simp add: f)
  then have "Jobs order fs d cases = Inr (concat (map fst (map f cases)), concat (map snd (map f cases)))"
    and "Jobs order' fs d cases = Inr (concat (map fst (map f cases)), concat (map snd (map f cases)))"
    unfolding Jobs_Inr [OF assms(1)] Jobs_Inr [OF assms(2)] by blast+
  then show ?thesis by simp
qed

theorem jobs_schedule_free_witness:
  "Jobs [2, 0, 1] exampleHarness ''h'' threeCases = Jobs [0, 1, 2] exampleHarness ''h'' threeCases"
proof (rule jobs_schedule_free [THEN conjunct1])
  show "schedule (length threeCases) [2, 0, 1]" by (rule threeCases_jobs)
  show "schedule (length threeCases) [0, 1, 2]" by (auto simp: schedule_def threeCases_def)
  show "\<forall>n e. readFile exampleHarness (portPath ''h'' n) \<noteq> FileError e"
    by (auto simp: readFile_def exampleHarness_def)
qed

end
