(* ===== verification/Denylist.thy ===== *)
theory Denylist
  imports Compose
begin

text \<open>
  \<open>pkg/tc39/denylist.go\<close>: the quarantine list and what it drops. The list is read through the line
  scanner with its default token limit.
\<close>

definition scannerLimit :: nat where "scannerLimit = 65536"

definition errTooLong :: goerror where "errTooLong = Msg ''bufio.Scanner: token too long''"

definition denyPatterns :: "string list \<Rightarrow> string list" where
  "denyPatterns lines =
     filter (\<lambda>line. \<not> (line = [] \<or> HasPrefix line ''#'')) (map TrimSpace lines)"

text \<open>The error, if any, comes with the patterns read before it.\<close>

definition LoadDenylist :: "filesystem \<Rightarrow> string \<Rightarrow> string list \<times> goerror option" where
  "LoadDenylist fs path =
     (case readFile fs path of
        FileMissing \<Rightarrow> ([], None)
      | FileError e \<Rightarrow> ([], Some (OsError e))
      | FileData b \<Rightarrow>
          (let (lines, tooLong) = scanLines scannerLimit b
           in (denyPatterns lines, if tooLong then Some errTooLong else None)))"

fun matchesAny :: "string \<Rightarrow> string list \<Rightarrow> bool" where
  "matchesAny rel [] = False"
| "matchesAny rel (p # ps) = (if Contains rel p then True else matchesAny rel ps)"

fun splitCases :: "string list \<Rightarrow> testcase list \<Rightarrow> testcase list \<times> testcase list" where
  "splitCases patterns [] = ([], [])"
| "splitCases patterns (c # cs) =
     (let (kept, dropped) = splitCases patterns cs in
      if matchesAny (cRel c) patterns then (kept, c # dropped) else (c # kept, dropped))"

definition Quarantine :: "testcase list \<Rightarrow> string list \<Rightarrow> testcase list \<times> testcase list" where
  "Quarantine cases patterns =
     (if length patterns = 0 then (cases, []) else splitCases patterns cases)"

lemma matchesAny_iff: "matchesAny rel ps \<longleftrightarrow> list_ex (Contains rel) ps"
  by (induction ps) auto

lemma splitCases_filter:
  "splitCases ps cs = (filter (\<lambda>c. \<not> matchesAny (cRel c) ps) cs, filter (\<lambda>c. matchesAny (cRel c) ps) cs)"
  by (induction cs) (auto simp: Let_def)

lemma Quarantine_filter:
  "Quarantine cs ps = (filter (\<lambda>c. \<not> matchesAny (cRel c) ps) cs, filter (\<lambda>c. matchesAny (cRel c) ps) cs)"
  by (simp add: Quarantine_def splitCases_filter)

text \<open>Quarantining loses no case and duplicates none, keeps both halves in their order, and drops
  exactly the cases whose path contains a line of the list that is neither blank nor a comment
  once its surrounding space is trimmed; a list that is missing drops nothing.\<close>

theorem quarantine_effect:
  "fst (Quarantine cs (fst (LoadDenylist fs path))) = filter (\<lambda>c. \<not> matchesAny (cRel c) (fst (LoadDenylist fs path))) cs \<and>
   mset (fst (Quarantine cs (fst (LoadDenylist fs path)))) + mset (snd (Quarantine cs (fst (LoadDenylist fs path)))) = mset cs \<and>
   set (snd (Quarantine cs (fst (LoadDenylist fs path)))) =
     {c \<in> set cs. \<exists>b line. readFile fs path = FileData b \<and> line \<in> set (fst (scanLines scannerLimit b)) \<and>
        TrimSpace line \<noteq> [] \<and> \<not> HasPrefix (TrimSpace line) ''#'' \<and> Contains (cRel c) (TrimSpace line)}"
proof -
  have "mset (filter P xs) + mset (filter (\<lambda>x. \<not> P x) xs) = mset xs" for P and xs :: "testcase list"
    by (induction xs) auto
  moreover have "matchesAny rel (fst (LoadDenylist fs path)) \<longleftrightarrow>
      (\<exists>b line. readFile fs path = FileData b \<and> line \<in> set (fst (scanLines scannerLimit b)) \<and>
        TrimSpace line \<noteq> [] \<and> \<not> HasPrefix (TrimSpace line) ''#'' \<and> Contains rel (TrimSpace line))" for rel
    by (auto simp: matchesAny_iff list_ex_iff LoadDenylist_def denyPatterns_def split: file_read.splits prod.splits)
  ultimately show ?thesis by (simp add: Quarantine_filter add.commute)
qed

text \<open>No pattern the list yields is empty, starts a comment, or still has space around it, so a
  stray blank line cannot quarantine the whole suite.\<close>

theorem denylist_patterns_clean:
  "set (fst (LoadDenylist fs path)) \<inter> ({[]} \<union> {p. HasPrefix p ''#''} \<union> {p. NL \<in> set p}) = {}"
proof -
  have scan: "NL \<notin> set line" if "line \<in> set (fst (scanLines limit b))" for line limit b
  proof -
    from that obtain l where l: "l \<in> set (rawLines b)" "line = dropCR l"
      by (auto simp: scanLines_def Let_def dest: set_takeWhileD)
    from l(1) have "l \<in> set (splitOn NL b)" by (auto simp: rawLines_def Let_def split: if_splits dest: in_set_butlastD)
    then have "NL \<notin> set l" by (rule splitOn_no_sep)
    with l(2) show ?thesis by (auto simp: dropCR_def dest: in_set_butlastD split: if_splits)
  qed
  have trim: "NL \<notin> set (TrimSpace line)" if n: "NL \<notin> set line" for line
  proof -
    obtain a b where "line = a @ TrimSpace line @ b" using TrimSpace_infix by blast
    then have "set line = set a \<union> set (TrimSpace line) \<union> set b" by (metis set_append Un_assoc)
    with n show ?thesis by blast
  qed
  show ?thesis
  proof (cases "readFile fs path")
    case (FileData b)
    then have "set (fst (LoadDenylist fs path)) = set (denyPatterns (fst (scanLines scannerLimit b)))"
      by (simp add: LoadDenylist_def split: prod.split)
    then show ?thesis using scan trim by (auto simp: denyPatterns_def)
  qed (simp_all add: LoadDenylist_def)
qed

end
