(* ===== verification/ExpectFacts.thy ===== *)
theory ExpectFacts
  imports Expect
begin

text \<open>
  The snapshot file round trips, a run compared with its own snapshot shows no drift, and neither
  the comparison nor the summaries depend on the order Go visits the results map in.
\<close>

section \<open>The file\<close>

text \<open>Job IDs and statuses the line format can carry.\<close>

definition recordable :: "string \<Rightarrow> bool" where
  "recordable k \<longleftrightarrow> k \<noteq> [] \<and> NL \<notin> set k \<and> (\<forall>w \<in> set spaceRunes. \<not> HasSuffix k w)"

definition cleanStatus :: "string \<Rightarrow> bool" where
  "cleanStatus s \<longleftrightarrow> s \<noteq> [] \<and> SP \<notin> set s \<and> NL \<notin> set s \<and> \<not> HasPrefix s ''#'' \<and>
     (\<forall>w \<in> set spaceRunes. \<not> HasPrefix s w)"

definition clean_results :: "results \<Rightarrow> bool" where
  "clean_results results \<longleftrightarrow> go_map results \<and>
     list_all (\<lambda>(k, r). recordable k \<and> cleanStatus (rStatus r)) results"

lemma spaceRunes_SP: "w \<in> set spaceRunes \<Longrightarrow> w = [SP] \<or> SP \<notin> set w"
  by (auto simp: spaceRunes_def)

lemma SP_spaceRune: "[SP] \<in> set spaceRunes"
  by (simp add: spaceRunes_def)

lemma prefix_before: "HasPrefix (s @ c # k) w \<Longrightarrow> c \<notin> set w \<Longrightarrow> HasPrefix s w"
  by (auto simp: HasPrefix_iff append_eq_append_conv2 Cons_eq_append_conv)

lemma suffix_after: "HasSuffix (s @ c # k) w \<Longrightarrow> c \<notin> set w \<Longrightarrow> HasSuffix k w"
  by (auto simp: HasSuffix_iff append_eq_append_conv2 Cons_eq_append_conv)

lemma trimmed_line:
  assumes "cleanStatus s" "recordable k"
  shows "trimmed (s @ SP # k)"
  unfolding trimmed_def
proof (intro ballI conjI notI)
  fix w assume w: "w \<in> set spaceRunes"
  have s: "\<not> HasPrefix s w" and k: "\<not> HasSuffix k w" using assms w by (auto simp: cleanStatus_def recordable_def)
  show False if "HasPrefix (s @ SP # k) w"
  proof (cases "SP \<in> set w")
    case True
    with spaceRunes_SP [OF w] have "w = [SP]" by blast
    with that assms(1) s show False by (cases s) (auto simp: HasPrefix_def cleanStatus_def)
  qed (use prefix_before [OF that] s in blast)
  show False if "HasSuffix (s @ SP # k) w"
  proof (cases "SP \<in> set w")
    case True
    with spaceRunes_SP [OF w] have "w = [SP]" by blast
    with that assms(2) k show False
      by (cases k rule: rev_cases) (auto simp: HasSuffix_iff recordable_def)
  qed (use suffix_after [OF that] k in blast)
qed

lemma recordLine_entry:
  assumes "cleanStatus s" "recordable k"
  shows "recordLine (s @ SP # k) out = out(k \<mapsto> s)"
proof -
  have "\<not> HasPrefix (s @ SP # k) ''#''"
    using assms(1) prefix_before [of s SP k "''#''"] by (auto simp: cleanStatus_def)
  moreover have "Cut (s @ SP # k) [SP] = Some (s, k)"
    using assms(1) by (intro Cut_append) (simp add: cleanStatus_def)
  ultimately show ?thesis
    using TrimSpace_trimmed [OF trimmed_line [OF assms]] by (simp add: recordLine_def)
qed

lemma recordLine_header: "l \<in> set expectHeader \<Longrightarrow> recordLine l out = out \<and> NL \<notin> set l"
proof -
  have t: "list_all (\<lambda>l. TrimSpace l = l \<and> HasPrefix l ''#'' \<and> list_all (\<lambda>c. c \<noteq> NL) l) expectHeader" by code_simp
  assume "l \<in> set expectHeader"
  with t have "TrimSpace l = l" "HasPrefix l ''#''" "list_all (\<lambda>c. c \<noteq> NL) l" by (auto simp: list_all_iff)
  then show ?thesis by (auto simp: recordLine_def list_all_iff)
qed

lemma recordLine_blank: "recordLine [] out = out"
  using TrimSpace_trimmed [of "[]"] by (simp add: recordLine_def trimmed_def HasPrefix_def HasSuffix_def spaceRunes_def)

lemma splitOn_lines:
  "\<forall>l \<in> set ls. NL \<notin> set l \<Longrightarrow> splitOn NL (concat (map (\<lambda>l. l @ [NL]) ls)) = ls @ [[]]"
  by (induction ls) (simp_all add: splitOn_append)

lemma fold_recordLine_header:
  "set ls \<subseteq> set expectHeader \<Longrightarrow> fold recordLine ls out = out"
  by (induction ls) (simp_all add: recordLine_header)

lemma fold_recordLine_entries:
  "\<forall>k \<in> set ids. recordable k \<and> cleanStatus (st k) \<Longrightarrow>
   fold recordLine (map (\<lambda>k. st k @ SP # k) ids) out = (\<lambda>k. if k \<in> set ids then Some (st k) else out k)"
proof (induction ids arbitrary: out)
  case (Cons k ids)
  then have "fold recordLine (map (\<lambda>k. st k @ SP # k) ids) (out(k \<mapsto> st k)) =
      (\<lambda>k'. if k' \<in> set ids then Some (st k') else (out(k \<mapsto> st k)) k')" by simp
  with Cons.prems show ?case by (simp add: recordLine_entry fun_eq_iff)
qed simp

text \<open>What a run records: its non-passing statuses.\<close>

definition snapshot :: "results \<Rightarrow> expectations" where
  "snapshot results k =
     (case map_of results k of
        None \<Rightarrow> None
      | Some r \<Rightarrow> if rStatus r \<noteq> ''pass'' then Some (rStatus r) else None)"

lemma snapshot_ids:
  assumes "go_map results"
  shows "k \<in> set (map fst (filter (\<lambda>(k, r). rStatus r \<noteq> ''pass'') results)) \<longleftrightarrow> snapshot results k \<noteq> None"
    and "snapshot results k \<noteq> None \<Longrightarrow> snapshot results k = Some (statusOf results k)"
proof -
  have "k \<in> set (map fst (filter (\<lambda>(k, r). rStatus r \<noteq> ''pass'') results)) \<longleftrightarrow>
      (\<exists>r. map_of results k = Some r \<and> rStatus r \<noteq> ''pass'')"
    unfolding go_map_lookup [OF assms] by force
  then show "k \<in> set (map fst (filter (\<lambda>(k, r). rStatus r \<noteq> ''pass'') results)) \<longleftrightarrow> snapshot results k \<noteq> None"
    by (simp add: snapshot_def split: option.split)
  show "snapshot results k \<noteq> None \<Longrightarrow> snapshot results k = Some (statusOf results k)"
    by (auto simp: snapshot_def statusOf_def split: option.splits if_splits)
qed

lemma load_write:
  assumes "clean_results results" "readFile fs path = FileData (WriteExpectations results)"
  shows "LoadExpectations fs path = Inr (snapshot results)"
proof -
  let ?ids = "sortStrings (map fst (filter (\<lambda>(k, r). rStatus r \<noteq> ''pass'') results))"
  let ?line = "\<lambda>k. statusOf results k @ SP # k"
  have gm: "go_map results" using assms(1) by (simp add: clean_results_def)
  have ids: "\<forall>k \<in> set ?ids. recordable k \<and> cleanStatus (statusOf results k)"
  proof
    fix k assume "k \<in> set ?ids"
    then obtain r where r: "map_of results k = Some r" using go_map_lookup [OF gm] by auto
    then have "(k, r) \<in> set results" by (rule map_of_SomeD)
    with assms(1) r show "recordable k \<and> cleanStatus (statusOf results k)"
      by (auto simp: clean_results_def list_all_iff statusOf_def)
  qed
  have content: "WriteExpectations results = concat (map (\<lambda>l. l @ [NL]) (expectHeader @ map ?line ?ids))"
    by (simp add: WriteExpectations_def Let_def o_def)
  have nl: "\<forall>l \<in> set (expectHeader @ map ?line ?ids). NL \<notin> set l"
    using ids recordLine_header by (auto simp: recordable_def cleanStatus_def)
  have "fold recordLine (splitOn NL (WriteExpectations results)) Map.empty =
      (\<lambda>k. if k \<in> set ?ids then Some (statusOf results k) else None)"
    unfolding content splitOn_lines [OF nl]
    by (simp add: fold_recordLine_header fold_recordLine_entries [OF ids] recordLine_blank)
  also have "\<dots> = snapshot results"
    using snapshot_ids [OF gm] by (auto simp: fun_eq_iff)
  finally show ?thesis using assms(2) by (simp add: LoadExpectations_def)
qed

section \<open>Drift\<close>

definition expected :: "expectations \<Rightarrow> string \<Rightarrow> string" where
  "expected exp k = (case exp k of None \<Rightarrow> ''pass'' | Some s \<Rightarrow> s)"

lemma changeOf_Some:
  "changeOf exp (k, r) = Some c \<longleftrightarrow>
   rStatus r \<noteq> expected exp k \<and> c = \<lparr>chID = k, chWant = expected exp k, chGot = rStatus r\<rparr>"
  by (auto simp: changeOf_def expected_def Let_def)

lemma set_changes:
  assumes "go_map results"
  shows "set (List.map_filter (changeOf exp) results) =
    {\<lparr>chID = k, chWant = expected exp k, chGot = rStatus r\<rparr> | k r.
       map_of results k = Some r \<and> rStatus r \<noteq> expected exp k}"
  unfolding go_map_lookup [OF assms] set_List_map_filter by (force simp: changeOf_Some)






definition exampleResults :: results where
  "exampleResults =
     [(''b#strict'', \<lparr>rID = ''b#strict'', rStatus = ''fail'', rError = ''boom'', rTailKey = []\<rparr>),
      (''a#sloppy'', \<lparr>rID = ''a#sloppy'', rStatus = ''pass'', rError = [], rTailKey = []\<rparr>),
      (''a#strict'', \<lparr>rID = ''a#strict'', rStatus = ''handback'', rError = ''no eval'', rTailKey = []\<rparr>)]"

lemma exampleResults_clean: "clean_results exampleResults"
proof -
  have "recordable k" if "k = ''b#strict'' \<or> k = ''a#sloppy'' \<or> k = ''a#strict''" for k
    using that by (auto simp: recordable_def spaceRunes_def HasSuffix_def)
  moreover have "cleanStatus s" if "s = ''pass'' \<or> s = ''fail'' \<or> s = ''handback''" for s
    using that by (auto simp: cleanStatus_def spaceRunes_def HasPrefix_def)
  ultimately show ?thesis by (simp add: clean_results_def exampleResults_def go_map_def)
qed

section \<open>Properties of the snapshot\<close>

text \<open>C20. The snapshot file round trips: loading what a run wrote gives back exactly the statuses of its
  non-passing jobs, and the bytes written do not depend on the order the results map is visited
  in.\<close>

theorem expectations_roundtrip:
  assumes "clean_results results" "same_map results results'"
    and "readFile fs path = FileData (WriteExpectations results')"
  shows "LoadExpectations fs path = Inr (snapshot results) \<and> WriteExpectations results' = WriteExpectations results"
proof -
  have "map_of results' = map_of results" using same_map_lookup [OF assms(2)] by simp
  then have "statusOf results' = statusOf results" by (simp add: statusOf_def fun_eq_iff)
  moreover have "mset (map fst (filter P results')) = mset (map fst (filter P results))" for P
    using same_map_mset [OF assms(2)] by (metis mset_filter mset_map)
  then have "sortStrings (map fst (filter P results')) = sortStrings (map fst (filter P results))" for P
    by (rule sortStrings_order_free)
  ultimately have w: "WriteExpectations results' = WriteExpectations results"
    by (simp add: WriteExpectations_def)
  with load_write [OF assms(1)] assms(3) show ?thesis by simp
qed

theorem expectations_roundtrip_witness:
  "LoadExpectations [(''e.txt'', FileData (WriteExpectations (rev exampleResults)))] ''e.txt''
     = Inr (snapshot exampleResults)"
proof (rule expectations_roundtrip [THEN conjunct1])
  show "clean_results exampleResults" by (rule exampleResults_clean)
  show "same_map exampleResults (rev exampleResults)"
    using exampleResults_clean by (simp add: clean_results_def same_map_rev)
qed (simp add: readFile_def)

text \<open>The gate is a golden file: a run compared with the snapshot it wrote itself shows no drift in
  either direction.\<close>

theorem diff_own_snapshot:
  assumes "clean_results results" "readFile fs path = FileData (WriteExpectations results)"
    and "LoadExpectations fs path = Inr exp"
  shows "Diff results exp = ([], [])"
proof -
  have gm: "go_map results" using assms(1) by (simp add: clean_results_def)
  have e: "exp = snapshot results" using load_write [OF assms(1,2)] assms(3) by simp
  have "set (List.map_filter (changeOf exp) results) = {}"
    unfolding set_changes [OF gm] by (auto simp: e expected_def snapshot_def)
  then show ?thesis by (simp add: Diff_def sortSlice_def)
qed

theorem diff_own_snapshot_witness: "Diff exampleResults (snapshot exampleResults) = ([], [])"
proof (rule diff_own_snapshot [OF exampleResults_clean])
  show "readFile [(''e.txt'', FileData (WriteExpectations exampleResults))] ''e.txt'' =
      FileData (WriteExpectations exampleResults)" by (simp add: readFile_def)
  then show "LoadExpectations [(''e.txt'', FileData (WriteExpectations exampleResults))] ''e.txt'' =
      Inr (snapshot exampleResults)" by (rule load_write [OF exampleResults_clean])
qed



text \<open>The comparison only looks at the jobs that ran: an expectation for a job that no longer exists
  is never reported, whatever it says, so this drift does not turn the gate red.\<close>

theorem diff_ignores_absent:
  assumes "map_of results k = None"
  shows "Diff results (exp(k := v)) = Diff results exp"
proof -
  have "k \<notin> fst ` set results" using assms by (simp add: map_of_eq_None_iff)
  then have "List.map_filter (changeOf (exp(k := v))) results = List.map_filter (changeOf exp) results"
    by (intro List_map_filter_cong) (force simp: changeOf_def)
  then show ?thesis by (simp add: Diff_def)
qed

theorem diff_ignores_absent_witness:
  "Diff exampleResults ((snapshot exampleResults)(''gone#strict'' := Some ''fail'')) =
   Diff exampleResults (snapshot exampleResults)"
  by (rule diff_ignores_absent) (simp add: exampleResults_def)

section \<open>Properties of the summaries\<close>

text \<open>A tally as counts over the results it stands for; a status the tally does not name is a crash.\<close>

definition countStatus :: "(string \<Rightarrow> bool) \<Rightarrow> results \<Rightarrow> nat" where
  "countStatus P rs = length (filter (\<lambda>(k, r). P (rStatus r)) rs)"

definition statusTally :: "results \<Rightarrow> tallyCount" where
  "statusTally rs =
     \<lparr>nPass = countStatus (\<lambda>s. s = ''pass'') rs, nFail = countStatus (\<lambda>s. s = ''fail'') rs,
      nHandback = countStatus (\<lambda>s. s = ''handback'') rs,
      nCrash = countStatus (\<lambda>s. s \<notin> {''pass'', ''fail'', ''handback'', ''timeout''}) rs,
      nTimeout = countStatus (\<lambda>s. s = ''timeout'') rs\<rparr>"

definition inArea :: "string \<Rightarrow> results \<Rightarrow> results" where
  "inArea a = filter (\<lambda>(k, r). areaOf k = a)"

lemma bump_tally: "bump (rStatus r) (statusTally rs) = statusTally ((k, r) # rs)"
  by (simp add: bump_def statusTally_def countStatus_def)

lemma statusTally_Nil: "statusTally [] = zeroTally"
  by (simp add: statusTally_def countStatus_def zeroTally_def)

lemma statusTally_mset: "mset rs = mset rs' \<Longrightarrow> statusTally rs = statusTally rs'"
proof -
  assume "mset rs = mset rs'"
  then have "countStatus P rs = countStatus P rs'" for P
    unfolding countStatus_def by (metis mset_filter size_mset)
  then show ?thesis by (simp add: statusTally_def)
qed

lemma tallyRun_statusTally: "tallyRun (statusTally rs) = length rs"
  by (induction rs) (auto simp: tallyRun_def statusTally_def countStatus_def)

text \<open>Tallies add up, column by column.\<close>

instantiation unit :: comm_monoid_add
begin

definition zero_unit :: unit where "zero_unit = ()"

definition plus_unit :: "unit \<Rightarrow> unit \<Rightarrow> unit" where "plus_unit t u = ()"

instance by standard simp_all

end

instantiation tallyCount_ext :: (comm_monoid_add) comm_monoid_add
begin

definition zero_tallyCount_ext :: "'a tallyCount_scheme" where
  "zero_tallyCount_ext = \<lparr>nPass = 0, nFail = 0, nHandback = 0, nCrash = 0, nTimeout = 0, \<dots> = 0\<rparr>"

definition plus_tallyCount_ext :: "'a tallyCount_scheme \<Rightarrow> 'a tallyCount_scheme \<Rightarrow> 'a tallyCount_scheme" where
  "plus_tallyCount_ext t u =
     \<lparr>nPass = nPass t + nPass u, nFail = nFail t + nFail u, nHandback = nHandback t + nHandback u,
      nCrash = nCrash t + nCrash u, nTimeout = nTimeout t + nTimeout u,
      \<dots> = tallyCount.more t + tallyCount.more u\<rparr>"

instance by standard (simp_all add: zero_tallyCount_ext_def plus_tallyCount_ext_def ac_simps)

end

lemma statusTally_zero: "statusTally [] = 0"
  by (simp add: statusTally_def countStatus_def zero_tallyCount_ext_def)

lemma statusTally_Cons: "statusTally (x # rs) = statusTally [x] + statusTally rs"
  by (cases x) (simp add: statusTally_def countStatus_def plus_tallyCount_ext_def)

lemma sum_areas:
  assumes "finite A" "areaOf ` fst ` set rs \<subseteq> A"
  shows "(\<Sum>a \<in> A. statusTally (inArea a rs)) = statusTally rs"
  using assms(2)
proof (induction rs)
  case Nil
  then show ?case by (simp add: inArea_def statusTally_zero)
next
  case (Cons x rs)
  have "statusTally (inArea a (x # rs)) = (if a = areaOf (fst x) then statusTally [x] else 0) + statusTally (inArea a rs)" for a
  proof (cases "a = areaOf (fst x)")
    case True
    then have "inArea a (x # rs) = x # inArea a rs" by (cases x) (simp add: inArea_def)
    with True statusTally_Cons [of x "inArea a rs"] show ?thesis by simp
  next
    case False
    then show ?thesis by (cases x) (simp add: inArea_def)
  qed
  then have "(\<Sum>a \<in> A. statusTally (inArea a (x # rs))) = statusTally [x] + (\<Sum>a \<in> A. statusTally (inArea a rs))"
    using assms(1) Cons.prems by (simp add: sum.distrib sum.delta)
  with Cons statusTally_Cons [of x rs] show ?case by simp
qed

lemma fold_bumpArea:
  "(\<And>a. areaTally areas a = statusTally (inArea a before)) \<Longrightarrow> tot = statusTally before \<Longrightarrow>
   (\<forall>a. areaTally (fst (fold bumpArea rs (areas, tot))) a = statusTally (inArea a (rev rs @ before))) \<and>
   snd (fold bumpArea rs (areas, tot)) = statusTally (rev rs @ before)"
proof (induction rs arbitrary: areas tot before)
  case (Cons x rs)
  obtain k r where x: "x = (k, r)" by fastforce
  have step: "bumpArea x (areas, tot) =
      (areas(areaOf k \<mapsto> bump (rStatus r) (areaTally areas (areaOf k))), bump (rStatus r) tot)"
    by (simp add: x bumpArea_def areaTally_def Let_def)
  let ?areas = "areas(areaOf k \<mapsto> bump (rStatus r) (areaTally areas (areaOf k)))"
  have "areaTally ?areas a = (if a = areaOf k then bump (rStatus r) (areaTally areas a) else areaTally areas a)" for a
    by (simp add: areaTally_def)
  then have a: "areaTally ?areas a = statusTally (inArea a (x # before))" for a
    unfolding Cons.prems(1) by (simp add: inArea_def x bump_tally)
  have t: "bump (rStatus r) tot = statusTally (x # before)" by (simp add: Cons.prems(2) x bump_tally)
  show ?case unfolding fold_simps step rev.simps append_assoc append.simps by (rule Cons.IH [OF a t])
qed simp

lemma Summarize_tallies:
  "Summarize names results =
     concat (map (\<lambda>a. printTally a (statusTally (inArea a results))) (sortStrings names)) @
     printTally ''TOTAL'' (statusTally results)"
proof -
  have "(\<forall>a. areaTally (fst (fold bumpArea results (Map.empty, zeroTally))) a = statusTally (inArea a (rev results @ []))) \<and>
      snd (fold bumpArea results (Map.empty, zeroTally)) = statusTally (rev results @ [])"
    by (rule fold_bumpArea) (simp_all add: areaTally_def inArea_def statusTally_Nil)
  moreover have "statusTally (inArea a (rev results)) = statusTally (inArea a results)" for a
    by (rule statusTally_mset) (simp add: inArea_def rev_filter [symmetric])
  moreover have "statusTally (rev results) = statusTally results" by (rule statusTally_mset) simp
  ultimately show ?thesis
    by (simp add: Summarize_def Let_def case_prod_beta')
qed

text \<open>C30. The summary is exact and reproducible: one line for each area that has jobs, in order, with
  the number of jobs of each status in it, and a total, which is the sum of the lines above it in
  every column and counts every job once.\<close>

theorem summary_exact:
  assumes "same_map results results'" "distinct names" "set names = areaOf ` fst ` set results"
    and "distinct names'" "set names' = set names"
  shows "Summarize names results = Summarize names' results' \<and>
    Summarize names results =
      map (\<lambda>a. (a, statusTally (inArea a results))) (sortStrings names) @
      (if results = [] then [] else [(''TOTAL'', statusTally results)]) \<and>
    (\<Sum>a \<leftarrow> names. statusTally (inArea a results)) = statusTally results \<and>
    tallyRun (statusTally results) = length results"
proof (intro conjI)
  have mr: "mset results = mset results'" by (rule same_map_mset [OF assms(1)])
  have "mset names = mset names'" using assms(2,4,5) by (metis set_eq_iff_mset_eq_distinct)
  then have n: "sortStrings names = sortStrings names'" by (rule sortStrings_order_free)
  have t: "statusTally (inArea a results) = statusTally (inArea a results')" for a
    using mr unfolding inArea_def by (intro statusTally_mset) (metis mset_filter)
  show "Summarize names results = Summarize names' results'"
    by (simp add: Summarize_tallies n t statusTally_mset [OF mr])
  have "inArea a results \<noteq> []" if "a \<in> set (sortStrings names)" for a
    using that assms(3) by (force simp: inArea_def filter_empty_conv)
  then have "map (\<lambda>a. printTally a (statusTally (inArea a results))) (sortStrings names) =
      map (\<lambda>a. [(a, statusTally (inArea a results))]) (sortStrings names)"
    by (intro map_cong) (simp_all add: printTally_def tallyRun_statusTally)
  then have "concat (map (\<lambda>a. printTally a (statusTally (inArea a results))) (sortStrings names)) =
      map (\<lambda>a. (a, statusTally (inArea a results))) (sortStrings names)"
    by (simp only: concat_map_singleton)
  then show "Summarize names results =
      map (\<lambda>a. (a, statusTally (inArea a results))) (sortStrings names) @
      (if results = [] then [] else [(''TOTAL'', statusTally results)])"
    unfolding Summarize_tallies by (simp add: printTally_def [of "''TOTAL''"] tallyRun_statusTally)
  show "(\<Sum>a \<leftarrow> names. statusTally (inArea a results)) = statusTally results"
    using sum_areas [of "set names" results] assms(2,3) by (simp add: sum_list_distinct_conv_sum_set)
qed (rule tallyRun_statusTally)

theorem summary_exact_witness:
  "Summarize [''a#strict'', ''b#strict'', ''a#sloppy''] exampleResults =
   Summarize [''b#strict'', ''a#sloppy'', ''a#strict''] (rev exampleResults)"
proof (rule summary_exact [THEN conjunct1])
  show "same_map exampleResults (rev exampleResults)"
    using exampleResults_clean by (simp add: clean_results_def same_map_rev)
  have "areaOf ''a#strict'' = ''a#strict''" "areaOf ''b#strict'' = ''b#strict''" "areaOf ''a#sloppy'' = ''a#sloppy''"
    by code_simp+
  then show "set [''a#strict'', ''b#strict'', ''a#sloppy''] = areaOf ` fst ` set exampleResults"
    by (auto simp: exampleResults_def)
qed auto

section \<open>Reasons\<close>

definition sharing :: "results \<Rightarrow> string \<Rightarrow> string \<Rightarrow> nat" where
  "sharing results status reason =
     length (filter (\<lambda>(k, r). rStatus r = status \<and> reasonOf r = reason) results)"

lemma reasonCounts_sharing: "lookupCount (reasonCounts results status) reason = sharing results status reason"
proof -
  let ?f = "\<lambda>(k, r) counts.
        if rStatus r \<noteq> status then counts
        else counts(reasonOf r \<mapsto> lookupCount counts (reasonOf r) + 1)"
  have "lookupCount (fold ?f rs counts) reason = lookupCount counts reason + sharing rs status reason" for rs counts
  proof (induction rs arbitrary: counts)
    case (Cons x rs)
    have "lookupCount (?f x counts) reason = lookupCount counts reason + sharing [x] status reason"
      by (cases x) (auto simp: lookupCount_def sharing_def)
    with Cons show ?case by (cases x) (simp add: sharing_def)
  qed (simp add: sharing_def)
  from this [of results Map.empty] show ?thesis
    unfolding reasonCounts_def by (simp add: lookupCount_def [of Map.empty])
qed

lemma TopReasons_sharing:
  "TopReasons reasons results status n =
     take n (sortSlice reasonLess (map (\<lambda>reason. \<lparr>rcReason = reason, rcCount = sharing results status reason\<rparr>) reasons))"
  unfolding reasonCounts_sharing [symmetric] by (simp add: TopReasons_def Let_def)

lemma ordering_reason: "ordering_less reasonLess"
  by (auto simp: ordering_less_def reasonLess_def split: if_splits)

lemma separates_reason: "distinct (map rcReason rs) \<Longrightarrow> separates reasonLess rs"
  unfolding separates_def reasonLess_def distinct_map inj_on_def by (metis linorder_neqE)

text \<open>The work order is exact and reproducible: each listed reason comes with the number of jobs of
  the status that share it, at most \<open>n\<close> are listed, and a reason that is left out is shared by no
  more jobs than any that is listed.\<close>

theorem top_reasons_biggest:
  assumes "same_map results results'" "distinct reasons" "distinct reasons'" "set reasons' = set reasons"
    and "set reasons = reasonOf ` {r \<in> snd ` set results. rStatus r = status}"
  shows "TopReasons reasons results status n = TopReasons reasons' results' status n \<and>
    length (TopReasons reasons results status n) = min n (length reasons) \<and>
    TopReasons reasons results status n =
      map (\<lambda>rc. \<lparr>rcReason = rcReason rc, rcCount = sharing results status (rcReason rc)\<rparr>)
          (TopReasons reasons results status n) \<and>
    (\<forall>reason \<in> set reasons - rcReason ` set (TopReasons reasons results status n).
       \<forall>rc \<in> set (TopReasons reasons results status n). sharing results status reason \<le> rcCount rc)"
proof -
  let ?rc = "\<lambda>reason. \<lparr>rcReason = reason, rcCount = sharing results status reason\<rparr>"
  let ?out = "sortSlice reasonLess (map ?rc reasons)"
  have "length (filter P results') = length (filter P results)" for P
    using same_map_mset [OF assms(1)] by (metis mset_filter size_mset)
  then have sh: "sharing results' status = sharing results status"
    unfolding sharing_def by (intro ext) blast
  have "mset reasons = mset reasons'" using assms(2,3,4) by (metis set_eq_iff_mset_eq_distinct)
  then have "mset (map ?rc reasons) = mset (map ?rc reasons')" by simp
  moreover have "separates reasonLess (map ?rc reasons)"
    using assms(2) by (intro separates_reason) (simp add: o_def)
  ultimately have eq: "?out = sortSlice reasonLess (map ?rc reasons')"
    by (intro slice.srt_order_free ordering_reason)
  have top: "TopReasons reasons results status n = take n ?out" by (simp add: TopReasons_sharing)
  have mem: "?rc (rcReason rc) = rc" if "rc \<in> set ?out" for rc
    using that by auto
  have "map (\<lambda>rc. ?rc (rcReason rc)) (take n ?out) = take n ?out"
    by (rule map_idI) (blast intro: mem in_set_takeD)
  then have self: "take n ?out = map (\<lambda>rc. ?rc (rcReason rc)) (take n ?out)" by (rule sym)
  have most: "sharing results status reason \<le> rcCount rc"
    if "reason \<in> set reasons" "reason \<notin> rcReason ` set (take n ?out)" "rc \<in> set (take n ?out)" for reason rc
  proof -
    have "?rc reason \<in> set ?out" using that(1) by simp
    moreover have "?rc reason \<notin> set (take n ?out)" using that(2) by force
    moreover have "set ?out = set (take n ?out) \<union> set (drop n ?out)" by (metis append_take_drop_id set_append)
    ultimately have "?rc reason \<in> set (drop n ?out)" by blast
    from slice.srt_prefix_le [OF ordering_reason that(3) this] show ?thesis
      by (auto simp: reasonLess_def split: if_splits)
  qed
  have same: "TopReasons reasons' results' status n = take n ?out"
    unfolding TopReasons_sharing sh eq ..
  have len: "length (take n ?out) = min n (length reasons)" by simp
  show ?thesis unfolding top
  proof (intro conjI ballI)
    show "take n ?out = TopReasons reasons' results' status n" by (rule same [symmetric])
  qed (rule len, rule self, rule most, auto)
qed

theorem top_reasons_biggest_witness:
  "TopReasons [''no eval''] exampleResults ''handback'' 8 =
   TopReasons [''no eval''] (rev exampleResults) ''handback'' 8"
proof (rule top_reasons_biggest [THEN conjunct1])
  show "same_map exampleResults (rev exampleResults)"
    using exampleResults_clean by (simp add: clean_results_def same_map_rev)
  have "{r \<in> snd ` set exampleResults. rStatus r = ''handback''} =
      {\<lparr>rID = ''a#strict'', rStatus = ''handback'', rError = ''no eval'', rTailKey = []\<rparr>}"
    by (auto simp: exampleResults_def)
  then show "set [''no eval''] = reasonOf ` {r \<in> snd ` set exampleResults. rStatus r = ''handback''}"
    by (simp add: reasonOf_def)
qed simp_all

end
