(* ===== verification/Janitor.thy ===== *)
theory Janitor
  imports GoPath GoSort "HOL-Library.Word"
begin

text \<open>
  \<open>pkg/tc39/cachejanitor.go\<close>: what the janitor counts, trims and sweeps in the Go build cache. A walk of
  the cache is the list of what the \<open>WalkDir\<close> callback is given, in order; the outcome of removing a
  file is a parameter. Sizes and sums are 64-bit words, as in the code; times are nanoseconds.
\<close>

section \<open>Cache entries\<close>

definition hexDigit :: "char \<Rightarrow> bool" where
  "hexDigit c \<longleftrightarrow> (CHR ''0'' \<le> c \<and> c \<le> CHR ''9'') \<or> (CHR ''a'' \<le> c \<and> c \<le> CHR ''f'')"

definition isHexByte :: "string \<Rightarrow> bool" where
  "isHexByte s \<longleftrightarrow> (if length s \<noteq> 2 then False else list_all hexDigit s)"

definition isCacheEntry :: "string \<Rightarrow> string \<Rightarrow> bool" where
  "isCacheEntry root path \<longleftrightarrow>
     (case relPath root path of
        None \<Rightarrow> False
      | Some rel \<Rightarrow>
          (let dir = dirPath rel in
           if dirPath dir \<noteq> ''.'' then False else length dir = 2 \<and> isHexByte dir))"

section \<open>Walks\<close>

datatype file_info = Info "64 word" int | InfoGone | InfoBroken string

text \<open>The callback is given an error (not-exist or another), a directory, or a file.\<close>

datatype walk_item = WalkGone | WalkBroken string | ADir string | AFile string file_info

record cacheItem =
  ciPath :: string
  ciSize :: "64 word"
  ciModTime :: int

text \<open>The walk \<open>goBuildCacheBytes\<close> and \<open>trimGoBuildCache\<close> share; \<open>Inl\<close> is the error that ends it.\<close>

fun cacheItems :: "string \<Rightarrow> walk_item list \<Rightarrow> string + cacheItem list" where
  "cacheItems dir [] = Inr []"
| "cacheItems dir (item # items) =
     (let rest = cacheItems dir items in
      case item of
        WalkGone \<Rightarrow> rest
      | WalkBroken e \<Rightarrow> Inl e
      | ADir p \<Rightarrow> rest
      | AFile p info \<Rightarrow>
          (if \<not> isCacheEntry dir p then rest
           else case info of
               InfoGone \<Rightarrow> rest
             | InfoBroken e \<Rightarrow> Inl e
             | Info sz t \<Rightarrow>
                 (case rest of
                    Inl e \<Rightarrow> Inl e
                  | Inr is \<Rightarrow> Inr (\<lparr>ciPath = p, ciSize = sz, ciModTime = t\<rparr> # is))))"

definition totalSize :: "cacheItem list \<Rightarrow> 64 word" where
  "totalSize is = fold (\<lambda>i tot. tot + ciSize i) is 0"

definition goBuildCacheBytes :: "string \<Rightarrow> walk_item list \<Rightarrow> string + 64 word" where
  "goBuildCacheBytes dir items =
     (case cacheItems dir items of Inl e \<Rightarrow> Inl e | Inr is \<Rightarrow> Inr (totalSize is))"

section \<open>Trimming\<close>

datatype remove_outcome = Removed | RemoveGone | RemoveBroken string

definition olderItem :: "cacheItem \<Rightarrow> cacheItem \<Rightarrow> bool" where
  "olderItem i k \<longleftrightarrow> ciModTime i < ciModTime k"

text \<open>The bytes reclaimed, the error that ended the loop, and the entries removed.\<close>

fun trimLoop ::
  "(string \<Rightarrow> remove_outcome) \<Rightarrow> 64 word \<Rightarrow> 64 word \<Rightarrow> 64 word \<Rightarrow> cacheItem list \<Rightarrow>
   64 word \<times> string option \<times> cacheItem list" where
  "trimLoop remove target tot reclaimed [] = (reclaimed, None, [])"
| "trimLoop remove target tot reclaimed (i # is) =
     (if tot - reclaimed \<le> target then (reclaimed, None, [])
      else case remove (ciPath i) of
          RemoveGone \<Rightarrow> trimLoop remove target tot reclaimed is
        | RemoveBroken e \<Rightarrow> (reclaimed, Some e, [])
        | Removed \<Rightarrow>
            (let (r, err, gone) = trimLoop remove target tot (reclaimed + ciSize i) is
             in (r, err, i # gone)))"

definition trimGoBuildCache ::
  "(string \<Rightarrow> remove_outcome) \<Rightarrow> string \<Rightarrow> walk_item list \<Rightarrow> 64 word \<Rightarrow> 64 word \<times> string option \<times> cacheItem list" where
  "trimGoBuildCache remove dir items target =
     (case cacheItems dir items of
        Inl e \<Rightarrow> (0, Some e, [])
      | Inr is \<Rightarrow>
          (let tot = totalSize is in
           if tot \<le> target then (0, None, [])
           else trimLoop remove target tot 0 (sortSlice olderItem is)))"

text \<open>The target \<open>watchCache\<close> trims to, and one trim of it: nothing to do, or what it removes.\<close>

definition trimTarget :: "64 word \<Rightarrow> 64 word" where
  "trimTarget maxBytes = maxBytes - maxBytes div 4"

definition watchTrim ::
  "(string \<Rightarrow> remove_outcome) \<Rightarrow> string \<Rightarrow> 64 word \<Rightarrow> walk_item list \<Rightarrow> walk_item list \<Rightarrow> cacheItem list" where
  "watchTrim remove dir maxBytes before items =
     (case goBuildCacheBytes dir before of
        Inl e \<Rightarrow> []
      | Inr sz \<Rightarrow>
          if sz \<le> maxBytes then []
          else snd (snd (trimGoBuildCache remove dir items (trimTarget maxBytes))))"

section \<open>Pinning to the baseline\<close>

fun SnapshotCacheEntries :: "string \<Rightarrow> walk_item list \<Rightarrow> string + string set" where
  "SnapshotCacheEntries dir [] = Inr {}"
| "SnapshotCacheEntries dir (item # items) =
     (case item of
        WalkBroken e \<Rightarrow> Inl e
      | AFile p info \<Rightarrow>
          (case SnapshotCacheEntries dir items of
             Inl e \<Rightarrow> Inl e
           | Inr ps \<Rightarrow> Inr (if isCacheEntry dir p then insert p ps else ps))
      | _ \<Rightarrow> SnapshotCacheEntries dir items)"

text \<open>The bytes reclaimed, the error that ended the walk, and the entries removed.\<close>

fun pinWalk ::
  "(string \<Rightarrow> remove_outcome) \<Rightarrow> string \<Rightarrow> string set \<Rightarrow> int \<Rightarrow> 64 word \<Rightarrow> walk_item list \<Rightarrow>
   64 word \<times> string option \<times> cacheItem list" where
  "pinWalk remove dir baseline cutoff reclaimed [] = (reclaimed, None, [])"
| "pinWalk remove dir baseline cutoff reclaimed (item # items) =
     (case item of
        WalkGone \<Rightarrow> pinWalk remove dir baseline cutoff reclaimed items
      | WalkBroken e \<Rightarrow> (reclaimed, Some e, [])
      | ADir p \<Rightarrow> pinWalk remove dir baseline cutoff reclaimed items
      | AFile p info \<Rightarrow>
          (if \<not> isCacheEntry dir p \<or> p \<in> baseline then pinWalk remove dir baseline cutoff reclaimed items
           else case info of
               InfoGone \<Rightarrow> pinWalk remove dir baseline cutoff reclaimed items
             | InfoBroken e \<Rightarrow> (reclaimed, Some e, [])
             | Info sz t \<Rightarrow>
                 (if \<not> t < cutoff then pinWalk remove dir baseline cutoff reclaimed items
                  else case remove p of
                      RemoveGone \<Rightarrow> pinWalk remove dir baseline cutoff reclaimed items
                    | RemoveBroken e \<Rightarrow> (reclaimed, Some e, [])
                    | Removed \<Rightarrow>
                        (let (r, err, gone) = pinWalk remove dir baseline cutoff (reclaimed + sz) items
                         in (r, err, \<lparr>ciPath = p, ciSize = sz, ciModTime = t\<rparr> # gone)))))"

definition pinToBaseline ::
  "(string \<Rightarrow> remove_outcome) \<Rightarrow> string \<Rightarrow> string set \<Rightarrow> int \<Rightarrow> walk_item list \<Rightarrow> 64 word \<times> string option \<times> cacheItem list" where
  "pinToBaseline remove dir baseline cutoff items = pinWalk remove dir baseline cutoff 0 items"

text \<open>The cutoff of a sweep of \<open>watchCachePinned\<close>: now, or the start of the oldest running job if earlier.
  \<open>None\<close> is the zero time.\<close>

definition sweepCutoff :: "int \<Rightarrow> int option \<Rightarrow> int" where
  "sweepCutoff now oldest =
     (case oldest of None \<Rightarrow> now | Some t \<Rightarrow> if t < now then t else now)"

section \<open>The watches\<close>

text \<open>What one sweep meets: the clock, the oldest running job it reads, and how removals turn out.\<close>

record beat =
  btNow :: int
  btOldest :: "int option"
  btRemove :: "string \<Rightarrow> remove_outcome"

definition pinSweep ::
  "string \<Rightarrow> string set \<Rightarrow> beat \<Rightarrow> walk_item list \<Rightarrow> 64 word \<times> string option \<times> cacheItem list" where
  "pinSweep dir baseline b items =
     pinToBaseline (btRemove b) dir baseline (sweepCutoff (btNow b) (btOldest b)) items"

text \<open>\<open>watchCachePinned\<close>: a sweep at every tick, and \<open>last\<close> is the one it makes when it is stopped.\<close>

definition watchCachePinned ::
  "string \<Rightarrow> string set \<Rightarrow> (beat \<times> walk_item list) list \<Rightarrow> beat \<times> walk_item list \<Rightarrow>
   (64 word \<times> string option \<times> cacheItem list) list" where
  "watchCachePinned dir baseline ticks stopped =
     (if dir = [] \<or> baseline = {} then []
      else map (\<lambda>(b, items). pinSweep dir baseline b items) (ticks @ [stopped]))"

text \<open>\<open>watchCache\<close>: one trim up front and one at every tick; each reads the size and then walks again.\<close>

definition watchCache ::
  "string \<Rightarrow> 64 word \<Rightarrow> (string \<Rightarrow> remove_outcome) \<times> walk_item list \<times> walk_item list \<Rightarrow>
   ((string \<Rightarrow> remove_outcome) \<times> walk_item list \<times> walk_item list) list \<Rightarrow> cacheItem list list" where
  "watchCache dir maxBytes up_front ticks =
     (if dir = [] \<or> maxBytes = 0 then []
      else map (\<lambda>(remove, before, items). watchTrim remove dir maxBytes before items) (up_front # ticks))"

text \<open>The files of a build cache (path, size, modification time), as a walk meets them, and what builds and
  sweeps do to them: a build writes or rewrites a file, a sweep drops what it removed.\<close>

type_synonym cache_files = "(string \<times> 64 word \<times> int) list"

definition walkOf :: "cache_files \<Rightarrow> walk_item list" where
  "walkOf files = map (\<lambda>(p, sz, t). AFile p (Info sz t)) files"

datatype cache_event = Wrote string "64 word" int | Swept beat

fun afterEvent :: "string \<Rightarrow> string set \<Rightarrow> cache_event \<Rightarrow> cache_files \<Rightarrow> cache_files" where
  "afterEvent dir baseline (Wrote p sz t) files = (p, sz, t) # filter (\<lambda>(q, _). q \<noteq> p) files"
| "afterEvent dir baseline (Swept b) files =
     (let (r, err, gone) = pinSweep dir baseline b (walkOf files)
      in filter (\<lambda>(p, _). p \<notin> ciPath ` set gone) files)"

end
