(* ===== verification/Cache.thy ===== *)
theory Cache
  imports Outcome GoSort
begin

text \<open>
  \<open>pkg/tc39/cache.go\<close> and the key of \<open>tailcache.go\<close>: the results cache, in memory and on disk. The
  digest \<open>sha\<close> and the text of an entry are arguments here, given by theories \<open>Sha256\<close> and \<open>Wire\<close>; the lemmas
  about keys are about what is digested, and those about files state what they need of the text.
  A write to the append stream can be cut short: its outcome is a parameter of the operation.
\<close>

section \<open>Keys\<close>

definition jobPreimage :: "job \<Rightarrow> string \<Rightarrow> string" where
  "jobPreimage j bentoVersion =
     bentoVersion @ [NUL] @ jID j @ [NUL] @ jNegType j @ [NUL] @ jNegPhase j @ [NUL] @
     (if jAsync j then [CHR 0x01] else []) @ [NUL] @ jSource j"

definition JobKey :: "(string \<Rightarrow> string) \<Rightarrow> job \<Rightarrow> string \<Rightarrow> string" where
  "JobKey sha j bentoVersion = sha (jobPreimage j bentoVersion)"

definition tailPreimage :: "string \<Rightarrow> string \<Rightarrow> job \<Rightarrow> string" where
  "tailPreimage goSrc runtimeHash j =
     runtimeHash @ [NUL] @ jNegType j @ [NUL] @ jNegPhase j @ [NUL] @
     (if jAsync j then [CHR 0x01] else []) @ [NUL] @ goSrc"

definition TailKey :: "(string \<Rightarrow> string) \<Rightarrow> string \<Rightarrow> string \<Rightarrow> job \<Rightarrow> string" where
  "TailKey sha goSrc runtimeHash j = sha (tailPreimage goSrc runtimeHash j)"

section \<open>The cache\<close>

record cacheEntry =
  ceKey :: string
  ceStatus :: string
  ceError :: string

text \<open>
  The append stream is a buffered writer that is flushed at every entry; once a write fails the
  writer keeps that error and writes nothing more.
\<close>

datatype stream = Closed | Open | Failed goerror

record cache =
  ccPath :: string
  ccEntries :: "string \<rightharpoonup> cacheEntry"
  ccAdded :: nat
  ccStream :: stream

text \<open>How one write turns out: all of it, or an error after a number of bytes.\<close>

datatype write_outcome = WroteAll | WroteShort nat goerror

definition cacheLineLimit :: nat where "cacheLineLimit = 16 * 1024 * 1024"

definition addLine :: "(string \<Rightarrow> cacheEntry option) \<Rightarrow> string \<Rightarrow> (string \<rightharpoonup> cacheEntry) \<Rightarrow> string \<rightharpoonup> cacheEntry" where
  "addLine unmarshal line entries =
     (case unmarshal line of
        None \<Rightarrow> entries
      | Some e \<Rightarrow> if ceKey e \<noteq> [] then entries(ceKey e \<mapsto> e) else entries)"

definition emptyCache :: "string \<Rightarrow> cache" where
  "emptyCache path = \<lparr>ccPath = path, ccEntries = Map.empty, ccAdded = 0, ccStream = Closed\<rparr>"

text \<open>A line over the limit ends the scan; the cache read so far comes back with the error.\<close>

definition LoadCache ::
  "(string \<Rightarrow> cacheEntry option) \<Rightarrow> filesystem \<Rightarrow> string \<Rightarrow> cache option \<times> goerror option" where
  "LoadCache unmarshal fs path =
     (case readFile fs path of
        FileMissing \<Rightarrow> (Some (emptyCache path), None)
      | FileError e \<Rightarrow> (None, Some (OsError e))
      | FileData b \<Rightarrow>
          (let (lines, tooLong) = scanLines cacheLineLimit b
           in (Some ((emptyCache path)\<lparr>ccEntries := fold (addLine unmarshal) lines Map.empty\<rparr>),
               if tooLong then Some (Msg ''bufio.Scanner: token too long'') else None)))"

text \<open>\<open>opened\<close> is how making the directory and opening the file for append turn out.\<close>

definition BeginStream :: "goerror option \<Rightarrow> cache \<times> filesystem \<Rightarrow> goerror option \<times> cache \<times> filesystem" where
  "BeginStream opened st =
     (case opened of
        Some e \<Rightarrow> (Some e, st)
      | None \<Rightarrow> (None, (fst st)\<lparr>ccStream := Open\<rparr>, appendFile (snd st) (ccPath (fst st)) []))"

definition CloseStream :: "goerror option \<Rightarrow> cache \<Rightarrow> goerror option \<times> cache" where
  "CloseStream closed c =
     (case ccStream c of
        Closed \<Rightarrow> (None, c)
      | Open \<Rightarrow> (closed, c\<lparr>ccStream := Closed\<rparr>)
      | Failed e \<Rightarrow> (Some e, c\<lparr>ccStream := Closed\<rparr>))"

definition Get :: "cache \<Rightarrow> string \<Rightarrow> string \<Rightarrow> result option" where
  "Get c key jid =
     (case ccEntries c key of
        None \<Rightarrow> None
      | Some e \<Rightarrow> Some \<lparr>rID = jid, rStatus = ceStatus e, rError = ceError e, rTailKey = []\<rparr>)"

definition volatileStatus :: "string \<Rightarrow> bool" where
  "volatileStatus status \<longleftrightarrow> status = ''timeout'' \<or> status = ''crash''"

definition entryOf :: "string \<Rightarrow> result \<Rightarrow> cacheEntry" where
  "entryOf key r = \<lparr>ceKey = key, ceStatus = rStatus r, ceError = rError r\<rparr>"

text \<open>\<open>marshal\<close> may fail (\<open>None\<close>); then nothing is streamed.\<close>

definition Put ::
  "(cacheEntry \<Rightarrow> string option) \<Rightarrow> write_outcome \<Rightarrow> string \<Rightarrow> result \<Rightarrow> cache \<times> filesystem \<Rightarrow> cache \<times> filesystem" where
  "Put marshal outcome key r st =
     (let (c, fs) = st in
      if volatileStatus (rStatus r) then st
      else if ccEntries c key \<noteq> None then st
      else
        let e = entryOf key r;
            c' = c\<lparr>ccEntries := (ccEntries c)(key \<mapsto> e), ccAdded := ccAdded c + 1\<rparr>
        in case ccStream c of
             Open \<Rightarrow>
               (case marshal e of
                  None \<Rightarrow> (c', fs)
                | Some b \<Rightarrow>
                    (case outcome of
                       WroteAll \<Rightarrow> (c', appendFile fs (ccPath c) (b @ [NL]))
                     | WroteShort n err \<Rightarrow>
                         (c'\<lparr>ccStream := Failed err\<rparr>, appendFile fs (ccPath c) (take n (b @ [NL])))))
           | _ \<Rightarrow> (c', fs))"

text \<open>
  \<open>Save\<close> writes the entries to a temporary file in the order \<open>keys\<close> a \<open>range\<close> visits the map, then
  renames it. \<open>closed\<close>, \<open>tmpErr\<close> and \<open>renameErr\<close> are how closing the stream, the steps up to closing
  the temporary file, and the rename turn out; \<open>partial\<close> is what a failed step leaves in it.
\<close>

definition saveText :: "(cacheEntry \<Rightarrow> string option) \<Rightarrow> (string \<rightharpoonup> cacheEntry) \<Rightarrow> string list \<Rightarrow> string option" where
  "saveText marshal entries keys =
     (if \<exists>k \<in> set keys. Option.bind (entries k) marshal = None then None
      else Some (concat (map (\<lambda>k. the (Option.bind (entries k) marshal) @ [NL]) keys)))"

record save_outcome =
  soClosed :: "goerror option"
  soTmp :: "goerror option"
  soRename :: "goerror option"
  soPartial :: "string option"

text \<open>What a failed step leaves of the temporary file, which it may not even have created.\<close>

definition leavePartial :: "save_outcome \<Rightarrow> string \<Rightarrow> filesystem \<Rightarrow> filesystem" where
  "leavePartial out tmp fs = (case soPartial out of None \<Rightarrow> fs | Some b \<Rightarrow> writeFile fs tmp b)"

definition Save ::
  "(cacheEntry \<Rightarrow> string option) \<Rightarrow> save_outcome \<Rightarrow> string list \<Rightarrow> cache \<times> filesystem \<Rightarrow>
   goerror option \<times> cache \<times> filesystem" where
  "Save marshal out keys st =
     (let (err, c) = CloseStream (soClosed out) (fst st); fs = snd st; tmp = ccPath c @ ''.tmp'' in
      case err of
        Some e \<Rightarrow> (Some e, c, fs)
      | None \<Rightarrow>
          if ccAdded c = 0 then (None, c, fs)
          else case (soTmp out, saveText marshal (ccEntries c) keys) of
              (Some e, _) \<Rightarrow> (Some e, c, leavePartial out tmp fs)
            | (None, None) \<Rightarrow> (Some (Msg ''json: unsupported value''), c, leavePartial out tmp fs)
            | (None, Some b) \<Rightarrow>
                (case soRename out of
                   Some e \<Rightarrow> (Some e, c, writeFile fs tmp b)
                 | None \<Rightarrow> (None, c, removeFile (writeFile fs (ccPath c) b) tmp)))"

section \<open>Pruning old result files\<close>

record cacheFile =
  cfPath :: string
  cfModTime :: int

text \<open>
  One directory entry: its name, whether it is a directory, and its modification time if \<open>Info\<close>
  succeeds. \<open>toAbs\<close> is \<open>filepath.Abs\<close>.
\<close>

record dirEntry =
  deName :: string
  deIsDir :: bool
  deModTime :: "int option"

definition resultsFiles :: "string \<Rightarrow> dirEntry list \<Rightarrow> cacheFile list" where
  "resultsFiles dir entries =
     List.map_filter (\<lambda>e.
       if deIsDir e \<or> \<not> HasPrefix (deName e) ''results-'' \<or> \<not> HasSuffix (deName e) ''.ndjson'' then None
       else case deModTime e of
           None \<Rightarrow> None
         | Some t \<Rightarrow> Some \<lparr>cfPath = joinPath [dir, deName e], cfModTime = t\<rparr>) entries"

definition newerFile :: "cacheFile \<Rightarrow> cacheFile \<Rightarrow> bool" where
  "newerFile f g \<longleftrightarrow> cfModTime f > cfModTime g"

text \<open>The paths removed; \<open>entries\<close> is \<open>None\<close> when the directory cannot be read.\<close>

definition PruneResultsCaches ::
  "(string \<Rightarrow> string) \<Rightarrow> string \<Rightarrow> dirEntry list option \<Rightarrow> string \<Rightarrow> nat \<Rightarrow> string list" where
  "PruneResultsCaches toAbs dir entries keepPath keep =
     (case entries of
        None \<Rightarrow> []
      | Some es \<Rightarrow>
          (let files = resultsFiles dir es in
           if length files \<le> keep then []
           else map cfPath (filter (\<lambda>f. toAbs (cfPath f) \<noteq> toAbs keepPath)
                  (drop keep (sortSlice newerFile files)))))"

end
