(* ===== verification/Aot.thy ===== *)
theory Aot
  imports Cache
begin

text \<open>
  \<open>pkg/tc39/aot.go\<close> and the message helpers of \<open>worker.go\<close>: how one job becomes a verdict. The bento
  compiler (\<open>build.Compile\<close>), the Go toolchain, the compiled test and the operating system are
  parameters, gathered in \<open>aotEnv\<close>: each gives the outcome the code branches on. Directories are
  named by their resolved path; the set of those that exist is passed through, so that the deferred
  removals are part of the model.
\<close>

section \<open>Messages\<close>

text \<open>Only a newline ends the line; the cut at 300 bytes does not look for rune boundaries.\<close>

definition firstLine :: "string \<Rightarrow> string" where
  "firstLine s =
     (let l = (case Index s [NL] of Some i \<Rightarrow> take i s | None \<Rightarrow> s)
      in if length l > 300 then take 300 l else l)"

fun diagFrom :: "string list \<Rightarrow> string option" where
  "diagFrom [] = None"
| "diagFrom (raw # lines) =
     (let ln = TrimSpace raw in
      if Contains ln ''.go:'' then Some (if length ln > 300 then take 300 ln else ln)
      else diagFrom lines)"

definition diagLine :: "string \<Rightarrow> string" where
  "diagLine s = (case diagFrom (splitOn NL s) of Some ln \<Rightarrow> ln | None \<Rightarrow> firstLine s)"

text \<open>\<open>strings.ReplaceAll\<close> with a nonempty pattern and an empty replacement.\<close>

function removeAll_sub :: "string \<Rightarrow> string \<Rightarrow> string" where
  "removeAll_sub old s =
     (if old = [] then s
      else case Cut s old of
          None \<Rightarrow> s
        | Some (before, after) \<Rightarrow> before @ removeAll_sub old after)"
  by pat_completeness auto
termination
  by (relation "measure (\<lambda>(old, s). length s)") (auto dest!: Cut_Some)

declare removeAll_sub.simps [simp del]

fun errorText :: "goerror \<Rightarrow> string" where
  "errorText (UnportedInclude n) = ''include not ported: '' @ n"
| "errorText (HostContextFlag f) = ''host context flag not modeled: '' @ f"
| "errorText (OsError e) = e"
| "errorText (Msg m) = m"
| "errorText (Wrapped pre e) = pre @ '': '' @ errorText e"

section \<open>The environment\<close>

text \<open>
  What \<open>build.Compile\<close> makes of the staged files: the emitted Go, an error that is or wraps
  \<open>NotYetLowerable\<close>, another error, or a panic.
\<close>

datatype compile_outcome =
    Emitted string
  | NotYetLowerable string
  | Rejected string
  | Panics string

text \<open>A finished process: \<open>Run\<close>'s error, what it printed, and whether its deadline had passed.\<close>

record run_outcome =
  roErr :: "string option"
  roStdout :: string
  roStderr :: string
  roDeadline :: bool

record aotEnv =
  aeScratch :: "goerror + string"
  aeResolve :: "string \<Rightarrow> string option"
  aeMkdir :: "string \<Rightarrow> goerror option"
  aeWrite :: "string \<Rightarrow> goerror option"
  aeCompile :: "(string \<times> string) list \<Rightarrow> string \<Rightarrow> compile_outcome"
  aeGoBuild :: "string \<Rightarrow> string \<Rightarrow> run_outcome"
  aeRun :: "string \<Rightarrow> run_outcome"

section \<open>Building and judging\<close>

text \<open>\<open>Inl\<close> is the error text, \<open>Inr\<close> the path of the binary.\<close>

definition compileGo :: "aotEnv \<Rightarrow> string \<Rightarrow> string \<Rightarrow> string \<Rightarrow> string + string" where
  "compileGo env dir goSrc scratch =
     (case aeMkdir env dir of
        Some e \<Rightarrow> Inl (errorText e)
      | None \<Rightarrow>
          (case aeWrite env (joinPath [dir, ''main.go'']) of
             Some e \<Rightarrow> Inl (errorText e)
           | None \<Rightarrow>
               (let bin = joinPath [scratch, ''test262bin'']; out = aeGoBuild env dir goSrc in
                case roErr out of
                  None \<Rightarrow> Inr bin
                | Some err \<Rightarrow>
                    (let msg = TrimSpace (roStderr out) in Inl (if msg = [] then err else msg)))))"

definition asyncDone :: string where "asyncDone = ''Test262:AsyncTestComplete''"

definition verdict :: "job \<Rightarrow> string \<Rightarrow> string \<Rightarrow> result" where
  "verdict j status err = \<lparr>rID = jID j, rStatus = status, rError = err, rTailKey = []\<rparr>"

definition judgeRun :: "aotEnv \<Rightarrow> job \<Rightarrow> string \<Rightarrow> result" where
  "judgeRun env j bin =
     (let out = aeRun env bin in
      if roDeadline out then verdict j ''timeout'' []
      else if jNegType j \<noteq> [] then
        (let combined = roStdout out @ roStderr out in
         if roErr out = None then
           verdict j ''fail'' (''expected '' @ jNegType j @ '' during '' @ jNegPhase j @ '', exited clean'')
         else if \<not> Contains combined (jNegType j) then
           verdict j ''fail'' (''expected '' @ jNegType j @ '', got: '' @ firstLine (TrimSpace combined))
         else verdict j ''pass'' [])
      else case roErr out of
          Some err \<Rightarrow>
            (let msg = firstLine (TrimSpace (roStderr out))
             in verdict j ''fail'' (if msg = [] then err else msg))
        | None \<Rightarrow>
            if jAsync j \<and> \<not> Contains (roStdout out) asyncDone then
              verdict j ''fail'' (''async test exited without '' @ asyncDone)
            else verdict j ''pass'' [])"

section \<open>One job\<close>

text \<open>The Go is emitted: replay the tail cache, or build, run and judge.\<close>

definition judgeEmitted ::
  "(string \<Rightarrow> string) \<Rightarrow> aotEnv \<Rightarrow> cache option \<Rightarrow> string \<Rightarrow> string \<Rightarrow> string \<Rightarrow> string \<Rightarrow> job \<Rightarrow> result" where
  "judgeEmitted sha env tail runtimeHash goSrc buildDir scratch j =
     (let key = (if tail = None then [] else TailKey sha goSrc runtimeHash j) in
      case Option.bind tail (\<lambda>t. Get t key (jID j)) of
        Some hit \<Rightarrow> hit\<lparr>rTailKey := key\<rparr>
      | None \<Rightarrow>
          (case compileGo env buildDir goSrc scratch of
             Inl msg \<Rightarrow> (verdict j ''fail'' (''gobuild: '' @ diagLine msg))\<lparr>rTailKey := key\<rparr>
           | Inr bin \<Rightarrow> (judgeRun env j bin)\<lparr>rTailKey := key\<rparr>))"

definition judgeRejected :: "string \<Rightarrow> string \<Rightarrow> job \<Rightarrow> result" where
  "judgeRejected scratch err j =
     (if jNegType j \<noteq> [] \<and> (jNegPhase j = ''parse'' \<or> jNegPhase j = ''resolution'')
      then verdict j ''pass'' []
      else verdict j ''handback''
             (''front: '' @ firstLine (removeAll_sub (scratch @ [SLASH]) err)))"

definition stagedVerdict ::
  "(string \<Rightarrow> string) \<Rightarrow> aotEnv \<Rightarrow> string \<Rightarrow> cache option \<Rightarrow> string \<Rightarrow> string \<Rightarrow> job \<Rightarrow> result" where
  "stagedVerdict sha env buildDir tail runtimeHash scratch j =
     (case stageJob (aeMkdir env) (aeWrite env) scratch ''test262.ts'' j of
        (Inl e, _) \<Rightarrow> verdict j ''crash'' (errorText e)
      | (Inr entry, files) \<Rightarrow>
          (case aeCompile env files entry of
             NotYetLowerable reason \<Rightarrow> verdict j ''handback'' (''lower: '' @ reason)
           | Rejected err \<Rightarrow> judgeRejected scratch err j
           | Panics p \<Rightarrow> verdict j ''crash'' (''panic: '' @ p)
           | Emitted goSrc \<Rightarrow> judgeEmitted sha env tail runtimeHash goSrc buildDir scratch j))"

text \<open>Whether the job gets as far as making its build directory.\<close>

definition makesBuildDir ::
  "(string \<Rightarrow> string) \<Rightarrow> aotEnv \<Rightarrow> cache option \<Rightarrow> string \<Rightarrow> string \<Rightarrow> job \<Rightarrow> string \<Rightarrow> bool" where
  "makesBuildDir sha env tail runtimeHash scratch j buildDir =
     (case stageJob (aeMkdir env) (aeWrite env) scratch ''test262.ts'' j of
        (Inr entry, files) \<Rightarrow>
          (case aeCompile env files entry of
             Emitted goSrc \<Rightarrow>
               aeMkdir env buildDir = None \<and>
               Option.bind tail (\<lambda>t. Get t (TailKey sha goSrc runtimeHash j) (jID j)) = None
           | _ \<Rightarrow> False)
      | _ \<Rightarrow> False)"

definition buildDirName :: "string \<Rightarrow> string \<Rightarrow> string" where
  "buildDirName moduleRoot scratch = joinPath [moduleRoot, ''bento262-build-'' @ basePath scratch]"

definition ExecuteAOT ::
  "(string \<Rightarrow> string) \<Rightarrow> aotEnv \<Rightarrow> string \<Rightarrow> cache option \<Rightarrow> string \<Rightarrow> job \<Rightarrow> string set \<Rightarrow> result \<times> string set" where
  "ExecuteAOT sha env moduleRoot tail runtimeHash j dirs =
     (case aeScratch env of
        Inl e \<Rightarrow> (verdict j ''crash'' (errorText e), dirs)
      | Inr tmp \<Rightarrow>
          (let scratch = (case aeResolve env tmp of Some real \<Rightarrow> real | None \<Rightarrow> tmp);
               buildDir = buildDirName moduleRoot scratch;
               made = insert scratch dirs;
               built = (if makesBuildDir sha env tail runtimeHash scratch j buildDir
                        then insert buildDir made else made)
           in (stagedVerdict sha env buildDir tail runtimeHash scratch j, built - {buildDir} - {scratch})))"

section \<open>Build settings and sweeping\<close>

text \<open>\<open>v\<close> is the value of \<open>BENTO262_GO_BUILD_P\<close>, empty when it is not set.\<close>

definition goBuildParallelism :: "string \<Rightarrow> int" where
  "goBuildParallelism v =
     (if v \<noteq> [] then (case Atoi v of Some n \<Rightarrow> if n > 0 then n else 2 | None \<Rightarrow> 2) else 2)"

text \<open>The directories removed, given the entries of the root (\<open>None\<close> when it cannot be read).\<close>

definition SweepBuildDirs :: "string \<Rightarrow> dirEntry list option \<Rightarrow> string list" where
  "SweepBuildDirs root entries =
     (case entries of
        None \<Rightarrow> []
      | Some es \<Rightarrow>
          map (\<lambda>e. joinPath [root, deName e])
            (filter (\<lambda>e. deIsDir e \<and> HasPrefix (deName e) ''bento262-build-'') es))"

definition stagedRoots :: "string \<Rightarrow> dirEntry list \<Rightarrow> cacheFile list" where
  "stagedRoots dir entries =
     List.map_filter (\<lambda>e.
       if \<not> deIsDir e \<or> \<not> HasPrefix (deName e) ''bento-'' then None
       else case deModTime e of
           None \<Rightarrow> None
         | Some t \<Rightarrow> Some \<lparr>cfPath = joinPath [dir, deName e], cfModTime = t\<rparr>) entries"

definition pruneStagedRoots :: "string \<Rightarrow> dirEntry list option \<Rightarrow> string \<Rightarrow> nat \<Rightarrow> string list" where
  "pruneStagedRoots dir entries keepRoot keep =
     (case entries of
        None \<Rightarrow> []
      | Some es \<Rightarrow>
          (let roots = stagedRoots dir es in
           if length roots \<le> keep then []
           else map cfPath (filter (\<lambda>r. cfPath r \<noteq> keepRoot) (drop keep (sortSlice newerFile roots)))))"

end
