(* ===== verification/Utf8.thy ===== *)
theory Utf8
  imports GoStrings
begin

text \<open>
  Go's view of a byte string as UTF-8 (\<open>unicode/utf8\<close>): the runes a \<open>range\<close> or \<open>DecodeRune\<close> finds, each
  byte that starts none counting as one error, and what coercing the errors to U+FFFD leaves.
\<close>

definition byteOf :: "char \<Rightarrow> nat" where
  "byteOf c = of_char c"

lemma byteOf_less [simp]: "byteOf c < 256"
  using nat_of_char_less_256 [of c] by (simp add: byteOf_def)

lemma byteOf_char_of [simp]: "n < 256 \<Longrightarrow> byteOf (char_of n) = n"
  by (simp add: byteOf_def)

lemma char_of_byteOf [simp]: "char_of (byteOf c) = c"
  by (simp add: byteOf_def)

lemma byteOf_inject [simp]: "byteOf c = byteOf d \<longleftrightarrow> c = d"
  by (metis char_of_byteOf)

definition contByte :: "char \<Rightarrow> bool" where
  "contByte c \<longleftrightarrow> 128 \<le> byteOf c \<and> byteOf c \<le> 191"

text \<open>The bytes a leading byte announces (0 for one that leads nothing), and the range of the second.\<close>

definition leadLen :: "nat \<Rightarrow> nat" where
  "leadLen x =
     (if x < 128 then 1 else if x < 194 then 0 else if x < 224 then 2 else if x < 240 then 3
      else if x < 245 then 4 else 0)"

definition secondOk :: "nat \<Rightarrow> char \<Rightarrow> bool" where
  "secondOk x c \<longleftrightarrow>
     (if x = 224 then 160 else if x = 240 then 144 else 128) \<le> byteOf c \<and>
     byteOf c \<le> (if x = 237 then 159 else if x = 244 then 143 else 191)"

text \<open>\<open>DecodeRune\<close>: the length of the rune a string starts with; \<open>None\<close> is an error of width one.\<close>

fun runeLen :: "string \<Rightarrow> nat option" where
  "runeLen [] = None"
| "runeLen (a # s) =
     (let n = leadLen (byteOf a) in
      if n = 0 \<or> length s < n - 1 then None
      else if n = 1 then Some 1
      else if secondOk (byteOf a) (hd s) \<and> list_all contByte (take (n - 2) (tl s)) then Some n
      else None)"

lemma runeLen_bounds: "runeLen s = Some n \<Longrightarrow> 1 \<le> n \<and> n \<le> 4 \<and> n \<le> length s"
  by (cases s) (auto simp: Let_def leadLen_def Suc_le_eq split: if_splits)

lemma runeLen_take: "runeLen s = Some n \<Longrightarrow> runeLen (take n s @ t) = Some n"
proof (cases s)
  case (Cons a s')
  assume r: "runeLen s = Some n"
  then have n: "n = leadLen (byteOf a)" "n \<noteq> 0" "n - 1 \<le> length s'"
    by (auto simp: Cons Let_def split: if_splits)
  show ?thesis
  proof (cases "n = 1")
    case True
    then have "leadLen (byteOf a) = 1" using n(1) by simp
    then show ?thesis by (simp add: Cons True)
  next
    case False
    with r have ok: "secondOk (byteOf a) (hd s') \<and> list_all contByte (take (n - 2) (tl s'))"
      by (auto simp: Cons Let_def split: if_splits)
    obtain k where k: "n = Suc (Suc k)" using n(2) False by (metis One_nat_def not0_implies_Suc)
    then obtain b s'' where s': "s' = b # s''" using n(3) by (cases s') auto
    from n(1) k have l: "leadLen (byteOf a) = Suc (Suc k)" by simp
    moreover have "k \<le> length s''" using n(1,3) k by (simp add: s')
    ultimately show ?thesis using ok by (simp add: Cons s' k)
  qed
qed simp

text \<open>The runes of a string in order, \<open>None\<close> for an error.\<close>

function runes :: "string \<Rightarrow> string option list" where
  "runes [] = []"
| "runes (c # s) =
     (case runeLen (c # s) of
        Some n \<Rightarrow> Some (take n (c # s)) # runes (drop n (c # s))
      | None \<Rightarrow> None # runes s)"
  by pat_completeness auto
termination
proof (relation "measure length")
  fix c :: char and s n assume "runeLen (c # s) = Some n"
  with runeLen_bounds [of "c # s" n] show "(drop n (c # s), c # s) \<in> measure length" by simp
qed simp_all

definition isRune :: "string \<Rightarrow> bool" where
  "isRune r \<longleftrightarrow> runeLen r = Some (length r)"

lemma isRune_nonempty: "isRune r \<Longrightarrow> r \<noteq> []"
  by (auto simp: isRune_def)

lemma runes_isRune: "Some r \<in> set (runes s) \<Longrightarrow> isRune r"
proof (induction s rule: runes.induct)
  case (2 c s)
  show ?case
  proof (cases "runeLen (c # s)")
    case None
    with 2 show ?thesis by simp
  next
    case (Some n)
    then have "isRune (take n (c # s))"
      using runeLen_take [OF Some, of "[]"] runeLen_bounds [OF Some] by (simp add: isRune_def)
    with 2 Some show ?thesis by auto
  qed
qed simp

lemma runes_append: "isRune r \<Longrightarrow> runes (r @ t) = Some r # runes t"
proof -
  assume r: "isRune r"
  then obtain c s where cs: "r = c # s" using isRune_nonempty by (cases r) auto
  have "runeLen (c # s @ t) = Some (length r)"
    using runeLen_take [of r "length r" t] r by (simp add: isRune_def cs)
  then show ?thesis by (simp add: cs)
qed

lemma runes_concat: "list_all isRune rs \<Longrightarrow> runes (concat rs) = map Some rs"
  by (induction rs) (simp_all add: runes_append)

text \<open>\<open>utf8.ValidString\<close>, and the coercion that \<open>[]rune\<close> conversions and \<open>encoding/json\<close> make.\<close>

definition validUtf8 :: "string \<Rightarrow> bool" where
  "validUtf8 s \<longleftrightarrow> None \<notin> set (runes s)"

definition runeError :: string where
  "runeError = [CHR 0xEF, CHR 0xBF, CHR 0xBD]"

definition runeBytes :: "string option \<Rightarrow> string" where
  "runeBytes r = (case r of Some ch \<Rightarrow> ch | None \<Rightarrow> runeError)"

lemma runeBytes_simps [simp]: "runeBytes (Some r) = r" "runeBytes None = runeError"
  by (simp_all add: runeBytes_def)

definition toValid :: "string \<Rightarrow> string" where
  "toValid s = concat (map runeBytes (runes s))"

definition runeCount :: "string \<Rightarrow> nat" where
  "runeCount s = length (runes s)"

lemma isRune_runeError [simp]: "isRune runeError"
  unfolding isRune_def runeError_def by code_simp

lemma isRune_runeBytes: "x \<in> set (runes s) \<Longrightarrow> isRune (runeBytes x)"
  by (cases x) (auto dest: runes_isRune)

lemma runes_toValid: "runes (toValid s) = map (Some \<circ> runeBytes) (runes s)"
  using runes_concat [of "map runeBytes (runes s)"] isRune_runeBytes
  by (simp add: toValid_def list_all_iff)

lemma validUtf8_toValid [simp]: "validUtf8 (toValid s)"
  by (auto simp: validUtf8_def runes_toValid)

lemma runes_bytes: "validUtf8 s \<Longrightarrow> concat (map runeBytes (runes s)) = s"
proof (induction s rule: runes.induct)
  case (2 c s)
  show ?case
  proof (cases "runeLen (c # s)")
    case None
    with 2 show ?thesis by (simp add: validUtf8_def)
  next
    case (Some n)
    with 2 have "concat (map runeBytes (runes (drop n (c # s)))) = drop n (c # s)" by (simp add: validUtf8_def)
    moreover have "runes (c # s) = Some (take n (c # s)) # runes (drop n (c # s))"
      by (simp only: runes.simps Some option.case)
    ultimately show ?thesis by simp
  qed
qed simp

lemma toValid_id: "validUtf8 s \<Longrightarrow> toValid s = s"
  by (simp add: toValid_def runes_bytes)

text \<open>Coercion changes exactly the strings that are not valid.\<close>

lemma toValid_id_iff: "toValid s = s \<longleftrightarrow> validUtf8 s"
  by (metis toValid_id validUtf8_toValid)

lemma toValid_idem [simp]: "toValid (toValid s) = toValid s"
  by (simp add: toValid_id)

lemma runeCount_toValid: "runeCount (toValid s) = runeCount s"
  by (simp add: runeCount_def runes_toValid)

text \<open>ASCII strings are valid, one rune a byte.\<close>

definition ascii :: "string \<Rightarrow> bool" where
  "ascii s \<longleftrightarrow> list_all (\<lambda>c. byteOf c < 128) s"

lemma runes_ascii: "ascii s \<Longrightarrow> runes s = map (\<lambda>c. Some [c]) s"
  by (induction s) (simp_all add: ascii_def leadLen_def)

lemma ascii_valid: "ascii s \<Longrightarrow> validUtf8 s"
  by (auto simp: validUtf8_def runes_ascii)

lemma ascii_Cons: "ascii (c # s) \<longleftrightarrow> byteOf c < 128 \<and> ascii s" "ascii []"
  by (simp_all add: ascii_def)

lemma ascii_toValid: "ascii s \<Longrightarrow> toValid s = s"
  by (simp add: toValid_id ascii_valid)

lemma runeCount_ascii: "ascii s \<Longrightarrow> runeCount s = length s"
  by (simp add: runeCount_def runes_ascii)

text \<open>The bytes of a rune of more than one byte are all beyond ASCII.\<close>

lemma isRune_multi: "isRune r \<Longrightarrow> length r \<noteq> 1 \<Longrightarrow> c \<in> set r \<Longrightarrow> 128 \<le> byteOf c"
proof (cases r)
  case (Cons a s)
  assume r: "isRune r" and l: "length r \<noteq> 1" and c: "c \<in> set r"
  then have n: "leadLen (byteOf a) = Suc (length s)" "s \<noteq> []"
    by (auto simp: isRune_def Cons Let_def split: if_splits)
  then obtain b s' where s: "s = b # s'" by (cases s) auto
  have "128 \<le> byteOf a" using n by (auto simp: leadLen_def s split: if_splits)
  moreover have "secondOk (byteOf a) b" "list_all contByte s'"
    using r n by (auto simp: isRune_def Cons Let_def s split: if_splits)
  ultimately show ?thesis
    using c by (auto simp: Cons s secondOk_def contByte_def list_all_iff split: if_splits)
qed simp

lemma isRune_single: "isRune [c] \<longleftrightarrow> byteOf c < 128"
  by (simp add: isRune_def Let_def leadLen_def)

lemma isRune_cases:
  assumes "isRune r"
  obtains (ascii) c where "r = [c]" "byteOf c < 128"
  | (multi) "length r \<noteq> 1" "list_all (\<lambda>c. 128 \<le> byteOf c) r"
  using assms isRune_multi [OF assms] isRune_single
  by (cases "length r = 1") (auto simp: list_all_iff length_Suc_conv)

end
