(* ===== verification/Json.thy ===== *)
theory Json
  imports Utf8
begin

text \<open>
  \<open>encoding/json\<close> as the runner uses it: \<open>Marshal\<close> and \<open>Encode\<close> of its structs, which is compact text with
  the escaping of \<open>appendString\<close> (HTML characters included), and \<open>Unmarshal\<close>: the scan of the whole text
  into tokens and a value, with the string coercions of \<open>unquote\<close> and the nesting limit of the scanner.
\<close>

section \<open>Values and their text\<close>

datatype json =
  JNull | JBool bool | JNum string | JStr string | JArr "json list" | JObj "(string \<times> json) list"

definition hexChar :: "nat \<Rightarrow> char" where
  "hexChar n = (''0123456789abcdef'' ! n)"

text \<open>One rune of a string, escaped; \<open>None\<close> is a byte that is no UTF-8.\<close>

definition escByte :: "char \<Rightarrow> string" where
  "escByte c =
     (if c = DQUOTE then [BSLASH, DQUOTE] else if c = BSLASH then [BSLASH, BSLASH]
      else if c = CHR 0x08 then BSLASH # ''b'' else if c = CHR 0x0C then BSLASH # ''f''
      else if c = CHR 0x0A then BSLASH # ''n'' else if c = CHR 0x0D then BSLASH # ''r''
      else if c = CHR 0x09 then BSLASH # ''t''
      else if byteOf c < 32 \<or> c = CHR ''<'' \<or> c = CHR ''>'' \<or> c = CHR ''&''
        then BSLASH # ''u00'' @ [hexChar (byteOf c div 16), hexChar (byteOf c mod 16)]
      else [c])"

definition escRune :: "string option \<Rightarrow> string" where
  "escRune r =
     (case r of
        None \<Rightarrow> BSLASH # ''ufffd''
      | Some u \<Rightarrow>
          (case u of
             [c] \<Rightarrow> escByte c
           | _ \<Rightarrow>
               if u = [CHR 0xE2, CHR 0x80, CHR 0xA8] then BSLASH # ''u2028''
               else if u = [CHR 0xE2, CHR 0x80, CHR 0xA9] then BSLASH # ''u2029'' else u))"

definition escape :: "string \<Rightarrow> string" where
  "escape s = concat (map escRune (runes s))"

definition quoted :: "string \<Rightarrow> string" where
  "quoted s = DQUOTE # escape s @ [DQUOTE]"

fun sepWith :: "'a \<Rightarrow> 'a list list \<Rightarrow> 'a list" where
  "sepWith c [] = []"
| "sepWith c (x # xs) = x @ concat (map ((#) c) xs)"

fun render :: "json \<Rightarrow> string" where
  "render JNull = ''null''"
| "render (JBool b) = (if b then ''true'' else ''false'')"
| "render (JNum s) = s"
| "render (JStr s) = quoted s"
| "render (JArr vs) = ''['' @ sepWith (CHR '','') (map render vs) @ '']''"
| "render (JObj kvs) = ''{'' @ sepWith (CHR '','') (map (\<lambda>(k, v). quoted k @ '':'' @ render v) kvs) @ ''}''"

section \<open>Strings read back\<close>

definition hexVal :: "char \<Rightarrow> nat option" where
  "hexVal c =
     (let n = byteOf c in
      if 48 \<le> n \<and> n \<le> 57 then Some (n - 48)
      else if 97 \<le> n \<and> n \<le> 102 then Some (n - 87)
      else if 65 \<le> n \<and> n \<le> 70 then Some (n - 55) else None)"

text \<open>\<open>getu4\<close> after the \<open>\u\<close>: the code unit of four hexadecimal digits, and what follows.\<close>

fun hex4 :: "string \<Rightarrow> (nat \<times> string) option" where
  "hex4 (a # b # c # d # s) =
     (case (hexVal a, hexVal b, hexVal c, hexVal d) of
        (Some w, Some x, Some y, Some z) \<Rightarrow> Some (4096 * w + 256 * x + 16 * y + z, s)
      | _ \<Rightarrow> None)"
| "hex4 _ = None"

text \<open>\<open>utf8.AppendRune\<close>: surrogates and values beyond the last rune become U+FFFD.\<close>

definition encodeRune :: "nat \<Rightarrow> string" where
  "encodeRune n =
     (if n < 128 then [char_of n]
      else if n < 2048 then [char_of (192 + n div 64), char_of (128 + n mod 64)]
      else if (55296 \<le> n \<and> n < 57344) \<or> 1114112 \<le> n then runeError
      else if n < 65536 then
        [char_of (224 + n div 4096), char_of (128 + n div 64 mod 64), char_of (128 + n mod 64)]
      else
        [char_of (240 + n div 262144), char_of (128 + n div 4096 mod 64),
         char_of (128 + n div 64 mod 64), char_of (128 + n mod 64)])"

text \<open>The rune of a \<open>\u\<close> escape: a high surrogate takes a following escaped low one with it.\<close>

definition unicodeEscape :: "nat \<Rightarrow> string \<Rightarrow> string \<times> string" where
  "unicodeEscape n s =
     (if 55296 \<le> n \<and> n < 57344 then
        (case s of
           a # b # s' \<Rightarrow>
             (if a = BSLASH \<and> b = CHR ''u'' then
                (case hex4 s' of
                   Some (m, s'') \<Rightarrow>
                     if n < 56320 \<and> 56320 \<le> m \<and> m < 57344
                     then (encodeRune ((n - 55296) * 1024 + (m - 56320) + 65536), s'') else (runeError, s)
                 | None \<Rightarrow> (runeError, s))
              else (runeError, s))
         | _ \<Rightarrow> (runeError, s))
      else (encodeRune n, s))"

text \<open>What follows a backslash.\<close>

definition simpleEscapes :: "(char \<times> char) list" where
  "simpleEscapes =
     [(DQUOTE, DQUOTE), (BSLASH, BSLASH), (CHR ''/'', CHR ''/''), (CHR ''b'', CHR 0x08), (CHR ''f'', CHR 0x0C),
      (CHR ''n'', CHR 0x0A), (CHR ''r'', CHR 0x0D), (CHR ''t'', CHR 0x09)]"

definition readEscape :: "string \<Rightarrow> (string \<times> string) option" where
  "readEscape s =
     (case s of
        [] \<Rightarrow> None
      | c # s' \<Rightarrow>
          (if c = CHR ''u'' then map_option (\<lambda>(n, s''). unicodeEscape n s'') (hex4 s')
           else map_option (\<lambda>e. ([e], s')) (map_of simpleEscapes c)))"

lemma hex4_shorter: "hex4 s = Some (n, t) \<Longrightarrow> length t < length s"
  by (induction s rule: hex4.induct) (auto split: option.splits)

lemma unicodeEscape_shorter: "length (snd (unicodeEscape n s)) \<le> length s"
  by (auto simp: unicodeEscape_def split: list.splits option.splits dest!: hex4_shorter)

lemma readEscape_shorter: "readEscape s = Some (u, t) \<Longrightarrow> length t < length s"
proof (cases s)
  case (Cons c s')
  assume r: "readEscape s = Some (u, t)"
  show ?thesis
  proof (cases "c = CHR ''u''")
    case True
    with r obtain n s'' where h: "hex4 s' = Some (n, s'')" "unicodeEscape n s'' = (u, t)"
      by (auto simp: readEscape_def Cons)
    with unicodeEscape_shorter [of n s''] hex4_shorter [OF h(1)] show ?thesis by (simp add: Cons)
  next
    case False
    with r show ?thesis by (auto simp: readEscape_def Cons)
  qed
qed (simp add: readEscape_def)

text \<open>The contents of a string after its opening quote, and what follows its closing one.\<close>

function readString :: "string \<Rightarrow> (string \<times> string) option" where
  "readString [] = None"
| "readString (c # s) =
     (if c = DQUOTE then Some ([], s)
      else if c = BSLASH then
        (case readEscape s of
           None \<Rightarrow> None
         | Some (u, s') \<Rightarrow> map_option (\<lambda>(v, t). (u @ v, t)) (readString s'))
      else if byteOf c < 32 then None
      else
        (case runeLen (c # s) of
           Some n \<Rightarrow> map_option (\<lambda>(v, t). (take n (c # s) @ v, t)) (readString (drop n (c # s)))
         | None \<Rightarrow> map_option (\<lambda>(v, t). (runeError @ v, t)) (readString s)))"
  by pat_completeness auto
termination
proof (relation "measure length")
  fix c :: char and s x u s' assume "readEscape s = Some x" "(u, s') = x"
  then show "(s', c # s) \<in> measure length" using readEscape_shorter [of s u s'] by auto
next
  fix c :: char and s n assume "runeLen (c # s) = Some n"
  with runeLen_bounds [of "c # s" n] show "(drop n (c # s), c # s) \<in> measure length" by simp
qed simp_all

declare readString.simps(2) [simp del]

lemma readString_shorter: "readString s = Some (v, t) \<Longrightarrow> length t < length s"
proof (induction s arbitrary: v t rule: readString.induct)
  case (2 c s)
  consider "c = DQUOTE" | "c \<noteq> DQUOTE" "c = BSLASH" | "c \<noteq> DQUOTE" "c \<noteq> BSLASH" "\<not> byteOf c < 32"
    using "2.prems" by (auto simp: readString.simps(2) split: if_splits)
  then show ?case
  proof cases
    case 2
    with "2.prems" obtain u s' v' where "readEscape s = Some (u, s')" "readString s' = Some (v', t)"
      by (auto simp: readString.simps(2) split: option.splits)
    with "2.IH"(1) [OF 2 _ refl] readEscape_shorter [of s u s'] show ?thesis by fastforce
  next
    case 3
    show ?thesis
    proof (cases "runeLen (c # s)")
      case None
      with 3 "2.prems" "2.IH"(2) [OF 3 None] show ?thesis by (fastforce simp: readString.simps(2))
    next
      case (Some n)
      with 3 "2.prems" obtain v' where v: "readString (drop n (c # s)) = Some (v', t)"
        by (auto simp: readString.simps(2))
      from "2.IH"(3) [OF 3 Some this] show ?thesis by simp
    qed
  qed (use "2.prems" in \<open>simp add: readString.simps(2)\<close>)
qed simp

section \<open>Tokens\<close>

datatype token = TSym char | TVal json

definition jsonDigit :: "char \<Rightarrow> bool" where
  "jsonDigit c \<longleftrightarrow> 48 \<le> byteOf c \<and> byteOf c \<le> 57"

definition someDigits :: "string \<Rightarrow> (string \<times> string) option" where
  "someDigits s = (if takeWhile jsonDigit s = [] then None else Some (takeWhile jsonDigit s, dropWhile jsonDigit s))"

text \<open>The integer part of a number is a zero or starts with another digit; fraction and exponent follow.\<close>

definition lexInteger :: "string \<Rightarrow> (string \<times> string) option" where
  "lexInteger s =
     (case someDigits s of
        None \<Rightarrow> None
      | Some (d, t) \<Rightarrow> Some (if hd d = CHR ''0'' then (''0'', tl d @ t) else (d, t)))"

definition lexFraction :: "string \<Rightarrow> (string \<times> string) option" where
  "lexFraction s =
     (case s of
        [] \<Rightarrow> Some ([], [])
      | c # t \<Rightarrow> if c = CHR ''.'' then map_option (\<lambda>(d, r). (c # d, r)) (someDigits t) else Some ([], s))"

definition lexExponent :: "string \<Rightarrow> (string \<times> string) option" where
  "lexExponent s =
     (case s of
        [] \<Rightarrow> Some ([], [])
      | c # t \<Rightarrow>
          if c = CHR ''e'' \<or> c = CHR ''E'' then
            (case t of
               [] \<Rightarrow> None
             | g # u \<Rightarrow>
                 if g = CHR ''+'' \<or> g = CHR ''-''
                 then map_option (\<lambda>(d, r). (c # g # d, r)) (someDigits u)
                 else map_option (\<lambda>(d, r). (c # d, r)) (someDigits t))
          else Some ([], s))"

definition lexNumber :: "string \<Rightarrow> (string \<times> string) option" where
  "lexNumber s =
     (let (g, s1) = (case s of [] \<Rightarrow> ([], []) | c # t \<Rightarrow> if c = CHR ''-'' then ([c], t) else ([], s)) in
      case lexInteger s1 of
        None \<Rightarrow> None
      | Some (i, s2) \<Rightarrow>
          (case lexFraction s2 of
             None \<Rightarrow> None
           | Some (f, s3) \<Rightarrow>
               map_option (\<lambda>(x, s4). (g @ i @ f @ x, s4)) (lexExponent s3)))"

definition lexToken :: "string \<Rightarrow> (token \<times> string) option" where
  "lexToken s =
     (case s of
        [] \<Rightarrow> None
      | c # t \<Rightarrow>
          if c \<in> set ''{}[],:'' then Some (TSym c, t)
          else if c = DQUOTE then map_option (\<lambda>(v, r). (TVal (JStr v), r)) (readString t)
          else if HasPrefix s ''null'' then Some (TVal JNull, drop 4 s)
          else if HasPrefix s ''true'' then Some (TVal (JBool True), drop 4 s)
          else if HasPrefix s ''false'' then Some (TVal (JBool False), drop 5 s)
          else map_option (\<lambda>(n, r). (TVal (JNum n), r)) (lexNumber s))"

definition jsonSpace :: "char \<Rightarrow> bool" where
  "jsonSpace c \<longleftrightarrow> c = CHR '' '' \<or> c = CHR 0x09 \<or> c = CHR 0x0A \<or> c = CHR 0x0D"

lemma someDigits_split: "someDigits s = Some (d, t) \<Longrightarrow> s = d @ t \<and> d \<noteq> []"
  by (auto simp: someDigits_def split: if_splits)

lemma lexInteger_split: "lexInteger s = Some (d, t) \<Longrightarrow> s = d @ t \<and> d \<noteq> []"
  by (auto simp: lexInteger_def neq_Nil_conv split: option.splits if_splits dest!: someDigits_split)

lemma lexFraction_split: "lexFraction s = Some (d, t) \<Longrightarrow> s = d @ t"
  by (auto simp: lexFraction_def split: list.splits if_splits dest!: someDigits_split)

lemma lexExponent_split: "lexExponent s = Some (d, t) \<Longrightarrow> s = d @ t"
  by (auto simp: lexExponent_def split: list.splits if_splits dest!: someDigits_split)

lemma lexNumber_split: "lexNumber s = Some (n, t) \<Longrightarrow> s = n @ t \<and> n \<noteq> []"
  by (auto simp: lexNumber_def split: list.splits option.splits if_splits
      dest!: lexInteger_split lexFraction_split lexExponent_split)

lemma lexNumber_shorter: "lexNumber s = Some (n, t) \<Longrightarrow> length t < length s"
  by (auto dest!: lexNumber_split)

lemma lexToken_shorter: "lexToken s = Some (x, t) \<Longrightarrow> length t < length s"
  by (auto simp: lexToken_def split: list.splits if_splits dest!: readString_shorter lexNumber_shorter)

function lexJson :: "string \<Rightarrow> token list option" where
  "lexJson [] = Some []"
| "lexJson (c # s) =
     (if jsonSpace c then lexJson s
      else
        (case lexToken (c # s) of
           None \<Rightarrow> None
         | Some (x, t) \<Rightarrow> map_option ((#) x) (lexJson t)))"
  by pat_completeness auto
termination
proof (relation "measure length")
  fix c :: char and s p x t assume "lexToken (c # s) = Some p" "(x, t) = p"
  then show "(t, c # s) \<in> measure length" using lexToken_shorter [of "c # s" x t] by auto
qed simp_all

declare lexJson.simps(2) [simp del]

section \<open>Parsing\<close>

text \<open>
  The state between two tokens: what may come next, and the arrays and objects still open, innermost
  first. \<open>MFirst\<close> and \<open>MFirstKey\<close> also take the closing bracket.
\<close>

datatype frame = FArr "json list" | FObj "(string \<times> json) list" | FKey string "(string \<times> json) list"

datatype mode = MVal | MFirst | MKey | MFirstKey | MColon | MAfter json

definition maxNesting :: nat where "maxNesting = 10000"

definition startValue :: "frame list \<Rightarrow> token \<Rightarrow> (mode \<times> frame list) option" where
  "startValue st x =
     (case x of
        TVal v \<Rightarrow> Some (MAfter v, st)
      | TSym c \<Rightarrow>
          if maxNesting \<le> length st then None
          else if c = CHR ''['' then Some (MFirst, FArr [] # st)
          else if c = CHR ''{'' then Some (MFirstKey, FObj [] # st) else None)"

definition startKey :: "frame list \<Rightarrow> token \<Rightarrow> (mode \<times> frame list) option" where
  "startKey st x =
     (case (x, st) of
        (TVal (JStr k), FObj kvs # st') \<Rightarrow> Some (MColon, FKey k kvs # st')
      | _ \<Rightarrow> None)"

definition afterValue :: "json \<Rightarrow> frame list \<Rightarrow> token \<Rightarrow> (mode \<times> frame list) option" where
  "afterValue v st x =
     (case st of
        FArr vs # st' \<Rightarrow>
          (if x = TSym (CHR '','') then Some (MVal, FArr (vs @ [v]) # st')
           else if x = TSym (CHR '']'') then Some (MAfter (JArr (vs @ [v])), st') else None)
      | FKey k kvs # st' \<Rightarrow>
          (if x = TSym (CHR '','') then Some (MKey, FObj (kvs @ [(k, v)]) # st')
           else if x = TSym (CHR ''}'') then Some (MAfter (JObj (kvs @ [(k, v)])), st') else None)
      | _ \<Rightarrow> None)"

fun stepToken :: "mode \<Rightarrow> frame list \<Rightarrow> token \<Rightarrow> (mode \<times> frame list) option" where
  "stepToken MVal st x = startValue st x"
| "stepToken MFirst st x = (if x = TSym (CHR '']'') then Some (MAfter (JArr []), tl st) else startValue st x)"
| "stepToken MKey st x = startKey st x"
| "stepToken MFirstKey st x = (if x = TSym (CHR ''}'') then Some (MAfter (JObj []), tl st) else startKey st x)"
| "stepToken MColon st x = (if x = TSym (CHR '':'') then Some (MVal, st) else None)"
| "stepToken (MAfter v) st x = afterValue v st x"

fun parseTokens :: "mode \<Rightarrow> frame list \<Rightarrow> token list \<Rightarrow> json option" where
  "parseTokens m st [] = (case (m, st) of (MAfter v, []) \<Rightarrow> Some v | _ \<Rightarrow> None)"
| "parseTokens m st (x # xs) =
     (case stepToken m st x of None \<Rightarrow> None | Some (m', st') \<Rightarrow> parseTokens m' st' xs)"

definition parseJson :: "string \<Rightarrow> json option" where
  "parseJson s = Option.bind (lexJson s) (parseTokens MVal [])"

end
