(* ===== verification/JsonFacts.thy ===== *)
theory JsonFacts
  imports Json
begin

text \<open>
  What \<open>encoding/json\<close> does to the values that travel: text written by \<open>Marshal\<close> is one line of printable
  bytes and reads back as the same value with every string coerced to valid UTF-8.
\<close>

section \<open>Strings\<close>

lemma hexVal_hexChar: "n < 16 \<Longrightarrow> hexVal (hexChar n) = Some n"
proof -
  have "list_all (\<lambda>n. hexVal (hexChar n) = Some n) [0..<16]"
    by (simp add: upt_rec hexChar_def hexVal_def byteOf_def Let_def)
  then show "n < 16 \<Longrightarrow> hexVal (hexChar n) = Some n" by (simp add: list_all_iff)
qed

lemma hex4_control:
  "b < 128 \<Longrightarrow> hex4 (CHR ''0'' # CHR ''0'' # hexChar (b div 16) # hexChar (b mod 16) # t) = Some (b, t)"
  by (simp add: hexVal_hexChar) (simp add: hexVal_def byteOf_def Let_def)

lemma readString_escaped:
  "readEscape s = Some (u, t) \<Longrightarrow> readString (BSLASH # s) = map_option (\<lambda>(v, r). (u @ v, r)) (readString t)"
  by (simp add: readString.simps(2))

lemma escByte_cases:
  obtains (short) e where "escByte c = [BSLASH, e]" "map_of simpleEscapes e = Some c" "e \<noteq> CHR ''u''"
  | (hex) "escByte c = BSLASH # CHR ''u'' # CHR ''0'' # CHR ''0'' # hexChar (byteOf c div 16) # [hexChar (byteOf c mod 16)]"
  | (raw) "escByte c = [c]" "c \<noteq> DQUOTE" "c \<noteq> BSLASH" "32 \<le> byteOf c"
proof (cases "c \<in> {DQUOTE, BSLASH, CHR 0x08, CHR 0x0C, NL, CR, TAB}")
  case True
  then have "\<exists>e. escByte c = [BSLASH, e] \<and> map_of simpleEscapes e = Some c \<and> e \<noteq> CHR ''u''"
    by (elim insertE) (simp_all add: escByte_def simpleEscapes_def)
  with short show thesis by metis
next
  case False
  show thesis
  proof (cases "byteOf c < 32 \<or> c = CHR ''<'' \<or> c = CHR ''>'' \<or> c = CHR ''&''")
    case True
    with False show thesis by (intro hex) (simp add: escByte_def)
  next
    case ok: False
    with False show thesis by (intro raw) (simp_all add: escByte_def)
  qed
qed

lemma readString_escByte:
  assumes "byteOf c < 128"
  shows "readString (escByte c @ t) = map_option (\<lambda>(v, r). (c # v, r)) (readString t)"
proof (cases c rule: escByte_cases)
  case (short e)
  then have "readEscape (e # t) = Some ([c], t)" by (simp add: readEscape_def)
  from readString_escaped [OF this] short(1) show ?thesis by simp
next
  case hex
  have "readEscape (CHR ''u'' # CHR ''0'' # CHR ''0'' # hexChar (byteOf c div 16) # hexChar (byteOf c mod 16) # t)
      = Some ([c], t)"
    unfolding readEscape_def using assms hex4_control [OF assms, of t]
    by (simp add: unicodeEscape_def encodeRune_def del: hex4.simps)
  from readString_escaped [OF this] hex show ?thesis by simp
next
  case raw
  then have "runeLen (c # t) = Some 1" using assms by (simp add: leadLen_def)
  with raw show ?thesis by (simp add: readString.simps(2) del: runeLen.simps)
qed

lemma readString_rune:
  assumes "isRune u" "list_all (\<lambda>c. 128 \<le> byteOf c) u"
  shows "readString (u @ t) = map_option (\<lambda>(v, r). (u @ v, r)) (readString t)"
proof -
  obtain c s where u: "u = c # s" using isRune_nonempty [OF assms(1)] by (cases u) auto
  with assms(2) have c: "128 \<le> byteOf c" by simp
  have ne: "c \<noteq> DQUOTE" "c \<noteq> BSLASH" "\<not> byteOf c < 32"
    using c by (auto simp: byteOf_def)
  have "runeLen (c # s @ t) = Some (length u)"
    using runeLen_take [of u "length u" t] assms(1) by (simp add: isRune_def u del: runeLen.simps)
  with ne show ?thesis by (simp add: u readString.simps(2) del: runeLen.simps)
qed

lemma readString_line_separator:
  "readString (BSLASH # ''u2028'' @ t) = map_option (\<lambda>(v, r). ([CHR 0xE2, CHR 0x80, CHR 0xA8] @ v, r)) (readString t)"
  "readString (BSLASH # ''u2029'' @ t) = map_option (\<lambda>(v, r). ([CHR 0xE2, CHR 0x80, CHR 0xA9] @ v, r)) (readString t)"
  "readString (BSLASH # ''ufffd'' @ t) = map_option (\<lambda>(v, r). (runeError @ v, r)) (readString t)"
proof -
  have "readEscape (''u2028'' @ t) = Some ([CHR 0xE2, CHR 0x80, CHR 0xA8], t)"
    "readEscape (''u2029'' @ t) = Some ([CHR 0xE2, CHR 0x80, CHR 0xA9], t)"
    "readEscape (''ufffd'' @ t) = Some (runeError, t)"
    by (simp_all add: readEscape_def hexVal_def byteOf_def Let_def unicodeEscape_def encodeRune_def
        runeError_def char_of_def bit_iff_odd)
  from this [THEN readString_escaped]
  show "readString (BSLASH # ''u2028'' @ t) = map_option (\<lambda>(v, r). ([CHR 0xE2, CHR 0x80, CHR 0xA8] @ v, r)) (readString t)"
    "readString (BSLASH # ''u2029'' @ t) = map_option (\<lambda>(v, r). ([CHR 0xE2, CHR 0x80, CHR 0xA9] @ v, r)) (readString t)"
    "readString (BSLASH # ''ufffd'' @ t) = map_option (\<lambda>(v, r). (runeError @ v, r)) (readString t)" .
qed

lemma escRune_simps:
  "escRune None = BSLASH # ''ufffd''" "escRune (Some [c]) = escByte c"
  "length u \<noteq> 1 \<Longrightarrow> escRune (Some u) =
     (if u = [CHR 0xE2, CHR 0x80, CHR 0xA8] then BSLASH # ''u2028''
      else if u = [CHR 0xE2, CHR 0x80, CHR 0xA9] then BSLASH # ''u2029'' else u)"
  by (auto simp: escRune_def split: list.split)

lemma readString_escRune:
  assumes "x \<in> set (runes s)"
  shows "readString (escRune x @ t) = map_option (\<lambda>(v, r). (runeBytes x @ v, r)) (readString t)"
proof (cases x)
  case None
  then show ?thesis using readString_line_separator(3) by (simp add: escRune_simps)
next
  case (Some u)
  with assms have "isRune u" using runes_isRune by simp
  then show ?thesis
  proof (cases rule: isRune_cases)
    case (ascii c)
    then show ?thesis by (simp add: Some escRune_simps readString_escByte)
  next
    case multi
    then show ?thesis
      using readString_line_separator(1,2) readString_rune [OF \<open>isRune u\<close> multi(2)]
      by (simp add: Some escRune_simps(3))
  qed
qed

lemma readString_escape: "readString (escape s @ DQUOTE # t) = Some (toValid s, t)"
proof -
  have "set xs \<subseteq> set (runes s) \<Longrightarrow>
      readString (concat (map escRune xs) @ DQUOTE # t) = Some (concat (map runeBytes xs), t)" for xs
    by (induction xs) (simp_all add: readString.simps(2) readString_escRune [of _ s])
  then show ?thesis by (simp add: escape_def toValid_def)
qed

text \<open>What is written holds no control byte, so it is one line.\<close>

definition printable :: "string \<Rightarrow> bool" where
  "printable s \<longleftrightarrow> list_all (\<lambda>c. 32 \<le> byteOf c) s"

lemma printable_append [simp]: "printable (s @ t) \<longleftrightarrow> printable s \<and> printable t"
  by (simp add: printable_def)

lemma printable_Cons [simp]: "printable (c # s) \<longleftrightarrow> 32 \<le> byteOf c \<and> printable s"
  by (simp add: printable_def)

lemma printable_Nil [simp]: "printable []"
  by (simp add: printable_def)

lemma printable_concat [simp]: "printable (concat ss) \<longleftrightarrow> list_all printable ss"
  by (induction ss) simp_all

lemma printable_oneline: "printable s \<Longrightarrow> NL \<notin> set s \<and> CR \<notin> set s"
  by (auto simp: printable_def list_all_iff byteOf_def)

lemma hexChar_printable: "n < 16 \<Longrightarrow> 32 \<le> byteOf (hexChar n)"
  using hexVal_hexChar [of n] by (auto simp: hexVal_def Let_def split: if_splits)

lemma byteOf_literals [simp]:
  "byteOf DQUOTE = 34" "byteOf BSLASH = 92" "byteOf (CHR ''u'') = 117" "byteOf (CHR ''0'') = 48"
  by (simp_all add: byteOf_def)

lemma simpleEscapes_printable: "map_of simpleEscapes e = Some c \<Longrightarrow> 32 \<le> byteOf e"
  by (auto simp: simpleEscapes_def byteOf_def split: if_splits)

lemma escByte_printable: "printable (escByte c)"
proof (cases c rule: escByte_cases)
  case (short e)
  then show ?thesis using simpleEscapes_printable [OF short(2)] by simp
next
  case hex
  have "byteOf c div 16 < 16" using byteOf_less [of c] by (simp add: div_less_iff_less_mult)
  then show ?thesis by (simp add: hex hexChar_printable)
qed simp

lemma escape_printable: "printable (escape s)"
proof -
  have "printable (escRune x)" if "x \<in> set (runes s)" for x
  proof (cases x)
    case None
    have "printable (BSLASH # ''ufffd'')" by code_simp
    then show ?thesis by (simp add: None escRune_simps)
  next
    case (Some u)
    with that have "isRune u" using runes_isRune by simp
    then show ?thesis
    proof (cases rule: isRune_cases)
      case (ascii c)
      then show ?thesis by (simp add: Some escRune_simps escByte_printable)
    next
      case multi
      have "printable (BSLASH # ''u2028'')" "printable (BSLASH # ''u2029'')" by code_simp+
      moreover have "printable u" using multi(2) by (auto simp: printable_def list_all_iff)
      ultimately show ?thesis by (simp add: Some escRune_simps(3) [OF multi(1)] del: printable_Cons)
    qed
  qed
  then show ?thesis by (simp add: escape_def list_all_iff)
qed

lemma quoted_printable: "printable (quoted s)"
  by (simp add: quoted_def escape_printable)

section \<open>Values\<close>

text \<open>What reading makes of a value: strings and keys coerced. The values the runner writes hold no numbers
  and are nested no deeper than the scanner allows.\<close>

fun coerce :: "json \<Rightarrow> json" where
  "coerce (JStr s) = JStr (toValid s)"
| "coerce (JArr vs) = JArr (map coerce vs)"
| "coerce (JObj kvs) = JObj (map (\<lambda>(k, v). (toValid k, coerce v)) kvs)"
| "coerce v = v"

fun nests :: "nat \<Rightarrow> json \<Rightarrow> bool" where
  "nests n (JNum s) = False"
| "nests n (JArr vs) = (case n of 0 \<Rightarrow> False | Suc m \<Rightarrow> list_all (nests m) vs)"
| "nests n (JObj kvs) = (case n of 0 \<Rightarrow> False | Suc m \<Rightarrow> list_all (\<lambda>(k, v). nests m v) kvs)"
| "nests n v = True"

fun tokensOf :: "json \<Rightarrow> token list" where
  "tokensOf (JArr vs) = TSym (CHR ''['') # sepWith (TSym (CHR '','')) (map tokensOf vs) @ [TSym (CHR '']'')]"
| "tokensOf (JObj kvs) =
     TSym (CHR ''{'') #
     sepWith (TSym (CHR '','')) (map (\<lambda>(k, v). TVal (JStr (toValid k)) # TSym (CHR '':'') # tokensOf v) kvs)
     @ [TSym (CHR ''}'')]"
| "tokensOf v = [TVal (coerce v)]"

subsection \<open>Reading the tokens\<close>

lemma lexJson_sym: "c \<in> set ''{}[],:'' \<Longrightarrow> lexJson (c # s) = map_option ((#) (TSym c)) (lexJson s)"
  by (auto simp: lexJson.simps(2) jsonSpace_def lexToken_def)

lemma lexJson_quoted: "lexJson (quoted s @ t) = map_option ((#) (TVal (JStr (toValid s)))) (lexJson t)"
  by (simp add: quoted_def lexJson.simps(2) jsonSpace_def lexToken_def readString_escape)

text \<open>\<open>lexes s xs\<close>: the text \<open>s\<close> in front of any other reads as the tokens \<open>xs\<close> in front of its own.\<close>

definition lexes :: "string \<Rightarrow> token list \<Rightarrow> bool" where
  "lexes s xs \<longleftrightarrow>
     (\<forall>t. lexJson (s @ t) = (case lexJson t of None \<Rightarrow> None | Some ys \<Rightarrow> Some (xs @ ys)))"

lemma lexes_append: "lexes s xs \<Longrightarrow> lexes t ys \<Longrightarrow> lexes (s @ t) (xs @ ys)"
  by (simp add: lexes_def split: option.split)

lemma lexes_sym: "c \<in> set ''{}[],:'' \<Longrightarrow> lexes [c] [TSym c]"
  by (simp add: lexes_def lexJson_sym map_option_case del: list.set split: option.split)

lemma lexes_string: "lexes (quoted s) [TVal (JStr (toValid s))]"
  by (simp add: lexes_def lexJson_quoted map_option_case split: option.split)

lemma lexes_Nil: "lexes [] []"
  by (simp add: lexes_def split: option.split)

lemma lexes_Cons: "lexes s xs \<Longrightarrow> c \<in> set ''{}[],:'' \<Longrightarrow> lexes (c # s) (TSym c # xs)"
  using lexes_append [OF lexes_sym, of c s xs] by simp

lemma lexes_sep:
  "list_all2 lexes ss xss \<Longrightarrow> lexes (sepWith (CHR '','') ss) (sepWith (TSym (CHR '','')) xss)"
proof (cases ss)
  case (Cons s ss')
  assume "list_all2 lexes ss xss"
  then obtain xs xss' where x: "xss = xs # xss'" "lexes s xs" "list_all2 lexes ss' xss'"
    by (auto simp: Cons list_all2_Cons1)
  from x(3) have "lexes (concat (map ((#) (CHR '','')) ss')) (concat (map ((#) (TSym (CHR '',''))) xss'))"
  proof (induction rule: list_all2_induct)
    case (Cons s ss xs xss)
    then have "lexes (s @ concat (map ((#) (CHR '','')) ss)) (xs @ concat (map ((#) (TSym (CHR '',''))) xss))"
      by (intro lexes_append)
    then show ?case using lexes_Cons by simp
  qed (simp add: lexes_Nil)
  with x Cons show ?thesis by (simp add: lexes_append)
qed (simp add: lexes_Nil)

lemma lexes_literals:
  "lexes ''null'' [TVal JNull]" "lexes ''true'' [TVal (JBool True)]" "lexes ''false'' [TVal (JBool False)]"
  by (simp_all add: lexes_def lexJson.simps(2) jsonSpace_def lexToken_def HasPrefix_def map_option_case split: option.split)

lemma lexes_bracketed:
  "lexes s xs \<Longrightarrow> a \<in> set ''{}[],:'' \<Longrightarrow> b \<in> set ''{}[],:'' \<Longrightarrow> lexes (a # s @ [b]) (TSym a # xs @ [TSym b])"
  by (intro lexes_Cons lexes_append lexes_sym)

lemma lexes_render: "nests n v \<Longrightarrow> lexes (render v) (tokensOf v)"
proof (induction v arbitrary: n)
  case (JStr s)
  show ?case by (simp add: lexes_string)
next
  case (JArr vs)
  then obtain m where m: "list_all (nests m) vs" by (cases n) auto
  have "list_all2 lexes (map render vs) (map tokensOf vs)"
    using JArr.IH m by (auto simp: list_all2_map1 list_all2_map2 list_all2_same list_all_iff)
  then show ?case by (auto intro!: lexes_bracketed lexes_sep)
next
  case (JObj kvs)
  then obtain m where m: "list_all (\<lambda>(k, v). nests m v) kvs" by (cases n) auto
  have "lexes (quoted k @ '':'' @ render v) (TVal (JStr (toValid k)) # TSym (CHR '':'') # tokensOf v)"
    if "(k, v) \<in> set kvs" for k v
  proof -
    have "lexes (render v) (tokensOf v)" using JObj.IH [OF that, of v m] m that by (auto simp: list_all_iff)
    then have "lexes ('':'' @ render v) (TSym (CHR '':'') # tokensOf v)" using lexes_Cons by simp
    from lexes_append [OF lexes_string this] show ?thesis by simp
  qed
  then have "list_all2 lexes (map (\<lambda>(k, v). quoted k @ '':'' @ render v) kvs)
      (map (\<lambda>(k, v). TVal (JStr (toValid k)) # TSym (CHR '':'') # tokensOf v) kvs)"
    by (auto simp: list_all2_map1 list_all2_map2 list_all2_same)
  then show ?case by (auto intro!: lexes_bracketed lexes_sep)
qed (auto simp: lexes_literals)

subsection \<open>Reading the value\<close>

text \<open>\<open>reads xs v\<close> under \<open>n\<close> frames left: wherever a value may stand, the tokens are taken for it.\<close>

definition takes :: "nat \<Rightarrow> token list \<Rightarrow> json \<Rightarrow> bool" where
  "takes n xs v \<longleftrightarrow> xs \<noteq> [] \<and> hd xs \<noteq> TSym (CHR '']'') \<and>
     (\<forall>st ys. n + length st \<le> maxNesting \<longrightarrow>
        parseTokens MVal st (xs @ ys) = parseTokens (MAfter v) st ys)"

lemma takes_first:
  assumes "takes n xs v" "n + length st \<le> maxNesting"
  shows "parseTokens MFirst st (xs @ ys) = parseTokens (MAfter v) st ys"
proof -
  from assms(1) obtain x xs' where "xs = x # xs'" "x \<noteq> TSym (CHR '']'')" by (cases xs) (auto simp: takes_def)
  then have "parseTokens MFirst st (xs @ ys) = parseTokens MVal st (xs @ ys)" by simp
  with assms show ?thesis by (simp add: takes_def)
qed

lemma elements_taken:
  assumes "list_all2 (takes n) xss vs" "n + Suc (length st) \<le> maxNesting"
  shows "parseTokens (MAfter v) (FArr us # st)
      (concat (map ((#) (TSym (CHR '',''))) xss) @ TSym (CHR '']'') # ys) =
    parseTokens (MAfter (JArr (us @ v # vs))) st ys"
  using assms(1)
proof (induction arbitrary: us v rule: list_all2_induct)
  case (Cons xs xss w vs)
  have "parseTokens MVal (FArr (us @ [v]) # st) (xs @ zs) = parseTokens (MAfter w) (FArr (us @ [v]) # st) zs" for zs
    using Cons(1) assms(2) by (simp add: takes_def)
  with Cons.IH [of w "us @ [v]"] show ?case by (simp add: afterValue_def)
qed (simp add: afterValue_def)

lemma members_taken:
  assumes "list_all2 (takes n) (map snd kxs) vs" "n + Suc (length st) \<le> maxNesting"
  shows "parseTokens (MAfter v) (FKey k kvs # st)
      (concat (map ((#) (TSym (CHR '','')) \<circ> (\<lambda>(k, xs). TVal (JStr k) # TSym (CHR '':'') # xs)) kxs) @ TSym (CHR ''}'') # ys) =
    parseTokens (MAfter (JObj (kvs @ (k, v) # zip (map fst kxs) vs))) st ys"
  using assms(1)
proof (induction kxs arbitrary: vs kvs k v)
  case (Cons kx kxs)
  obtain k' xs where kx: "kx = (k', xs)" by (cases kx)
  with Cons.prems obtain w vs' where vs: "vs = w # vs'" "takes n xs w" "list_all2 (takes n) (map snd kxs) vs'"
    by (auto simp: list_all2_Cons1)
  have "parseTokens MVal (FKey k' (kvs @ [(k, v)]) # st) (xs @ zs) =
      parseTokens (MAfter w) (FKey k' (kvs @ [(k, v)]) # st) zs" for zs
    using vs(2) assms(2) by (simp add: takes_def)
  with Cons.IH [OF vs(3), of w k' "kvs @ [(k, v)]"] show ?case
    by (simp add: afterValue_def startKey_def kx vs(1))
qed (simp add: afterValue_def)

lemma takes_array:
  assumes "list_all2 (takes n) xss vs"
  shows "takes (Suc n) (TSym (CHR ''['') # sepWith (TSym (CHR '','')) xss @ [TSym (CHR '']'')]) (JArr vs)"
  unfolding takes_def
proof (intro conjI allI impI)
  fix st :: "frame list" and ys :: "token list"
  assume d: "Suc n + length st \<le> maxNesting"
  show "parseTokens MVal st ((TSym (CHR ''['') # sepWith (TSym (CHR '','')) xss @ [TSym (CHR '']'')]) @ ys) =
      parseTokens (MAfter (JArr vs)) st ys"
  proof (cases xss)
    case Nil
    with assms d show ?thesis by (simp add: startValue_def)
  next
    case (Cons xs xss')
    with assms obtain w vs' where vs: "vs = w # vs'" "takes n xs w" "list_all2 (takes n) xss' vs'"
      by (auto simp: list_all2_Cons1)
    from takes_first [OF vs(2), of "FArr [] # st"] elements_taken [OF vs(3), of st w "[]" ys] d
    show ?thesis by (simp add: Cons vs(1) startValue_def)
  qed
qed simp_all

lemma takes_object:
  assumes "list_all2 (takes n) (map snd kxs) vs"
  shows "takes (Suc n) (TSym (CHR ''{'') # sepWith (TSym (CHR '',''))
      (map (\<lambda>(k, xs). TVal (JStr k) # TSym (CHR '':'') # xs) kxs) @ [TSym (CHR ''}'')])
    (JObj (zip (map fst kxs) vs))"
  unfolding takes_def
proof (intro conjI allI impI)
  fix st :: "frame list" and ys :: "token list"
  assume d: "Suc n + length st \<le> maxNesting"
  show "parseTokens MVal st ((TSym (CHR ''{'') # sepWith (TSym (CHR '',''))
      (map (\<lambda>(k, xs). TVal (JStr k) # TSym (CHR '':'') # xs) kxs) @ [TSym (CHR ''}'')]) @ ys) =
      parseTokens (MAfter (JObj (zip (map fst kxs) vs))) st ys"
  proof (cases kxs)
    case Nil
    with assms d show ?thesis by (simp add: startValue_def)
  next
    case (Cons kx kxs')
    obtain k xs where kx: "kx = (k, xs)" by (cases kx)
    with assms Cons obtain w vs' where vs: "vs = w # vs'" "takes n xs w" "list_all2 (takes n) (map snd kxs') vs'"
      by (auto simp: list_all2_Cons1)
    have "parseTokens MVal (FKey k [] # st) (xs @ zs) = parseTokens (MAfter w) (FKey k [] # st) zs" for zs
      using vs(2) d by (simp add: takes_def)
    with members_taken [OF vs(3), of st w k "[]" ys] d show ?thesis
      by (simp add: Cons kx vs(1) startValue_def startKey_def)
  qed
qed simp_all

lemma takes_render: "nests n v \<Longrightarrow> takes n (tokensOf v) (coerce v)"
proof (induction v arbitrary: n)
  case (JArr vs)
  then obtain m where m: "n = Suc m" "list_all (nests m) vs" by (cases n) auto
  have "list_all2 (takes m) (map tokensOf vs) (map coerce vs)"
    using JArr.IH m(2) by (auto simp: list_all2_map1 list_all2_map2 list_all2_same list_all_iff)
  from takes_array [OF this] show ?case by (simp add: m(1))
next
  case (JObj kvs)
  then obtain m where m: "n = Suc m" "list_all (\<lambda>(k, v). nests m v) kvs" by (cases n) auto
  let ?kxs = "map (\<lambda>(k, v). (toValid k, tokensOf v)) kvs"
  have "list_all2 (takes m) (map snd ?kxs) (map (coerce \<circ> snd) kvs)"
    using JObj.IH m(2) by (auto simp: list_all2_map1 list_all2_map2 list_all2_same list_all_iff)
  from takes_object [OF this] show ?case
    by (simp add: m(1) comp_def case_prod_unfold zip_map_map zip_same_conv_map)
qed (simp_all add: takes_def startValue_def)

text \<open>Reading what was written gives the value back, coerced.\<close>

lemma parseJson_render:
  assumes "nests maxNesting v"
  shows "parseJson (render v) = Some (coerce v)"
proof -
  have "lexJson (render v) = Some (tokensOf v)"
    using lexes_render [OF assms] by (simp add: lexes_def) (metis append_Nil2 lexJson.simps(1) option.simps(5))
  moreover have "parseTokens MVal [] (tokensOf v @ []) = parseTokens (MAfter (coerce v)) [] []"
    using takes_render [OF assms] unfolding takes_def by (metis add_0_right le_refl list.size(3))
  ultimately show ?thesis by (simp add: parseJson_def)
qed

lemma printable_sepWith: "32 \<le> byteOf c \<Longrightarrow> printable (sepWith c ss) = list_all printable ss"
  by (cases ss) (simp_all add: list.pred_map comp_def)

lemma render_printable: "nests n v \<Longrightarrow> printable (render v)"
proof (induction v arbitrary: n)
  case (JArr vs)
  then obtain m where "list_all (nests m) vs" by (cases n) auto
  with JArr.IH have "list_all printable (map render vs)" by (auto simp: list_all_iff)
  then show ?case by (simp add: printable_sepWith byteOf_def)
next
  case (JObj kvs)
  then obtain m where "list_all (\<lambda>(k, v). nests m v) kvs" by (cases n) auto
  with JObj.IH have "list_all printable (map (\<lambda>(k, v). quoted k @ '':'' @ render v) kvs)"
    by (auto simp: list_all_iff quoted_printable byteOf_def)
  then show ?case by (simp add: printable_sepWith byteOf_def)
qed (auto simp: quoted_printable byteOf_def)

end
