(* ===== verification/Wire.thy ===== *)
theory Wire
  imports Cache JsonFacts
begin

text \<open>
  The three structs that are written as JSON lines: \<open>Job\<close> (\<open>discover.go\<close>) and \<open>Result\<close> (\<open>worker.go\<close>) on the
  pipe, \<open>cacheEntry\<close> (\<open>cache.go\<close>) in the cache files. The text of a struct follows its tags; reading one
  back matches keys exactly and then case-folded, skips unknown keys, and fails on a value of another
  type. The error text of a bad line is a parameter of whoever reports it.
\<close>

section \<open>Writing\<close>

definition omitEmpty :: "bool \<Rightarrow> string \<Rightarrow> json \<Rightarrow> (string \<times> json) list" where
  "omitEmpty omitted k v = (if omitted then [] else [(k, v)])"

definition moduleJson :: "stagedModule \<Rightarrow> json" where
  "moduleJson m = JObj [(''name'', JStr (smName m)), (''source'', JStr (smSource m))]"

definition jobJson :: "job \<Rightarrow> json" where
  "jobJson j =
     JObj ([(''id'', JStr (jID j)), (''name'', JStr (jName j)), (''source'', JStr (jSource j))] @
       omitEmpty (jEntryName j = []) ''entryName'' (JStr (jEntryName j)) @
       omitEmpty (jModules j = []) ''modules'' (JArr (map moduleJson (jModules j))) @
       omitEmpty (\<not> jAsync j) ''async'' (JBool (jAsync j)) @
       omitEmpty (jNegType j = []) ''negType'' (JStr (jNegType j)) @
       omitEmpty (jNegPhase j = []) ''negPhase'' (JStr (jNegPhase j)))"

definition resultJson :: "result \<Rightarrow> json" where
  "resultJson r =
     JObj ([(''id'', JStr (rID r)), (''status'', JStr (rStatus r))] @
       omitEmpty (rError r = []) ''error'' (JStr (rError r)) @
       omitEmpty (rTailKey r = []) ''tk'' (JStr (rTailKey r)))"

definition entryJson :: "cacheEntry \<Rightarrow> json" where
  "entryJson e =
     JObj ([(''key'', JStr (ceKey e)), (''status'', JStr (ceStatus e))] @
       omitEmpty (ceError e = []) ''error'' (JStr (ceError e)))"

definition marshalJob :: "job \<Rightarrow> string" where "marshalJob j = render (jobJson j)"
definition marshalResult :: "result \<Rightarrow> string" where "marshalResult r = render (resultJson r)"
definition marshalEntry :: "cacheEntry \<Rightarrow> string" where "marshalEntry e = render (entryJson e)"

text \<open>As the cache asks for it; marshalling strings never fails.\<close>

definition entryText :: "cacheEntry \<Rightarrow> string option" where "entryText e = Some (marshalEntry e)"

section \<open>Reading\<close>

text \<open>\<open>foldName\<close>: ASCII letters in upper case; the only other runes that fold to one are the long s and the
  Kelvin sign.\<close>

definition foldByte :: "char \<Rightarrow> char" where
  "foldByte c = (if 97 \<le> byteOf c \<and> byteOf c \<le> 122 then char_of (byteOf c - 32) else c)"

definition foldRune :: "string \<Rightarrow> string" where
  "foldRune u =
     (if u = [CHR 0xC5, CHR 0xBF] then ''S'' else if u = [CHR 0xE2, CHR 0x84, CHR 0xAA] then ''K''
      else map foldByte u)"

definition foldName :: "string \<Rightarrow> string" where
  "foldName k = concat (map (foldRune \<circ> runeBytes) (runes k))"

definition fieldOf :: "string list \<Rightarrow> string \<Rightarrow> string option" where
  "fieldOf names k = (if k \<in> set names then Some k else List.find (\<lambda>n. foldName n = foldName k) names)"

text \<open>The members in order, into a struct; \<open>null\<close> leaves any value but a slice as it is.\<close>

fun assignFields :: "string list \<Rightarrow> (string \<Rightarrow> json \<Rightarrow> 'a \<Rightarrow> 'a option) \<Rightarrow> (string \<times> json) list \<Rightarrow> 'a \<Rightarrow> 'a option" where
  "assignFields names assign [] x = Some x"
| "assignFields names assign ((k, v) # kvs) x =
     (case (case fieldOf names k of None \<Rightarrow> Some x | Some n \<Rightarrow> assign n v x) of
        None \<Rightarrow> None
      | Some y \<Rightarrow> assignFields names assign kvs y)"

definition assignStruct :: "string list \<Rightarrow> (string \<Rightarrow> json \<Rightarrow> 'a \<Rightarrow> 'a option) \<Rightarrow> json \<Rightarrow> 'a \<Rightarrow> 'a option" where
  "assignStruct names assign v x =
     (case v of JNull \<Rightarrow> Some x | JObj kvs \<Rightarrow> assignFields names assign kvs x | _ \<Rightarrow> None)"

definition assignString :: "json \<Rightarrow> (string \<Rightarrow> 'a) \<Rightarrow> 'a \<Rightarrow> 'a option" where
  "assignString v f x = (case v of JStr s \<Rightarrow> Some (f s) | JNull \<Rightarrow> Some x | _ \<Rightarrow> None)"

definition assignBool :: "json \<Rightarrow> (bool \<Rightarrow> 'a) \<Rightarrow> 'a \<Rightarrow> 'a option" where
  "assignBool v f x = (case v of JBool b \<Rightarrow> Some (f b) | JNull \<Rightarrow> Some x | _ \<Rightarrow> None)"

definition moduleField :: "string \<Rightarrow> json \<Rightarrow> stagedModule \<Rightarrow> stagedModule option" where
  "moduleField n v m =
     (if n = ''name'' then assignString v (\<lambda>s. m\<lparr>smName := s\<rparr>) m
      else assignString v (\<lambda>s. m\<lparr>smSource := s\<rparr>) m)"

definition zeroModule :: stagedModule where
  "zeroModule = \<lparr>smName = [], smSource = []\<rparr>"

text \<open>An array is decoded over the memory of the slice it goes to: its elements, and what is left of it.\<close>

fun fillModules :: "stagedModule list \<Rightarrow> json list \<Rightarrow> (stagedModule list \<times> stagedModule list) option" where
  "fillModules backing [] = Some ([], backing)"
| "fillModules backing (v # vs) =
     (case assignStruct [''name'', ''source''] moduleField v (case backing of [] \<Rightarrow> zeroModule | m # _ \<Rightarrow> m) of
        None \<Rightarrow> None
      | Some m \<Rightarrow> map_option (\<lambda>(ms, rest). (m # ms, rest)) (fillModules (tl backing) vs))"

definition assignModules ::
  "json \<Rightarrow> stagedModule list \<Rightarrow> (stagedModule list \<times> stagedModule list) option" where
  "assignModules v backing =
     (case v of
        JNull \<Rightarrow> Some ([], [])
      | JArr vs \<Rightarrow> if vs = [] then Some ([], []) else fillModules backing vs
      | _ \<Rightarrow> None)"

text \<open>The second component is the memory behind the slice of modules.\<close>

definition jobField :: "string \<Rightarrow> json \<Rightarrow> job \<times> stagedModule list \<Rightarrow> (job \<times> stagedModule list) option" where
  "jobField n v jb =
     (let (j, behind) = jb in
      if n = ''id'' then assignString v (\<lambda>s. (j\<lparr>jID := s\<rparr>, behind)) jb
      else if n = ''name'' then assignString v (\<lambda>s. (j\<lparr>jName := s\<rparr>, behind)) jb
      else if n = ''source'' then assignString v (\<lambda>s. (j\<lparr>jSource := s\<rparr>, behind)) jb
      else if n = ''entryName'' then assignString v (\<lambda>s. (j\<lparr>jEntryName := s\<rparr>, behind)) jb
      else if n = ''modules'' then
        map_option (\<lambda>(ms, rest). (j\<lparr>jModules := ms\<rparr>, rest)) (assignModules v (jModules j @ behind))
      else if n = ''async'' then assignBool v (\<lambda>b. (j\<lparr>jAsync := b\<rparr>, behind)) jb
      else if n = ''negType'' then assignString v (\<lambda>s. (j\<lparr>jNegType := s\<rparr>, behind)) jb
      else assignString v (\<lambda>s. (j\<lparr>jNegPhase := s\<rparr>, behind)) jb)"

definition resultField :: "string \<Rightarrow> json \<Rightarrow> result \<Rightarrow> result option" where
  "resultField n v r =
     (if n = ''id'' then assignString v (\<lambda>s. r\<lparr>rID := s\<rparr>) r
      else if n = ''status'' then assignString v (\<lambda>s. r\<lparr>rStatus := s\<rparr>) r
      else if n = ''error'' then assignString v (\<lambda>s. r\<lparr>rError := s\<rparr>) r
      else assignString v (\<lambda>s. r\<lparr>rTailKey := s\<rparr>) r)"

definition entryField :: "string \<Rightarrow> json \<Rightarrow> cacheEntry \<Rightarrow> cacheEntry option" where
  "entryField n v e =
     (if n = ''key'' then assignString v (\<lambda>s. e\<lparr>ceKey := s\<rparr>) e
      else if n = ''status'' then assignString v (\<lambda>s. e\<lparr>ceStatus := s\<rparr>) e
      else assignString v (\<lambda>s. e\<lparr>ceError := s\<rparr>) e)"

definition zeroJob :: job where
  "zeroJob = \<lparr>jID = [], jName = [], jSource = [], jEntryName = [], jModules = [], jAsync = False,
     jNegType = [], jNegPhase = []\<rparr>"

definition unmarshalJob :: "string \<Rightarrow> job option" where
  "unmarshalJob s =
     Option.bind (parseJson s) (\<lambda>v. map_option fst
       (assignStruct [''id'', ''name'', ''source'', ''entryName'', ''modules'', ''async'', ''negType'', ''negPhase'']
          jobField v (zeroJob, [])))"

definition unmarshalResult :: "string \<Rightarrow> result option" where
  "unmarshalResult s =
     Option.bind (parseJson s) (\<lambda>v.
       assignStruct [''id'', ''status'', ''error'', ''tk''] resultField v
         \<lparr>rID = [], rStatus = [], rError = [], rTailKey = []\<rparr>)"

definition unmarshalEntry :: "string \<Rightarrow> cacheEntry option" where
  "unmarshalEntry s =
     Option.bind (parseJson s) (\<lambda>v.
       assignStruct [''key'', ''status'', ''error''] entryField v \<lparr>ceKey = [], ceStatus = [], ceError = []\<rparr>)"

section \<open>What survives\<close>

definition validModule :: "stagedModule \<Rightarrow> stagedModule" where
  "validModule m = \<lparr>smName = toValid (smName m), smSource = toValid (smSource m)\<rparr>"

definition validJob :: "job \<Rightarrow> job" where
  "validJob j =
     \<lparr>jID = toValid (jID j), jName = toValid (jName j), jSource = toValid (jSource j),
      jEntryName = toValid (jEntryName j), jModules = map validModule (jModules j), jAsync = jAsync j,
      jNegType = toValid (jNegType j), jNegPhase = toValid (jNegPhase j)\<rparr>"

definition validResult :: "result \<Rightarrow> result" where
  "validResult r =
     \<lparr>rID = toValid (rID r), rStatus = toValid (rStatus r), rError = toValid (rError r),
      rTailKey = toValid (rTailKey r)\<rparr>"

definition validEntry :: "cacheEntry \<Rightarrow> cacheEntry" where
  "validEntry e =
     \<lparr>ceKey = toValid (ceKey e), ceStatus = toValid (ceStatus e), ceError = toValid (ceError e)\<rparr>"

lemma toValid_Nil [simp]: "toValid [] = []"
  by (simp add: toValid_def)

text \<open>The names of the tags are ASCII.\<close>

lemma toValid_names [simp]:
  "toValid ''id'' = ''id''" "toValid ''name'' = ''name''" "toValid ''source'' = ''source''"
  "toValid ''entryName'' = ''entryName''" "toValid ''modules'' = ''modules''" "toValid ''async'' = ''async''"
  "toValid ''negType'' = ''negType''" "toValid ''negPhase'' = ''negPhase''" "toValid ''status'' = ''status''"
  "toValid ''error'' = ''error''" "toValid ''tk'' = ''tk''" "toValid ''key'' = ''key''"
  by (intro toValid_id ascii_valid, simp add: ascii_def byteOf_def)+

lemma fieldOf_exact: "k \<in> set names \<Longrightarrow> fieldOf names k = Some k"
  by (simp add: fieldOf_def)

lemma assignFields_append:
  "assignFields names f (xs @ ys) x =
     (case assignFields names f xs x of None \<Rightarrow> None | Some y \<Rightarrow> assignFields names f ys y)"
  by (induction xs arbitrary: x) (auto split: option.splits)

abbreviation coerced :: "(string \<times> json) list \<Rightarrow> (string \<times> json) list" where
  "coerced \<equiv> map (\<lambda>(k, v). (toValid k, coerce v))"

lemma assignFields_omitEmpty:
  "assignFields names f (coerced (omitEmpty omitted k v) @ ys) x =
     (if omitted then assignFields names f ys x
      else assignFields names f ((toValid k, coerce v) # ys) x)"
  by (simp add: omitEmpty_def)

lemmas assign_defs = assignStruct_def assignString_def assignBool_def assignFields_omitEmpty
  assignFields_omitEmpty [where ys = "[]", simplified] fieldOf_exact

lemma fillModules_modules:
  "fillModules [] (map (coerce \<circ> moduleJson) ms) = Some (map validModule ms, [])"
  by (induction ms)
    (simp_all add: moduleJson_def assign_defs moduleField_def zeroModule_def validModule_def)

lemma nests_maxNesting: "nests (Suc (Suc (Suc n))) (jobJson j)"
  "nests (Suc (Suc (Suc n))) (resultJson r)" "nests (Suc (Suc (Suc n))) (entryJson e)"
  by (auto simp: jobJson_def resultJson_def entryJson_def omitEmpty_def moduleJson_def list_all_iff)

lemma parseJson_structs:
  "parseJson (marshalJob j) = Some (coerce (jobJson j))"
  "parseJson (marshalResult r) = Some (coerce (resultJson r))"
  "parseJson (marshalEntry e) = Some (coerce (entryJson e))"
proof -
  have "maxNesting = Suc (Suc (Suc 9997))" by (simp add: maxNesting_def)
  with nests_maxNesting [of 9997] parseJson_render
  show "parseJson (marshalJob j) = Some (coerce (jobJson j))"
    "parseJson (marshalResult r) = Some (coerce (resultJson r))"
    "parseJson (marshalEntry e) = Some (coerce (entryJson e))"
    by (simp_all only: marshalJob_def marshalResult_def marshalEntry_def)
qed

lemma unmarshal_marshalResult: "unmarshalResult (marshalResult r) = Some (validResult r)"
  by (simp add: unmarshalResult_def parseJson_structs resultJson_def assign_defs resultField_def validResult_def)

lemma unmarshal_marshalEntry: "unmarshalEntry (marshalEntry e) = Some (validEntry e)"
  by (simp add: unmarshalEntry_def parseJson_structs entryJson_def assign_defs entryField_def validEntry_def)

lemma unmarshal_marshalJob: "unmarshalJob (marshalJob j) = Some (validJob j)"
  by (simp add: unmarshalJob_def parseJson_structs jobJson_def assign_defs jobField_def validJob_def zeroJob_def
      assignModules_def fillModules_modules)

end
