(* ===== verification/JsonTorn.thy ===== *)
theory JsonTorn
  imports JsonFacts
begin

text \<open>
  A torn line is never read: no strict prefix of the JSON text of an object parses. The scan of a text
  that parses as an object is closed, so more bytes only add tokens after it.
\<close>

section \<open>Tokens of an extended text\<close>

lemma someDigits_extend:
  "someDigits s = Some (d, t) \<Longrightarrow> t \<noteq> [] \<Longrightarrow> someDigits (s @ q) = Some (d, t @ q)"
  by (auto simp: someDigits_def takeWhile_append dropWhile_append dropWhile_eq_Nil_conv split: if_splits)

lemma someDigits_all:
  assumes "someDigits s = Some (d, [])"
  shows "someDigits (s @ q) = Some (d @ takeWhile jsonDigit q, dropWhile jsonDigit q)"
proof -
  from assms have "\<forall>x \<in> set s. jsonDigit x" by (auto simp: someDigits_def dropWhile_eq_Nil_conv split: if_splits)
  moreover have "s = d" "d \<noteq> []" using someDigits_split [OF assms] by simp_all
  ultimately show ?thesis by (simp add: someDigits_def takeWhile_append dropWhile_append)
qed

lemma lexInteger_extend:
  assumes "lexInteger s = Some (d, t)" "t \<noteq> []"
  shows "lexInteger (s @ q) = Some (d, t @ q)"
proof -
  obtain d' t' where d: "someDigits s = Some (d', t')" using assms(1) by (auto simp: lexInteger_def split: option.splits)
  from someDigits_split [OF d] have ne: "d' \<noteq> []" by simp
  show ?thesis
  proof (cases "t' = []")
    case True
    with someDigits_all [of s d' q] d ne assms show ?thesis
      by (auto simp: lexInteger_def split: if_splits)
  next
    case False
    with someDigits_extend [OF d False, of q] assms(1) d show ?thesis
      by (auto simp: lexInteger_def split: if_splits)
  qed
qed

lemma lexFraction_extend: "lexFraction s = Some (d, t) \<Longrightarrow> t \<noteq> [] \<Longrightarrow> lexFraction (s @ q) = Some (d, t @ q)"
  by (auto simp: lexFraction_def someDigits_extend split: list.splits if_splits)

lemma lexExponent_extend:
  assumes "lexExponent s = Some (d, t)" "t \<noteq> []"
  shows "lexExponent (s @ q) = Some (d, t @ q)"
proof (cases s)
  case (Cons c u)
  show ?thesis
  proof (cases "c = CHR ''e'' \<or> c = CHR ''E''")
    case True
    with assms(1) obtain g w where u: "u = g # w" by (auto simp: lexExponent_def Cons split: list.splits)
    show ?thesis
    proof (cases "g = CHR ''+'' \<or> g = CHR ''-''")
      case sign: True
      with True assms(1) obtain d' where "someDigits w = Some (d', t)" "d = c # g # d'"
        by (auto simp: lexExponent_def Cons u)
      with someDigits_extend [of w d' t q] sign True assms(2) show ?thesis by (auto simp: lexExponent_def Cons u)
    next
      case False
      with True assms(1) obtain d' where "someDigits (g # w) = Some (d', t)" "d = c # d'"
        by (auto simp: lexExponent_def Cons u)
      with someDigits_extend [of "g # w" d' t q] False True assms(2) show ?thesis
        by (auto simp: lexExponent_def Cons u)
    qed
  next
    case False
    with assms show ?thesis by (auto simp: lexExponent_def Cons)
  qed
qed (use assms in \<open>auto simp: lexExponent_def\<close>)

lemma lexNumber_extend:
  assumes "lexNumber s = Some (n, t)" "t \<noteq> []"
  shows "lexNumber (s @ q) = Some (n, t @ q)"
proof -
  obtain g s1 where g: "(case s of [] \<Rightarrow> ([], []) | c # t \<Rightarrow> if c = CHR ''-'' then ([c], t) else ([], s)) = (g, s1)"
    by (cases "case s of [] \<Rightarrow> ([], []) | c # t \<Rightarrow> if c = CHR ''-'' then ([c], t) else ([], s)")
  with assms(1) obtain i s2 f s3 x where p: "lexInteger s1 = Some (i, s2)" "lexFraction s2 = Some (f, s3)"
    "lexExponent s3 = Some (x, t)" "n = g @ i @ f @ x"
    by (auto simp: lexNumber_def split: option.splits)
  from lexExponent_split [OF p(3)] lexFraction_split [OF p(2)] assms(2) have ne: "s3 \<noteq> []" "s2 \<noteq> []" by auto
  with lexInteger_split [OF p(1)] have "s1 \<noteq> []" by simp
  with g have g': "(case s @ q of [] \<Rightarrow> ([], []) | c # t \<Rightarrow> if c = CHR ''-'' then ([c], t) else ([], s @ q)) = (g, s1 @ q)"
    by (auto split: list.splits if_splits)
  from lexInteger_extend [OF p(1) ne(2)] lexFraction_extend [OF p(2) ne(1)] lexExponent_extend [OF p(3) assms(2)]
  show ?thesis by (simp add: lexNumber_def g' p(4))
qed

lemma lexNumber_start: "lexNumber (c # s) = Some y \<Longrightarrow> c = CHR ''-'' \<or> jsonDigit c"
  by (auto simp: lexNumber_def lexInteger_def someDigits_def split: if_splits option.splits)

lemma hex4_extend: "hex4 s = Some (n, t) \<Longrightarrow> hex4 (s @ q) = Some (n, t @ q)"
  by (induction s rule: hex4.induct) (auto split: option.splits)

lemma hex4_suffix: "hex4 s = Some (n, t) \<Longrightarrow> \<exists>a. s = a @ t"
  by (induction s rule: hex4.induct) (auto split: option.splits)

lemma unicodeEscape_suffix: "\<exists>a. s = a @ snd (unicodeEscape n s)"
  by (auto simp: unicodeEscape_def split: list.splits option.splits dest!: hex4_suffix)

lemma readEscape_suffix: "readEscape s = Some (u, t) \<Longrightarrow> \<exists>a. s = a @ t"
proof (cases s)
  case (Cons c s')
  assume r: "readEscape s = Some (u, t)"
  show ?thesis
  proof (cases "c = CHR ''u''")
    case True
    with r obtain n s'' where h: "hex4 s' = Some (n, s'')" "unicodeEscape n s'' = (u, t)"
      by (auto simp: readEscape_def Cons)
    with hex4_suffix [OF h(1)] unicodeEscape_suffix [of s'' n] show ?thesis by (fastforce simp: Cons)
  next
    case False
    with r show ?thesis by (auto simp: readEscape_def Cons)
  qed
qed (simp add: readEscape_def)

lemma readString_closed: "readString s \<noteq> None \<Longrightarrow> DQUOTE \<in> set s"
proof (induction s rule: readString.induct)
  case (2 c s)
  consider "c = DQUOTE" | "c \<noteq> DQUOTE" "c = BSLASH" | "c \<noteq> DQUOTE" "c \<noteq> BSLASH" "\<not> byteOf c < 32"
    using "2.prems" by (auto simp: readString.simps(2) split: if_splits)
  then show ?case
  proof cases
    case 2
    with "2.prems" obtain u s' where r: "readEscape s = Some (u, s')" "readString s' \<noteq> None"
      by (auto simp: readString.simps(2) split: option.splits)
    from "2.IH"(1) [OF 2 r(1) refl r(2)] have "DQUOTE \<in> set s'" .
    moreover obtain a where "s = a @ s'" using readEscape_suffix [OF r(1)] by blast
    ultimately show ?thesis by simp
  next
    case 3
    show ?thesis
    proof (cases "runeLen (c # s)")
      case None
      with 3 "2.prems" "2.IH"(2) [OF 3 None] show ?thesis by (auto simp: readString.simps(2))
    next
      case (Some n)
      with 3 "2.prems" have "readString (drop n (c # s)) \<noteq> None"
        by (auto simp: readString.simps(2) simp del: runeLen.simps)
      with "2.IH"(3) [OF 3 Some] have "DQUOTE \<in> set (c # s)" by (blast dest: in_set_dropD)
      then show ?thesis .
    qed
  qed simp
qed simp

lemma runeLen_extend: "runeLen s = Some n \<Longrightarrow> runeLen (s @ q) = Some n"
  using runeLen_take [of s n "drop n s @ q"] by (simp flip: append_assoc)

text \<open>A truncated rune before the closing quote stays one.\<close>

lemma runeLen_extend_None:
  assumes "runeLen (c # s) = None" "DQUOTE \<in> set s"
  shows "runeLen (c # s @ q) = None"
proof (rule ccontr)
  assume "runeLen (c # s @ q) \<noteq> None"
  then obtain n where n: "runeLen ((c # s) @ q) = Some n" by auto
  show False
  proof (cases "n \<le> length (c # s)")
    case True
    then have "take n ((c # s) @ q) = take n (c # s)" unfolding take_append by simp
    then have "take n ((c # s) @ q) @ drop n (c # s) = c # s" by simp
    with runeLen_take [OF n, of "drop n (c # s)"] assms(1) show False by (simp only:) simp
  next
    case False
    let ?r = "take n ((c # s) @ q)"
    from False have "take n (c # s) = c # s" by simp
    then have in_r: "set (c # s) \<subseteq> set ?r" unfolding take_append by (metis set_append sup_ge1)
    have "isRune ?r" using runeLen_take [OF n, of "[]"] runeLen_bounds [OF n]
      by (simp add: isRune_def min_absorb2 del: runeLen.simps take_append)
    moreover have "length ?r \<noteq> 1" using False runeLen_bounds [OF n] by simp
    ultimately have "128 \<le> byteOf DQUOTE" using isRune_multi [of ?r DQUOTE] assms(2) in_r by auto
    then show False by (simp add: byteOf_def)
  qed
qed

lemma unicodeEscape_extend:
  assumes "readString (snd (unicodeEscape n s)) \<noteq> None"
  shows "unicodeEscape n (s @ q) = (fst (unicodeEscape n s), snd (unicodeEscape n s) @ q)"
proof (cases "55296 \<le> n \<and> n < 57344")
  case True
  have h: "hex4 s' \<noteq> None" if "s = BSLASH # CHR ''u'' # s'" "unicodeEscape n s = (u, s)" for s' u
    using assms that by (auto simp: readString.simps(2) readEscape_def split: option.splits)
  consider "s = []" | a where "s = [a]" | a b s' where "s = a # b # s'" by (metis list.exhaust)
  then show ?thesis
  proof cases
    case 1
    with assms True show ?thesis by (simp add: unicodeEscape_def)
  next
    case (2 a)
    with assms True have "a \<noteq> BSLASH"
      by (auto simp: unicodeEscape_def readString.simps(2) readEscape_def split: if_splits)
    with 2 True show ?thesis by (auto simp: unicodeEscape_def split: list.split)
  next
    case (3 a b s')
    show ?thesis
    proof (cases "a = BSLASH \<and> b = CHR ''u''")
      case esc: True
      show ?thesis
      proof (cases "hex4 s'")
        case None
        with True esc 3 have "unicodeEscape n s = (runeError, s)" by (simp add: unicodeEscape_def)
        with h [of s' runeError] None esc 3 show ?thesis by simp
      next
        case (Some mt)
        obtain m t where mt: "mt = (m, t)" by (cases mt)
        with hex4_extend [of s' m t q] Some True esc 3 show ?thesis by (simp add: unicodeEscape_def)
      qed
    next
      case False
      with True 3 show ?thesis by (auto simp: unicodeEscape_def)
    qed
  qed
next
  case False
  then show ?thesis unfolding unicodeEscape_def by (simp only: if_False fst_conv snd_conv)
qed

lemma readEscape_extend:
  assumes "readEscape s = Some (u, t)" "readString t \<noteq> None"
  shows "readEscape (s @ q) = Some (u, t @ q)"
proof (cases s)
  case (Cons c s')
  show ?thesis
  proof (cases "c = CHR ''u''")
    case True
    with assms(1) Cons obtain n s'' where h: "hex4 s' = Some (n, s'')" "unicodeEscape n s'' = (u, t)"
      by (auto simp: readEscape_def)
    with assms(2) unicodeEscape_extend [of n s'' q] hex4_extend [OF h(1), of q] True Cons show ?thesis
      by (simp add: readEscape_def)
  next
    case False
    with assms(1) Cons show ?thesis by (auto simp: readEscape_def)
  qed
qed (use assms(1) in \<open>simp add: readEscape_def\<close>)

lemma readString_extend: "readString s = Some (v, t) \<Longrightarrow> readString (s @ q) = Some (v, t @ q)"
proof (induction s arbitrary: v rule: readString.induct)
  case (2 c s)
  consider "c = DQUOTE" | "c \<noteq> DQUOTE" "c = BSLASH" | "c \<noteq> DQUOTE" "c \<noteq> BSLASH" "\<not> byteOf c < 32"
    using "2.prems" by (auto simp: readString.simps(2) split: if_splits)
  then show ?case
  proof cases
    case 1
    with "2.prems" show ?thesis by (simp add: readString.simps(2))
  next
    case 2
    with "2.prems" obtain u s' v' where r: "readEscape s = Some (u, s')" "readString s' = Some (v', t)" "v = u @ v'"
      by (auto simp: readString.simps(2) split: option.splits)
    with "2.IH"(1) [OF 2 r(1) refl r(2)] readEscape_extend [OF r(1), of q] 2 show ?thesis
      by (simp add: readString.simps(2))
  next
    case 3
    show ?thesis
    proof (cases "runeLen (c # s)")
      case None
      with 3 "2.prems" obtain v' where v: "readString s = Some (v', t)" "v = runeError @ v'"
        by (auto simp: readString.simps(2) simp del: runeLen.simps)
      have "runeLen (c # s @ q) = None" using runeLen_extend_None [OF None] readString_closed [of s] v(1) by simp
      with "2.IH"(2) [OF 3 None v(1)] 3 v(2) show ?thesis by (simp add: readString.simps(2) del: runeLen.simps)
    next
      case (Some n)
      with 3 "2.prems" obtain v' where v: "readString (drop n (c # s)) = Some (v', t)" "v = take n (c # s) @ v'"
        by (auto simp: readString.simps(2) simp del: runeLen.simps)
      have "runeLen (c # s @ q) = Some n" using runeLen_extend [OF Some, of q] by simp
      moreover have "drop n (c # s @ q) = drop n (c # s) @ q" "take n (c # s @ q) = take n (c # s)"
        using runeLen_bounds [OF Some] drop_append [of n "c # s" q] take_append [of n "c # s" q] by simp_all
      ultimately show ?thesis using "2.IH"(3) [OF 3 Some v(1)] 3 v(2)
        by (simp add: readString.simps(2) del: runeLen.simps drop_append take_append)
    qed
  qed
qed simp

text \<open>The four kinds of token, by how they begin.\<close>

lemma lexToken_turn:
  assumes "lexToken s = Some (x, t)" "s = c # u"
  obtains (sym) "c \<in> set ''{}[],:''" | (str) "c \<notin> set ''{}[],:''" "c = DQUOTE"
    | (lit) w v where "(w, v) \<in> {(''null'', JNull), (''true'', JBool True), (''false'', JBool False)}"
        "HasPrefix s w" "x = TVal v" "t = drop (length w) s"
    | (num) n where "lexNumber s = Some (n, t)" "x = TVal (JNum n)" "c \<notin> set ''{}[],:''" "c \<noteq> DQUOTE"
proof (cases "c \<in> set ''{}[],:'' \<or> c = DQUOTE")
  case True
  then show thesis using sym str by blast
next
  case False
  consider "HasPrefix s ''null''" | "\<not> HasPrefix s ''null''" "HasPrefix s ''true''"
    | "\<not> HasPrefix s ''null''" "\<not> HasPrefix s ''true''" "HasPrefix s ''false''"
    | "\<not> HasPrefix s ''null''" "\<not> HasPrefix s ''true''" "\<not> HasPrefix s ''false''" by blast
  then show thesis
  proof cases
    case 1
    with assms(1) False show thesis
      by (intro lit [of "''null''" JNull]) (auto simp: lexToken_def assms(2) eval_nat_numeral simp del: list.set)
  next
    case 2
    with assms(1) False show thesis
      by (intro lit [of "''true''" "JBool True"]) (auto simp: lexToken_def assms(2) eval_nat_numeral simp del: list.set)
  next
    case 3
    with assms(1) False show thesis
      by (intro lit [of "''false''" "JBool False"]) (auto simp: lexToken_def assms(2) eval_nat_numeral simp del: list.set)
  next
    case 4
    with assms(1) False show thesis
      by (auto intro!: num simp: lexToken_def assms(2) simp del: list.set)
  qed
qed

lemma lexToken_extend:
  assumes "lexToken s = Some (x, t)" "t \<noteq> [] \<or> (\<exists>c. x = TSym c)"
  shows "lexToken (s @ q) = Some (x, t @ q)"
proof (cases s)
  case (Cons c u)
  from assms(1) Cons show ?thesis
  proof (cases rule: lexToken_turn)
    case sym
    with assms(1) show ?thesis by (auto simp: lexToken_def Cons)
  next
    case str
    with assms(1) obtain v where v: "readString u = Some (v, t)" "x = TVal (JStr v)"
      by (auto simp: lexToken_def Cons)
    with readString_extend [OF v(1), of q] str show ?thesis by (simp add: lexToken_def Cons)
  next
    case (lit w v)
    from lit(2) obtain r where r: "s = w @ r" by (auto simp: HasPrefix_iff)
    have "lexToken (w @ r @ q) = Some (TVal v, r @ q)"
      using lit(1) by (elim insertE emptyE) (simp_all add: lexToken_def HasPrefix_def)
    with lit(3,4) r show ?thesis by simp
  next
    case (num n)
    with assms(2) have "t \<noteq> []" by auto
    from lexNumber_extend [OF num(1) this, of q] have n: "lexNumber (c # u @ q) = Some (n, t @ q)" by (simp add: Cons)
    from lexNumber_start [OF this] have "c \<notin> {CHR ''n'', CHR ''t'', CHR ''f''}"
      by (auto simp: jsonDigit_def byteOf_def)
    then have "\<not> HasPrefix (c # u @ q) ''null''" "\<not> HasPrefix (c # u @ q) ''true''" "\<not> HasPrefix (c # u @ q) ''false''"
      by (auto simp: HasPrefix_def)
    with n num(2,3,4) show ?thesis by (simp add: lexToken_def Cons del: list.set)
  qed
qed (use assms(1) in \<open>simp add: lexToken_def\<close>)

lemma lexJson_blank: "lexJson s = Some [] \<Longrightarrow> list_all jsonSpace s"
  by (induction s rule: lexJson.induct) (auto simp: lexJson.simps(2) split: if_splits option.splits)

lemma lexJson_spaces: "list_all jsonSpace s \<Longrightarrow> lexJson (s @ q) = lexJson q"
  by (induction s) (simp_all add: lexJson.simps(2))

lemma lexJson_extend:
  assumes "lexJson s = Some xs" "xs \<noteq> []" "last xs = TSym c"
  shows "lexJson (s @ q) = map_option ((@) xs) (lexJson q)"
  using assms
proof (induction s arbitrary: xs rule: lexJson.induct)
  case (2 a s)
  show ?case
  proof (cases "jsonSpace a")
    case True
    with 2 show ?thesis by (simp add: lexJson.simps(2))
  next
    case False
    with "2.prems"(1) obtain x t ys where x: "lexToken (a # s) = Some (x, t)" "lexJson t = Some ys" "xs = x # ys"
      by (auto simp: lexJson.simps(2) split: option.splits)
    have "lexJson (t @ q) = map_option ((@) ys) (lexJson q)"
    proof (cases "ys = []")
      case True
      with lexJson_spaces [OF lexJson_blank, of t q] x(2) show ?thesis by (cases "lexJson q") simp_all
    next
      case ne: False
      with "2.IH"(2) [OF False x(1) refl x(2)] "2.prems"(3) x(3) show ?thesis by simp
    qed
    moreover have "t \<noteq> [] \<or> (\<exists>c. x = TSym c)" using x(2,3) "2.prems"(3) by (cases ys) auto
    then have "lexToken (a # s @ q) = Some (x, t @ q)" using lexToken_extend [OF x(1)] by simp
    ultimately show ?thesis using False x(3) by (simp add: lexJson.simps(2) option.map_comp comp_def)
  qed
qed simp

section \<open>Values are closed\<close>

lemma stepToken_open:
  assumes "stepToken m st x = Some (m', st')" "st \<noteq> []"
  shows "st' \<noteq> [] \<or> (\<exists>c. x = TSym c) \<and> (\<exists>v. m' = MAfter v)"
proof (cases m)
  case (MAfter v)
  with assms show ?thesis
    by (auto simp: afterValue_def split: list.splits frame.splits if_splits)
qed (use assms in \<open>auto simp: startValue_def startKey_def split: token.splits json.splits list.splits frame.splits if_splits\<close>)

lemma parseTokens_ends:
  "parseTokens m st xs = Some v \<Longrightarrow> st \<noteq> [] \<Longrightarrow> xs \<noteq> [] \<and> (\<exists>c. last xs = TSym c)"
proof (induction xs arbitrary: m st)
  case (Cons x xs)
  then obtain m' st' where s: "stepToken m st x = Some (m', st')" "parseTokens m' st' xs = Some v"
    by (auto split: option.splits)
  show ?case
  proof (cases "st' = []")
    case True
    with stepToken_open [OF s(1) Cons.prems(2)] obtain c w where "x = TSym c" "m' = MAfter w" by auto
    with s(2) True show ?thesis by (cases xs) (auto simp: afterValue_def)
  next
    case False
    with Cons.IH [OF s(2)] show ?thesis by simp
  qed
qed (auto split: mode.splits list.splits)

lemma parseTokens_more: "parseTokens m st xs = Some v \<Longrightarrow> ys \<noteq> [] \<Longrightarrow> parseTokens m st (xs @ ys) = None"
proof (induction xs arbitrary: m st)
  case Nil
  then show ?case by (cases ys) (auto simp: afterValue_def split: mode.splits list.splits)
qed (auto split: option.splits)

text \<open>A strict prefix of the text of an object is not JSON.\<close>

lemma parseJson_torn:
  assumes "nests maxNesting (JObj kvs)" "p @ q = render (JObj kvs)" "q \<noteq> []"
  shows "parseJson p = None"
proof (rule ccontr)
  assume "parseJson p \<noteq> None"
  then obtain xs v where xs: "lexJson p = Some xs" "parseTokens MVal [] xs = Some v"
    by (auto simp: parseJson_def split: Option.bind_splits)
  have all: "lexJson (p @ q) = Some (tokensOf (JObj kvs))"
    using lexes_render [OF assms(1)] assms(2) by (simp only: lexes_def) (metis append_Nil2 lexJson.simps(1) option.simps(5))
  have whole: "parseTokens MVal [] (tokensOf (JObj kvs)) \<noteq> None"
    using parseJson_render [OF assms(1)] all assms(2) by (simp add: parseJson_def del: render.simps tokensOf.simps)
  have "p \<noteq> []" using xs by auto
  then obtain p' where p: "p = CHR ''{'' # p'" using assms(2) by (cases p) auto
  then obtain ys where ys: "xs = TSym (CHR ''{'') # ys" "parseTokens MFirstKey [FObj []] ys = Some v"
    using xs lexJson_sym [of "CHR ''{''" p'] by (auto simp: startValue_def maxNesting_def)
  from parseTokens_ends [OF ys(2)] ys(1) obtain c where "last xs = TSym c" by auto
  with lexJson_extend [OF xs(1), of c q] ys(1) all obtain zs where zs: "lexJson q = Some zs" "tokensOf (JObj kvs) = xs @ zs"
    by (cases "lexJson q") (simp_all del: tokensOf.simps)
  show False
  proof (cases "zs = []")
    case True
    with zs(1) have "list_all jsonSpace q" using lexJson_blank by simp
    then have "jsonSpace (last (p @ q))" using assms(3) by (simp add: list_all_iff)
    moreover have "last (p @ q) = CHR ''}''" by (simp add: assms(2))
    ultimately show False by (simp add: jsonSpace_def)
  next
    case False
    with parseTokens_more [OF xs(2) False] whole zs(2) show False by (simp only:) simp
  qed
qed

end
