(* ===== verification/CacheFacts.thy ===== *)
theory CacheFacts
  imports Cache
begin

text \<open>
  What the results cache guarantees: which result a key gives after any history of puts, what the
  append stream leaves for the next run, that saving is atomic and round trips, which files
  pruning keeps, and what the keys determine.
\<close>

section \<open>The store interface\<close>

text \<open>The first result worth recording under a key.\<close>

fun firstRecorded :: "string \<Rightarrow> ('o \<times> string \<times> result) list \<Rightarrow> result option" where
  "firstRecorded key [] = None"
| "firstRecorded key ((w, k, r) # hist) =
     (if k = key \<and> \<not> volatileStatus (rStatus r) then Some r else firstRecorded key hist)"

definition rebind :: "string \<Rightarrow> result \<Rightarrow> result" where
  "rebind jid r = \<lparr>rID = jid, rStatus = rStatus r, rError = rError r, rTailKey = []\<rparr>"

locale result_store =
  fixes get :: "'s \<Rightarrow> string \<Rightarrow> string \<Rightarrow> result option"
    and put :: "'o \<Rightarrow> string \<Rightarrow> result \<Rightarrow> 's \<Rightarrow> 's"
  assumes get_rebinds: "get s k i = map_option (rebind i) (get s k j)"
    and put_volatile: "volatileStatus (rStatus r) \<Longrightarrow> get (put w k r s) = get s"
    and put_first: "get s k i = None \<Longrightarrow> \<not> volatileStatus (rStatus r) \<Longrightarrow> get (put w k r s) k j = Some (rebind j r)"
    and put_keeps: "get s k i \<noteq> None \<Longrightarrow> get (put w k' r s) k j = get s k j"
    and put_other: "k' \<noteq> k \<Longrightarrow> get (put w k' r s) k j = get s k j"
begin

abbreviation putAll :: "('o \<times> string \<times> result) list \<Rightarrow> 's \<Rightarrow> 's" where
  "putAll \<equiv> fold (\<lambda>(w, k, r). put w k r)"

lemma get_None_any: "get s k i = None \<Longrightarrow> get s k j = None"
  using get_rebinds [of s k i j] by simp

lemma history_keeps: "get s k i = Some r \<Longrightarrow> get (putAll hist s) k i = Some r"
proof (induction hist arbitrary: s)
  case (Cons x hist)
  obtain w k' r' where "x = (w, k', r')" by (cases x)
  with Cons put_keeps [of s k i w k' r' i] show ?case by simp
qed simp

lemma history_first:
  "get s k i = None \<Longrightarrow> get (putAll hist s) k i = map_option (rebind i) (firstRecorded k hist)"
proof (induction hist arbitrary: s)
  case (Cons x hist)
  obtain w k' r where x: "x = (w, k', r)" by (cases x)
  show ?case
  proof (cases "k' = k \<and> \<not> volatileStatus (rStatus r)")
    case True
    with put_first [of s k i r w i] Cons.prems have "get (put w k' r s) k i = Some (rebind i r)" by simp
    with True history_keeps show ?thesis by (simp add: x)
  next
    case False
    then have "get (put w k' r s) k i = None"
      using put_other [of k' k w r s i] put_volatile [of r w k' s] Cons.prems by (cases "k' = k") auto
    with Cons.IH False show ?thesis by (auto simp: x)
  qed
qed simp

end

lemma Put_entries:
  "ccEntries (fst (Put marshal w k r st)) =
     (if volatileStatus (rStatus r) \<or> ccEntries (fst st) k \<noteq> None then ccEntries (fst st)
      else (ccEntries (fst st))(k \<mapsto> entryOf k r))"
  by (cases st) (auto simp: Put_def Let_def split: stream.split option.split write_outcome.split)

interpretation store: result_store "\<lambda>st. Get (fst st)" "\<lambda>w. Put marshal w" for marshal
proof unfold_locales
  fix s :: "cache \<times> filesystem" and k i j :: string and r w k'
  show "Get (fst s) k i = map_option (rebind i) (Get (fst s) k j)"
    by (simp add: Get_def rebind_def split: option.split)
  show "volatileStatus (rStatus r) \<Longrightarrow> Get (fst (Put marshal w k r s)) = Get (fst s)"
    by (simp add: Get_def [abs_def] Put_entries)
  show "Get (fst s) k i = None \<Longrightarrow> \<not> volatileStatus (rStatus r) \<Longrightarrow>
      Get (fst (Put marshal w k r s)) k j = Some (rebind j r)"
    by (auto simp: Get_def Put_entries rebind_def entryOf_def split: option.splits)
  show "Get (fst s) k i \<noteq> None \<Longrightarrow> Get (fst (Put marshal w k' r s)) k j = Get (fst s) k j"
    by (auto simp: Get_def Put_entries split: option.splits)
  show "k' \<noteq> k \<Longrightarrow> Get (fst (Put marshal w k' r s)) k j = Get (fst s) k j"
    by (auto simp: Get_def Put_entries)
qed

section \<open>Files\<close>

text \<open>An entry the codec and the line format carry.\<close>

definition carried :: "(cacheEntry \<Rightarrow> string option) \<Rightarrow> (string \<Rightarrow> cacheEntry option) \<Rightarrow> cacheEntry \<Rightarrow> bool" where
  "carried marshal unmarshal e \<longleftrightarrow> ceKey e \<noteq> [] \<and>
     (case marshal e of
        None \<Rightarrow> False
      | Some b \<Rightarrow> unmarshal b = Some e \<and> NL \<notin> set b \<and> CR \<notin> set b \<and> length b < cacheLineLimit)"

text \<open>The entries the file of the cache would load as, when its lines are whole.\<close>

definition stored :: "(string \<Rightarrow> cacheEntry option) \<Rightarrow> string \<Rightarrow> string \<rightharpoonup> cacheEntry" where
  "stored unmarshal b = fold (addLine unmarshal) (map dropCR (rawLines b)) Map.empty"

definition shortLines :: "string \<Rightarrow> bool" where
  "shortLines b \<longleftrightarrow> list_all (\<lambda>l. length l < cacheLineLimit) (rawLines b)"

definition onDisk :: "(string \<Rightarrow> cacheEntry option) \<Rightarrow> cache \<times> filesystem \<Rightarrow> bool" where
  "onDisk unmarshal st \<longleftrightarrow> ccStream (fst st) = Open \<and>
     (case readFile (snd st) (ccPath (fst st)) of
        FileData b \<Rightarrow> wholeLines b \<and> shortLines b \<and> stored unmarshal b = ccEntries (fst st)
      | _ \<Rightarrow> False)"

lemma LoadCache_stored:
  "readFile fs path = FileData b \<Longrightarrow> shortLines b \<Longrightarrow>
   LoadCache unmarshal fs path = (Some ((emptyCache path)\<lparr>ccEntries := stored unmarshal b\<rparr>), None)"
  by (simp add: LoadCache_def shortLines_def list_all_iff scanLines_all stored_def)

lemma LoadCache_clean:
  "LoadCache unmarshal fs path = (Some c, None) \<Longrightarrow> readFile fs path = FileData b \<Longrightarrow>
   shortLines b \<and> c = (emptyCache path)\<lparr>ccEntries := stored unmarshal b\<rparr>"
proof -
  assume l: "LoadCache unmarshal fs path = (Some c, None)" and b: "readFile fs path = FileData b"
  from l b have "\<not> snd (scanLines cacheLineLimit b)"
    by (auto simp: LoadCache_def split: prod.splits if_splits)
  then have "shortLines b" by (simp add: scanLines_complete shortLines_def list_all_iff)
  with l LoadCache_stored [OF b] show ?thesis by simp
qed

lemma stored_snoc:
  assumes "carried marshal unmarshal e" "marshal e = Some l" "wholeLines b"
  shows "stored unmarshal (b @ l @ [NL]) = (stored unmarshal b)(ceKey e \<mapsto> e)"
    and "shortLines (b @ l @ [NL]) = shortLines b"
  using assms
  by (simp_all add: carried_def stored_def shortLines_def rawLines_snoc dropCR_id addLine_def)

text \<open>Opening the stream on a file of whole lines, and putting a carried result, keep disk and memory
  in step.\<close>

lemma BeginStream_onDisk:
  assumes "LoadCache unmarshal fs path = (Some c, None)" "wholeLines (contentsOf fs path)"
    and "BeginStream None (c, fs) = (None, st)"
  shows "onDisk unmarshal st"
proof (cases "readFile fs path")
  case (FileData b)
  from LoadCache_clean [OF assms(1) this] assms(2,3) FileData show ?thesis
    by (auto simp: BeginStream_def onDisk_def emptyCache_def contentsOf_data)
next
  case FileMissing
  with assms(1) have "c = emptyCache path" by (simp add: LoadCache_def)
  with FileMissing assms(3) show ?thesis
    by (auto simp: BeginStream_def onDisk_def emptyCache_def contentsOf_def stored_def wholeLines_def shortLines_def)
next
  case (FileError e)
  with assms(1) show ?thesis by (simp add: LoadCache_def)
qed

lemma Put_onDisk:
  assumes "onDisk unmarshal st" "carried marshal unmarshal (entryOf k r)"
  shows "onDisk unmarshal (Put marshal WroteAll k r st)"
proof (cases "volatileStatus (rStatus r) \<or> ccEntries (fst st) k \<noteq> None")
  case True
  with assms(1) show ?thesis by (auto simp: Put_def split: prod.splits)
next
  case False
  obtain c fs where st: "st = (c, fs)" by fastforce
  from assms(2) obtain l where l: "marshal (entryOf k r) = Some l"
    by (auto simp: carried_def split: option.splits)
  from assms(1) st obtain b where b: "readFile fs (ccPath c) = FileData b" "wholeLines b" "shortLines b"
      "stored unmarshal b = ccEntries c" "ccStream c = Open"
    by (auto simp: onDisk_def split: file_read.splits)
  have "wholeLines (b @ l @ [NL])" by (simp add: wholeLines_def)
  with False l b stored_snoc [OF assms(2) l b(2)] show ?thesis
    by (simp add: Put_def Let_def st onDisk_def contentsOf_data entryOf_def)
qed

lemma putAll_onDisk:
  "onDisk unmarshal st \<Longrightarrow> list_all (\<lambda>(w, k, r). w = WroteAll \<and> carried marshal unmarshal (entryOf k r)) hist \<Longrightarrow>
   onDisk unmarshal (fold (\<lambda>(w, k, r). Put marshal w k r) hist st)"
proof (induction hist arbitrary: st)
  case (Cons x hist)
  obtain w k r where x: "x = (w, k, r)" by (cases x)
  from Cons.prems have "onDisk unmarshal (Put marshal w k r st)" by (auto simp: x intro: Put_onDisk)
  with Cons.IH [of "Put marshal w k r st"] Cons.prems(2) show ?case by (simp add: x)
qed simp

lemma Put_path [simp]: "ccPath (fst (Put marshal w k r st)) = ccPath (fst st)"
  by (cases st) (auto simp: Put_def Let_def split: stream.split option.split write_outcome.split)

lemma putAll_path: "ccPath (fst (fold (\<lambda>(w, k, r). Put marshal w k r) hist st)) = ccPath (fst st)"
  by (induction hist arbitrary: st) auto

section \<open>Saving\<close>

text \<open>Every entry sits under its own, nonempty key.\<close>

definition keyed :: "(string \<rightharpoonup> cacheEntry) \<Rightarrow> bool" where
  "keyed entries \<longleftrightarrow> (\<forall>k \<in> dom entries. \<exists>e. entries k = Some e \<and> ceKey e = k \<and> k \<noteq> [])"

lemma keyed_iff: "keyed entries \<longleftrightarrow> (\<forall>k e. entries k = Some e \<longrightarrow> ceKey e = k \<and> k \<noteq> [])"
  unfolding keyed_def dom_def by auto

lemma keyed_addLine: "keyed entries \<Longrightarrow> keyed (addLine unmarshal l entries)"
  by (auto simp: addLine_def keyed_iff split: option.split)

lemma keyed_stored: "keyed (stored unmarshal b)"
proof -
  have "keyed entries \<Longrightarrow> keyed (fold (addLine unmarshal) ls entries)" for ls entries
    by (induction ls arbitrary: entries) (simp_all add: keyed_addLine)
  from this [of Map.empty] show ?thesis by (simp add: stored_def keyed_def)
qed

lemma keyed_Put: "keyed (ccEntries (fst st)) \<Longrightarrow> k \<noteq> [] \<Longrightarrow> keyed (ccEntries (fst (Put marshal w k r st)))"
  by (auto simp: Put_entries keyed_iff entryOf_def)

text \<open>The text written for carried entries loads as exactly these.\<close>

lemma stored_entries:
  assumes "list_all (\<lambda>e. carried marshal unmarshal e) es"
  shows "stored unmarshal (concat (map (\<lambda>e. the (marshal e) @ [NL]) es)) = map_of (rev (map (\<lambda>e. (ceKey e, e)) es))"
    and "shortLines (concat (map (\<lambda>e. the (marshal e) @ [NL]) es))"
  using assms
proof (induction es rule: rev_induct)
  case (snoc e es)
  have w: "wholeLines (concat (map (\<lambda>e. the (marshal e) @ [NL]) es))"
    using wholeLines_concat [of "map (\<lambda>e. the (marshal e)) es"] by (simp add: o_def)
  {
    case 1
    then obtain l where l: "marshal e = Some l" by (auto simp: carried_def split: option.splits)
    with 1 snoc.IH(1) stored_snoc(1) [of marshal unmarshal e l] l w show ?case by (simp add: l)
  next
    case 2
    then obtain l where l: "marshal e = Some l" by (auto simp: carried_def split: option.splits)
    with 2 snoc.IH(2) stored_snoc(2) [of marshal unmarshal e l] l w show ?case by (simp add: l)
  }
qed (simp_all add: stored_def shortLines_def)

lemma saveText_entries:
  assumes "keyed entries" "set keys = dom entries" "\<forall>k \<in> dom entries. carried marshal unmarshal (the (entries k))"
  shows "saveText marshal entries keys =
    Some (concat (map (\<lambda>e. the (marshal e) @ [NL]) (map (\<lambda>k. the (entries k)) keys)))"
proof -
  have k: "\<exists>e l. entries k = Some e \<and> marshal e = Some l" if "k \<in> set keys" for k
  proof -
    from that assms(2) obtain e where e: "entries k = Some e" by auto
    with assms(3) have "carried marshal unmarshal e" by force
    with e show ?thesis by (auto simp: carried_def split: option.splits)
  qed
  have a: "map (\<lambda>k. the (Option.bind (entries k) marshal) @ [NL]) keys =
      map (\<lambda>k. the (marshal (the (entries k))) @ [NL]) keys"
    by (rule map_cong) (use k in force)+
  have b: "\<not> (\<exists>k \<in> set keys. Option.bind (entries k) marshal = None)" using k by fastforce
  show ?thesis by (simp only: saveText_def b if_False map_map o_def a)
qed

lemma map_of_keys:
  assumes "keyed entries" "set keys = dom entries"
  shows "map_of (rev (map (\<lambda>e. (ceKey e, e)) (map (\<lambda>k. the (entries k)) keys))) = entries"
proof
  fix k
  have pairs: "map (\<lambda>e. (ceKey e, e)) (map (\<lambda>k. the (entries k)) keys) = map (\<lambda>k. (k, the (entries k))) keys"
    unfolding map_map o_def by (rule map_cong) (use assms in \<open>auto simp: keyed_iff\<close>)
  show "map_of (rev (map (\<lambda>e. (ceKey e, e)) (map (\<lambda>k. the (entries k)) keys))) k = entries k"
    unfolding pairs rev_map map_of_map_restrict using assms(2)
    by (auto simp: restrict_map_def)
qed

section \<open>Properties of the cache\<close>

text \<open>A small codec for the witnesses: the three fields after one another, separated by bars.\<close>

definition barMarshal :: "cacheEntry \<Rightarrow> string option" where
  "barMarshal e = Some (Join [ceKey e, ceStatus e, ceError e] ''|'')"

definition barUnmarshal :: "string \<Rightarrow> cacheEntry option" where
  "barUnmarshal l =
     (case splitOn (CHR ''|'') l of
        [k, s, e] \<Rightarrow> Some \<lparr>ceKey = k, ceStatus = s, ceError = e\<rparr>
      | _ \<Rightarrow> None)"

definition okResult :: "string \<Rightarrow> result" where
  "okResult status = \<lparr>rID = ''a.js#strict'', rStatus = status, rError = [], rTailKey = []\<rparr>"

text \<open>After any history of recorded results, and however the writes of the stream turn out, a key
  gives the result the cache held before, else the first result recorded under it that is neither
  a timeout nor a crash, bound to the ID of the job that asks.\<close>

theorem cache_history:
  "Get (fst (fold (\<lambda>(w, k, r). Put marshal w k r) hist st)) key jid =
     (case Get (fst st) key jid of
        Some r \<Rightarrow> Some r
      | None \<Rightarrow> map_option (rebind jid) (firstRecorded key hist))"
  using store.history_keeps [of st key jid _ marshal hist] store.history_first [of st key jid marshal hist]
  by (cases "Get (fst st) key jid") simp_all

text \<open>An interrupted run loses nothing: as long as the file of an earlier run ends in a whole line,
  after any results recorded through the stream, loading the file gives exactly the entries the
  cache holds in memory, at every moment.\<close>

theorem stream_resumes:
  assumes "LoadCache unmarshal fs path = (Some c, None)" "wholeLines (contentsOf fs path)"
    and "BeginStream None (c, fs) = (None, st)"
    and "list_all (\<lambda>(w, k, r). w = WroteAll \<and> carried marshal unmarshal (entryOf k r)) hist"
    and "st' = fold (\<lambda>(w, k, r). Put marshal w k r) hist st"
  shows "LoadCache unmarshal (snd st') path =
    (Some ((emptyCache path)\<lparr>ccEntries := ccEntries (fst st')\<rparr>), None)"
proof -
  have "onDisk unmarshal st" by (rule BeginStream_onDisk [OF assms(1,2,3)])
  from putAll_onDisk [OF this assms(4)] have d: "onDisk unmarshal st'" by (simp add: assms(5))
  have "ccPath c = path" using assms(1) by (auto simp: LoadCache_def emptyCache_def split: file_read.splits prod.splits)
  then have "ccPath (fst st') = path" using assms(3) by (auto simp: assms(5) putAll_path BeginStream_def)
  with d show ?thesis
    by (auto simp: onDisk_def LoadCache_stored split: file_read.splits)
qed

definition oneRecorded :: "cache \<times> filesystem" where
  "oneRecorded = fold (\<lambda>(w, k, r). Put barMarshal w k r) [(WroteAll, ''k'', okResult ''pass'')]
     ((emptyCache ''c'')\<lparr>ccStream := Open\<rparr>, appendFile [] ''c'' [])"

theorem stream_resumes_witness:
  "LoadCache barUnmarshal (snd oneRecorded) ''c'' =
     (Some ((emptyCache ''c'')\<lparr>ccEntries := ccEntries (fst oneRecorded)\<rparr>), None)"
proof (rule stream_resumes)
  show "LoadCache barUnmarshal [] ''c'' = (Some (emptyCache ''c''), None)" by (simp add: LoadCache_def readFile_def)
  show "wholeLines (contentsOf [] ''c'')" by (simp add: wholeLines_def contentsOf_def readFile_def)
  show "BeginStream None (emptyCache ''c'', []) = (None, (emptyCache ''c'')\<lparr>ccStream := Open\<rparr>, appendFile [] ''c'' [])"
    by (simp add: BeginStream_def emptyCache_def)
  show "list_all (\<lambda>(w, k, r). w = WroteAll \<and> carried barMarshal barUnmarshal (entryOf k r))
      [(WroteAll, ''k'', okResult ''pass'')]"
    by (simp add: carried_def barMarshal_def barUnmarshal_def entryOf_def okResult_def cacheLineLimit_def)
qed (rule oneRecorded_def)

text \<open>A run killed inside an append leaves a torn last line, and the next run's stream continues on
  that line: the first result it records is then lost on disk, although the cache holds it, until
  a save rewrites the file.\<close>

theorem torn_line_loses_entry:
  assumes "readFile fs path = FileData torn" "NL \<notin> set torn" "torn \<noteq> []" "unmarshal torn = None"
    and "marshal (entryOf key r) = Some b" "unmarshal (torn @ b) = None" "NL \<notin> set b" "CR \<notin> set (torn @ b)"
    and "length (torn @ b) < cacheLineLimit" "\<not> volatileStatus (rStatus r)"
    and "LoadCache unmarshal fs path = (Some c, None)" "BeginStream None (c, fs) = (None, st)"
    and "st' = Put marshal WroteAll key r st"
  shows "ccEntries (fst st') key = Some (entryOf key r) \<and>
    LoadCache unmarshal (snd st') path = (Some (emptyCache path), None)"
proof -
  have raw: "rawLines torn = [torn]" using assms(2,3) by (simp add: rawLines_def splitOn_absent)
  have "CR \<notin> set torn" using assms(8) by simp
  then have "stored unmarshal torn = Map.empty"
    by (simp add: stored_def raw dropCR_id addLine_def assms(4))
  with LoadCache_clean [OF assms(11,1)] have c: "c = emptyCache path"
    by (simp add: emptyCache_def)
  then have st: "st = ((emptyCache path)\<lparr>ccStream := Open\<rparr>, appendFile fs path [])"
    using assms(12) by (simp add: BeginStream_def emptyCache_def)
  have "contentsOf fs path = torn" by (rule contentsOf_data [OF assms(1)])
  then have "ccEntries (fst st') key = Some (entryOf key r) \<and>
      readFile (snd st') path = FileData (torn @ b @ [NL])"
    using assms(5,10) by (simp add: assms(13) st Put_def Let_def emptyCache_def contentsOf_data)
  moreover have "rawLines (torn @ b @ [NL]) = [torn @ b]" using assms(2,7) by (rule rawLines_torn)
  then have "stored unmarshal (torn @ b @ [NL]) = Map.empty" "shortLines (torn @ b @ [NL])"
    using assms(6,8,9) by (simp_all add: stored_def shortLines_def dropCR_id addLine_def)
  ultimately show ?thesis by (simp add: LoadCache_stored) (simp add: emptyCache_def)
qed

theorem torn_line_loses_entry_witness:
  "LoadCache barUnmarshal (snd (Put barMarshal WroteAll ''k'' (okResult ''pass'')
      ((emptyCache ''c'')\<lparr>ccStream := Open\<rparr>, appendFile [(''c'', FileData ''torn|'')] ''c'' []))) ''c'' =
     (Some (emptyCache ''c''), None)"
proof (rule torn_line_loses_entry [THEN conjunct2])
  show "readFile [(''c'', FileData ''torn|'')] ''c'' = FileData ''torn|''" by (simp add: readFile_def)
  show "barMarshal (entryOf ''k'' (okResult ''pass'')) = Some ''k|pass|''"
    by (simp add: barMarshal_def entryOf_def okResult_def)
  show "LoadCache barUnmarshal [(''c'', FileData ''torn|'')] ''c'' = (Some (emptyCache ''c''), None)"
    by (simp add: LoadCache_def readFile_def emptyCache_def scanLines_def rawLines_def cacheLineLimit_def
        dropCR_def addLine_def barUnmarshal_def)
  show "BeginStream None (emptyCache ''c'', [(''c'', FileData ''torn|'')]) =
      (None, (emptyCache ''c'')\<lparr>ccStream := Open\<rparr>, appendFile [(''c'', FileData ''torn|'')] ''c'' [])"
    by (simp add: BeginStream_def emptyCache_def)
qed (simp_all add: barUnmarshal_def cacheLineLimit_def volatileStatus_def okResult_def)

text \<open>C28. Saving is atomic: a save that fails at any step, or that has nothing to add, leaves the cache
  file as it was.\<close>

theorem save_atomic:
  assumes "Save marshal out keys st = (err, st')" "err \<noteq> None \<or> ccAdded (fst st) = 0"
  shows "readFile (snd st') (ccPath (fst st)) = readFile (snd st) (ccPath (fst st))"
proof -
  obtain c fs where st: "st = (c, fs)" by fastforce
  obtain closed d where d: "CloseStream (soClosed out) c = (closed, d)" by fastforce
  then have p: "ccPath d = ccPath c" "ccAdded d = ccAdded c"
    by (auto simp: CloseStream_def split: stream.splits)
  show ?thesis
  proof (cases "closed \<noteq> None \<or> ccAdded c = 0")
    case True
    with assms(1) show ?thesis by (cases closed) (auto simp: Save_def Let_def st d p)
  next
    case False
    with assms have "snd st' = leavePartial out (ccPath c @ ''.tmp'') fs \<or>
        (\<exists>b. snd st' = writeFile fs (ccPath c @ ''.tmp'') b)"
      by (auto simp: Save_def Let_def st d p split: option.splits)
    then show ?thesis by (auto simp: st leavePartial_def split: option.split)
  qed
qed

theorem save_atomic_witness:
  "readFile (snd (snd (Save barMarshal \<lparr>soClosed = None, soTmp = Some (Msg ''disk full''), soRename = None, soPartial = Some ''x''\<rparr>
      [] ((emptyCache ''c'')\<lparr>ccAdded := 1\<rparr>, [(''c'', FileData ''old'')])))) ''c'' = FileData ''old''"
proof -
  let ?st = "((emptyCache ''c'')\<lparr>ccAdded := 1\<rparr>, [(''c'', FileData ''old'')])"
  let ?out = "\<lparr>soClosed = None, soTmp = Some (Msg ''disk full''), soRename = None, soPartial = Some ''x''\<rparr>"
  have "Save barMarshal ?out [] ?st =
      (Some (Msg ''disk full''), (emptyCache ''c'')\<lparr>ccAdded := 1\<rparr>, writeFile [(''c'', FileData ''old'')] ''c.tmp'' ''x'')"
    by (simp add: Save_def CloseStream_def emptyCache_def leavePartial_def)
  from save_atomic [OF this] show ?thesis
    by (simp add: Save_def CloseStream_def emptyCache_def leavePartial_def readFile_def)
qed

text \<open>Saving compacts without loss: whatever order the map is visited in, loading the saved file gives
  the entries that were in memory.\<close>

theorem save_roundtrip:
  assumes "keyed (ccEntries c)" "set keys = dom (ccEntries c)" "distinct keys"
    and "\<forall>k \<in> dom (ccEntries c). carried marshal unmarshal (the (ccEntries c k))"
    and "ccAdded c > 0" "Save marshal out keys (c, fs) = (None, c', fs')"
  shows "LoadCache unmarshal fs' (ccPath c) = (Some ((emptyCache (ccPath c))\<lparr>ccEntries := ccEntries c\<rparr>), None)"
proof -
  let ?es = "map (\<lambda>k. the (ccEntries c k)) keys"
  let ?b = "concat (map (\<lambda>e. the (marshal e) @ [NL]) ?es)"
  have cc: "ccPath (snd (CloseStream w c)) = ccPath c" "ccAdded (snd (CloseStream w c)) = ccAdded c"
    "ccEntries (snd (CloseStream w c)) = ccEntries c" for w
    by (simp_all add: CloseStream_def split: stream.split)
  obtain err d where d: "CloseStream (soClosed out) c = (err, d)" by fastforce
  with cc [of "soClosed out"] have d': "ccPath d = ccPath c" "ccAdded d = ccAdded c" "ccEntries d = ccEntries c" by auto
  have t: "saveText marshal (ccEntries c) keys = Some ?b" by (rule saveText_entries [OF assms(1,2,4)])
  from assms(5,6) have "fs' = removeFile (writeFile fs (ccPath c) ?b) (ccPath c @ ''.tmp'')"
    by (auto simp: Save_def Let_def d d' t split: option.splits)
  then have "readFile fs' (ccPath c) = FileData ?b" by simp
  moreover have "list_all (carried marshal unmarshal) ?es" using assms(2,4) by (auto simp: list_all_iff)
  note stored_entries [OF this]
  ultimately show ?thesis
    by (simp only: LoadCache_stored map_of_keys [OF assms(1,2)])
qed

theorem save_roundtrip_witness:
  "LoadCache barUnmarshal
     (removeFile (writeFile [] ''c'' (''k|pass|'' @ [NL])) ''c.tmp'') ''c'' =
   (Some ((emptyCache ''c'')\<lparr>ccEntries := [''k'' \<mapsto> entryOf ''k'' (okResult ''pass'')]\<rparr>), None)"
proof -
  let ?c = "(emptyCache ''c'')\<lparr>ccEntries := [''k'' \<mapsto> entryOf ''k'' (okResult ''pass'')], ccAdded := 1\<rparr>"
  let ?out = "\<lparr>soClosed = None, soTmp = None, soRename = None, soPartial = None\<rparr>"
  have "Save barMarshal ?out [''k''] (?c, []) =
      (None, ?c, removeFile (writeFile [] ''c'' (''k|pass|'' @ [NL])) ''c.tmp'')"
    by (simp add: Save_def CloseStream_def emptyCache_def saveText_def barMarshal_def entryOf_def okResult_def)
  from save_roundtrip [OF _ _ _ _ _ this, of barUnmarshal] show ?thesis
    by (simp add: keyed_def carried_def barMarshal_def barUnmarshal_def entryOf_def okResult_def
        cacheLineLimit_def emptyCache_def)
qed

section \<open>Properties of pruning\<close>

lemma ordering_newer: "ordering_less newerFile"
  by (auto simp: ordering_less_def newerFile_def)

text \<open>Pruning removes only results files of the directory, never the file just loaded, and never a
  file that is newer than one it keeps among those the age decides; at most \<open>keep\<close> files and the
  one just loaded are left.\<close>

theorem prune_bounds:
  assumes "removed = PruneResultsCaches toAbs dir (Some es) keepPath keep"
    and "inj_on toAbs (cfPath ` set (resultsFiles dir es))" "distinct (map cfPath (resultsFiles dir es))"
  shows "set removed \<subseteq> cfPath ` set (resultsFiles dir es) - {p. toAbs p = toAbs keepPath} \<and>
    length (resultsFiles dir es) \<le> length removed + keep + 1 \<and>
    (\<forall>f \<in> set (take keep (sortSlice newerFile (resultsFiles dir es))).
       cfPath f \<notin> set removed \<and>
       (\<forall>g \<in> set (resultsFiles dir es). cfPath g \<in> set removed \<longrightarrow> cfModTime g \<le> cfModTime f))"
proof (cases "length (resultsFiles dir es) \<le> keep")
  case True
  then show ?thesis by (simp add: assms(1) PruneResultsCaches_def)
next
  case False
  let ?files = "resultsFiles dir es"
  let ?sorted = "sortSlice newerFile ?files"
  let ?gone = "filter (\<lambda>f. toAbs (cfPath f) \<noteq> toAbs keepPath) (drop keep ?sorted)"
  have r: "removed = map cfPath ?gone" using False by (simp add: assms(1) PruneResultsCaches_def)
  have sub: "set (drop keep ?sorted) \<subseteq> set ?files" using set_drop_subset [of keep ?sorted] by simp
  have dist: "distinct (map cfPath ?sorted)" using assms(3) by simp
  then have dd: "distinct (map cfPath (drop keep ?sorted))" by (simp add: drop_map [symmetric] distinct_drop)
  have tak: "cfPath f \<notin> cfPath ` set (drop keep ?sorted)" if "f \<in> set (take keep ?sorted)" for f
  proof -
    have "distinct (map cfPath (take keep ?sorted @ drop keep ?sorted))" using dist by simp
    then have "cfPath ` set (take keep ?sorted) \<inter> cfPath ` set (drop keep ?sorted) = {}"
      unfolding map_append distinct_append by simp
    with that show ?thesis by blast
  qed
  have "length (filter (\<lambda>f. toAbs (cfPath f) = toAbs keepPath) (drop keep ?sorted)) \<le> 1"
  proof -
    let ?same = "filter (\<lambda>f. toAbs (cfPath f) = toAbs keepPath) (drop keep ?sorted)"
    have "inj_on toAbs (cfPath ` set ?same)"
      using assms(2) sub by (auto intro: inj_on_subset)
    moreover have "toAbs ` cfPath ` set ?same \<subseteq> {toAbs keepPath}" by auto
    ultimately have "card (cfPath ` set ?same) \<le> 1"
      by (metis card.empty card_image card_insert_disjoint card_mono empty_iff finite.emptyI finite_insert One_nat_def)
    moreover have "distinct (map cfPath ?same)" using dd by (rule distinct_map_filter)
    ultimately show ?thesis by (metis distinct_card length_map set_map)
  qed
  moreover have "length ?gone + length (filter (\<lambda>f. toAbs (cfPath f) = toAbs keepPath) (drop keep ?sorted))
      = length (drop keep ?sorted)"
    using sum_length_filter_compl [of "\<lambda>f. toAbs (cfPath f) \<noteq> toAbs keepPath" "drop keep ?sorted"] by simp
  ultimately have len: "length ?files \<le> length removed + keep + 1" by (simp add: r)
  have age: "cfModTime g \<le> cfModTime f"
    if "f \<in> set (take keep ?sorted)" "g \<in> set ?files" "cfPath g \<in> set removed" for f g
  proof -
    from that(3) obtain h where h: "h \<in> set (drop keep ?sorted)" "cfPath h = cfPath g" by (auto simp: r)
    with sub that(2) assms(3) have "h = g" by (auto simp: distinct_map dest: inj_onD)
    with slice.srt_prefix_le [OF ordering_newer that(1) h(1)] show ?thesis by (simp add: newerFile_def)
  qed
  have "set removed \<subseteq> cfPath ` set ?files - {p. toAbs p = toAbs keepPath}" using sub by (auto simp: r)
  with len age tak show ?thesis by (auto simp: r)
qed

theorem prune_bounds_witness:
  "set (PruneResultsCaches (\<lambda>p. p) ''c'' (Some
      [\<lparr>deName = ''results-1.ndjson'', deIsDir = False, deModTime = Some 10\<rparr>,
       \<lparr>deName = ''tail.ndjson'', deIsDir = False, deModTime = Some 1\<rparr>,
       \<lparr>deName = ''results-2.ndjson'', deIsDir = False, deModTime = Some 20\<rparr>]) ''c/x'' 1)
   \<subseteq> cfPath ` set (resultsFiles ''c''
      [\<lparr>deName = ''results-1.ndjson'', deIsDir = False, deModTime = Some 10\<rparr>,
       \<lparr>deName = ''tail.ndjson'', deIsDir = False, deModTime = Some 1\<rparr>,
       \<lparr>deName = ''results-2.ndjson'', deIsDir = False, deModTime = Some 20\<rparr>]) - {p. p = ''c/x''}"
proof (rule prune_bounds [THEN conjunct1])
  have "map cfPath (resultsFiles ''c''
      [\<lparr>deName = ''results-1.ndjson'', deIsDir = False, deModTime = Some 10\<rparr>,
       \<lparr>deName = ''tail.ndjson'', deIsDir = False, deModTime = Some 1\<rparr>,
       \<lparr>deName = ''results-2.ndjson'', deIsDir = False, deModTime = Some 20\<rparr>])
     = [''c/results-1.ndjson'', ''c/results-2.ndjson'']" by code_simp
  then show "distinct (map cfPath (resultsFiles ''c''
      [\<lparr>deName = ''results-1.ndjson'', deIsDir = False, deModTime = Some 10\<rparr>,
       \<lparr>deName = ''tail.ndjson'', deIsDir = False, deModTime = Some 1\<rparr>,
       \<lparr>deName = ''results-2.ndjson'', deIsDir = False, deModTime = Some 20\<rparr>]))" by simp
qed simp_all

section \<open>Properties of the keys\<close>

definition nulFree :: "string list \<Rightarrow> bool" where
  "nulFree ss \<longleftrightarrow> list_all (\<lambda>s. NUL \<notin> set s) ss"

text \<open>C29. Jobs that share a results key agree on everything the judge looks at, unless the digest
  collides: the compiler version, the ID, the negative expectation, the async flag and the exact
  source. The separators keep the fields apart as long as none but the source holds a NUL byte.\<close>

theorem job_key_separates:
  assumes "nulFree [v, jID j, jNegType j, jNegPhase j]" "nulFree [v', jID j', jNegType j', jNegPhase j']"
    and "JobKey sha j v = JobKey sha j' v'"
  shows "(v = v' \<and> jID j = jID j' \<and> jNegType j = jNegType j' \<and> jNegPhase j = jNegPhase j' \<and>
      jAsync j = jAsync j' \<and> jSource j = jSource j') \<or> (\<exists>x y. x \<noteq> y \<and> sha x = sha y)"
proof (cases "jobPreimage j v = jobPreimage j' v'")
  case True
  have "NUL \<notin> set (if b then [CHR 0x01] else [])" for b :: bool by simp
  with True assms(1,2) show ?thesis
    by (simp add: jobPreimage_def nulFree_def first_sep_unique split: if_splits)
next
  case False
  with assms(3) show ?thesis unfolding JobKey_def by blast
qed

definition exampleJob :: job where
  "exampleJob = \<lparr>jID = ''a.js#strict'', jName = ''/a.js'', jSource = ''x'', jEntryName = [], jModules = [],
     jAsync = False, jNegType = [], jNegPhase = []\<rparr>"

theorem job_key_separates_witness:
  "(''v1'' = ''v1'' \<and> jID exampleJob = jID (exampleJob\<lparr>jName := ''/b.js''\<rparr>) \<and>
      jNegType exampleJob = jNegType (exampleJob\<lparr>jName := ''/b.js''\<rparr>) \<and>
      jNegPhase exampleJob = jNegPhase (exampleJob\<lparr>jName := ''/b.js''\<rparr>) \<and>
      jAsync exampleJob = jAsync (exampleJob\<lparr>jName := ''/b.js''\<rparr>) \<and>
      jSource exampleJob = jSource (exampleJob\<lparr>jName := ''/b.js''\<rparr>)) \<or>
   (\<exists>x y. x \<noteq> y \<and> (\<lambda>s :: string. s) x = (\<lambda>s. s) y)"
  by (rule job_key_separates) (simp_all add: nulFree_def exampleJob_def JobKey_def jobPreimage_def)

text \<open>The results key leaves the staged modules and the entry name out: editing a fixture of a module
  test keeps the key, so the recorded result of the old fixture is replayed.\<close>

theorem job_key_ignores_modules:
  "JobKey sha (j\<lparr>jModules := ms, jEntryName := n\<rparr>) v = JobKey sha j v"
  by (simp add: JobKey_def jobPreimage_def)

lemma tailPreimage_inject:
  assumes "nulFree [rt, jNegType j, jNegPhase j]" "nulFree [rt', jNegType j', jNegPhase j']"
    and "tailPreimage g rt j = tailPreimage g' rt' j'"
  shows "rt = rt' \<and> jNegType j = jNegType j' \<and> jNegPhase j = jNegPhase j' \<and> jAsync j = jAsync j' \<and> g = g'"
proof -
  have "NUL \<notin> set (if b then [CHR 0x01] else [])" for b :: bool by simp
  with assms show ?thesis by (simp add: tailPreimage_def nulFree_def first_sep_unique split: if_splits)
qed

text \<open>The tail key is what decides a verdict and nothing else: jobs that share one agree on the runtime
  the binary links, the expectation of the judge and the emitted program, unless the digest
  collides; and it forgets the ID and the composed source, so compiler versions that emit the same
  program share the entry.\<close>

theorem tail_key_separates:
  assumes "nulFree [rt, jNegType j, jNegPhase j]" "nulFree [rt', jNegType j', jNegPhase j']"
    and "TailKey sha g rt j = TailKey sha g' rt' j'"
  shows "((rt = rt' \<and> jNegType j = jNegType j' \<and> jNegPhase j = jNegPhase j' \<and>
       jAsync j = jAsync j' \<and> g = g') \<or> (\<exists>x y. x \<noteq> y \<and> sha x = sha y)) \<and>
    TailKey sha g rt (j\<lparr>jID := i, jSource := s, jModules := ms\<rparr>) = TailKey sha g rt j"
proof
  show "TailKey sha g rt (j\<lparr>jID := i, jSource := s, jModules := ms\<rparr>) = TailKey sha g rt j"
    by (simp add: TailKey_def tailPreimage_def)
  show "(rt = rt' \<and> jNegType j = jNegType j' \<and> jNegPhase j = jNegPhase j' \<and>
       jAsync j = jAsync j' \<and> g = g') \<or> (\<exists>x y. x \<noteq> y \<and> sha x = sha y)"
  proof (cases "tailPreimage g rt j = tailPreimage g' rt' j'")
    case True
    with tailPreimage_inject [OF assms(1,2)] show ?thesis by blast
  next
    case False
    with assms(3) show ?thesis unfolding TailKey_def by blast
  qed
qed

theorem tail_key_separates_witness:
  "TailKey (\<lambda>s. s) ''package main'' ''rt'' (exampleJob\<lparr>jID := ''b.js#sloppy'', jSource := ''y'', jModules := []\<rparr>) =
   TailKey (\<lambda>s. s) ''package main'' ''rt'' exampleJob"
  by (rule tail_key_separates [THEN conjunct2]) (simp_all add: nulFree_def exampleJob_def)

end
