(* ===== verification/WireFacts.thy ===== *)
theory WireFacts
  imports Wire JsonTorn CacheFacts
begin

text \<open>
  What the JSON lines guarantee, as the interface \<open>line_codec\<close> of anything framed by newlines: a value
  comes back with its strings coerced, its text is one line, and no strict prefix of the text is read.
  Interpreted on the three structs; then what a stream cut at any byte still yields, and the cache files.
\<close>

section \<open>Codecs of lines\<close>

lemma rawLines_then_torn:
  assumes "\<forall>l \<in> set ls. NL \<notin> set l" "NL \<notin> set torn"
  shows "rawLines (concat (map (\<lambda>l. l @ [NL]) ls) @ torn) = ls @ (if torn = [] then [] else [torn])"
  using assms by (induction ls) (simp_all add: rawLines_cons, simp_all add: rawLines_def splitOn_absent)

lemma map_filter_append: "List.map_filter f (xs @ ys) = List.map_filter f xs @ List.map_filter f ys"
  by (induction xs) (simp_all add: map_filter_simps split: option.split)

locale line_codec =
  fixes marshal :: "'a \<Rightarrow> string" and unmarshal :: "string \<Rightarrow> 'a option" and valid :: "'a \<Rightarrow> 'a"
  assumes decodes: "unmarshal (marshal x) = Some (valid x)"
    and stable: "valid (valid x) = valid x"
    and visible: "printable (marshal x)"
    and filled: "marshal x \<noteq> []"
    and torn: "p @ q = marshal x \<Longrightarrow> q \<noteq> [] \<Longrightarrow> unmarshal p = None"
begin

lemma one_line: "NL \<notin> set (marshal x)" "CR \<notin> set (marshal x)"
  using printable_oneline [OF visible] by simp_all

lemma torn_take: "n < length (marshal x) \<Longrightarrow> unmarshal (take n (marshal x)) = None"
  by (rule torn [of _ "drop n (marshal x)"]) simp_all

lemma raw: "rawLines (concat (map (\<lambda>x. marshal x @ [NL]) xs)) = map marshal xs"
  using rawLines_concat [of "map marshal xs"] one_line(1) by (simp add: list_all_iff comp_def)

text \<open>What is read of a stream: the lines that decode, in order.\<close>

abbreviation readBack :: "string \<Rightarrow> 'a list" where
  "readBack s \<equiv> List.map_filter unmarshal (map dropCR (rawLines s))"

text \<open>Cut anywhere, a stream is the first values whole and at most one torn line, a prefix of the next.\<close>

lemma cut:
  obtains m p where "m \<le> length xs" "p = [] \<or> m < length xs \<and> (\<exists>q. p @ q = marshal (xs ! m))"
    "take n (concat (map (\<lambda>x. marshal x @ [NL]) xs)) = concat (map (\<lambda>x. marshal x @ [NL]) (take m xs)) @ p"
proof (induction xs arbitrary: n thesis)
  case Nil
  then show ?case by simp
next
  case (Cons x xs)
  let ?rest = "concat (map (\<lambda>x. marshal x @ [NL]) xs)"
  show ?case
  proof (cases "n \<le> length (marshal x)")
    case True
    have "\<exists>q. take n (marshal x) @ q = marshal ((x # xs) ! 0)" by (rule exI [of _ "drop n (marshal x)"]) simp
    with True show ?thesis by (intro Cons.prems [of 0 "take n (marshal x)"]) simp_all
  next
    case False
    then obtain k where k: "n = Suc (length (marshal x) + k)"
      by (metis Suc_leI add_Suc le_Suc_ex not_less)
    obtain m p where m: "m \<le> length xs" "p = [] \<or> m < length xs \<and> (\<exists>q. p @ q = marshal (xs ! m))"
      "take k ?rest = concat (map (\<lambda>x. marshal x @ [NL]) (take m xs)) @ p" using Cons.IH [of k] by blast
    then show ?thesis by (intro Cons.prems [of "Suc m" p]) (simp_all add: k)
  qed
qed

lemma torn_line: "p @ q = marshal x \<Longrightarrow> NL \<notin> set p \<and> CR \<notin> set p \<and> length p \<le> length (marshal x)"
proof -
  assume p: "p @ q = marshal x"
  have "set p \<subseteq> set (marshal x)" unfolding p [symmetric] by simp
  moreover have "length p \<le> length (marshal x)" unfolding p [symmetric] by simp
  ultimately show ?thesis using one_line [of x] by blast
qed

lemma raw_torn:
  "p = [] \<or> (\<exists>q. p @ q = marshal x) \<Longrightarrow>
   rawLines (concat (map (\<lambda>x. marshal x @ [NL]) xs) @ p) = map marshal xs @ (if p = [] then [] else [p])"
  using rawLines_then_torn [of "map marshal xs" p] one_line(1) torn_line by (auto simp: comp_def)

text \<open>So a cut stream yields a prefix of the values written.\<close>

lemma cut_prefix:
  "\<exists>k. readBack (take n (concat (map (\<lambda>x. marshal x @ [NL]) xs))) = map valid (take k xs)"
proof -
  obtain m p where m: "m \<le> length xs" "p = [] \<or> m < length xs \<and> (\<exists>q. p @ q = marshal (xs ! m))"
    "take n (concat (map (\<lambda>x. marshal x @ [NL]) xs)) = concat (map (\<lambda>x. marshal x @ [NL]) (take m xs)) @ p"
    by (rule cut)
  have whole: "map dropCR (map marshal ys) = map marshal ys" "List.map_filter unmarshal (map marshal ys) = map valid ys" for ys
    using one_line(2) by (induction ys) (simp_all add: dropCR_id map_filter_simps decodes)
  show ?thesis
  proof (cases "p = []")
    case True
    then have "readBack (take n (concat (map (\<lambda>x. marshal x @ [NL]) xs))) = map valid (take m xs)"
      unfolding m(3) True append_Nil2 raw by (simp only: whole)
    then show ?thesis ..
  next
    case False
    with m(2) obtain q where q: "m < length xs" "p @ q = marshal (xs ! m)" by blast
    have r: "rawLines (concat (map (\<lambda>x. marshal x @ [NL]) (take m xs)) @ p) = map marshal (take m xs) @ [p]"
      using raw_torn [of p "xs ! m"] q(2) False by auto
    have dp: "dropCR p = p" using torn_line [OF q(2)] by (simp add: dropCR_id)
    have split: "readBack (take n (concat (map (\<lambda>x. marshal x @ [NL]) xs))) =
        map valid (take m xs) @ List.map_filter unmarshal [p]"
      unfolding m(3) r by (simp only: map_append whole map_filter_append list.map dp)
    show ?thesis
    proof (cases "q = []")
      case True
      with q decodes have "List.map_filter unmarshal [p] = [valid (xs ! m)]" by (simp add: map_filter_simps)
      with split have "readBack (take n (concat (map (\<lambda>x. marshal x @ [NL]) xs))) = map valid (take (Suc m) xs)"
        using q(1) by (simp add: take_Suc_conv_app_nth)
      then show ?thesis ..
    next
      case False
      with torn [OF q(2)] have "List.map_filter unmarshal [p] = []" by (simp add: map_filter_simps)
      with split show ?thesis by (metis append_Nil2)
    qed
  qed
qed

end

lemma valid_idem:
  "validJob (validJob j) = validJob j" "validResult (validResult r) = validResult r"
  "validEntry (validEntry e) = validEntry e"
  by (simp_all add: validJob_def validResult_def validEntry_def validModule_def)

lemma structs_are_objects:
  "\<exists>kvs. jobJson j = JObj kvs" "\<exists>kvs. resultJson r = JObj kvs" "\<exists>kvs. entryJson e = JObj kvs"
  by (simp_all add: jobJson_def resultJson_def entryJson_def)

lemma struct_torn:
  assumes "\<exists>kvs. v = JObj kvs" "nests maxNesting v" "p @ q = render v" "q \<noteq> []"
  shows "Option.bind (parseJson p) f = None"
proof -
  from assms(1) obtain kvs where v: "v = JObj kvs" by blast
  have "parseJson p = None" by (rule parseJson_torn [OF assms(2-4) [unfolded v]])
  then show ?thesis by simp
qed

lemma structs_nest: "nests maxNesting (jobJson j)" "nests maxNesting (resultJson r)" "nests maxNesting (entryJson e)"
proof -
  have "maxNesting = Suc (Suc (Suc 9997))" by (simp add: maxNesting_def)
  with nests_maxNesting [of 9997]
  show "nests maxNesting (jobJson j)" "nests maxNesting (resultJson r)" "nests maxNesting (entryJson e)" by simp_all
qed

lemma structs_filled: "marshalJob j \<noteq> []" "marshalResult r \<noteq> []" "marshalEntry e \<noteq> []"
  by (simp_all add: marshalJob_def jobJson_def marshalResult_def resultJson_def marshalEntry_def entryJson_def)

interpretation jobLine: line_codec marshalJob unmarshalJob validJob
proof unfold_locales
  fix j :: job and p q :: string
  show "printable (marshalJob j)" unfolding marshalJob_def by (rule render_printable [OF structs_nest(1)])
  show "p @ q = marshalJob j \<Longrightarrow> q \<noteq> [] \<Longrightarrow> unmarshalJob p = None"
    unfolding unmarshalJob_def marshalJob_def by (rule struct_torn [OF structs_are_objects(1) structs_nest(1)])
qed (simp_all add: unmarshal_marshalJob valid_idem structs_filled)

interpretation resultLine: line_codec marshalResult unmarshalResult validResult
proof unfold_locales
  fix r :: result and p q :: string
  show "printable (marshalResult r)" unfolding marshalResult_def by (rule render_printable [OF structs_nest(2)])
  show "p @ q = marshalResult r \<Longrightarrow> q \<noteq> [] \<Longrightarrow> unmarshalResult p = None"
    unfolding unmarshalResult_def marshalResult_def by (rule struct_torn [OF structs_are_objects(2) structs_nest(2)])
qed (simp_all add: unmarshal_marshalResult valid_idem structs_filled)

interpretation entryLine: line_codec marshalEntry unmarshalEntry validEntry
proof unfold_locales
  fix e :: cacheEntry and p q :: string
  show "printable (marshalEntry e)" unfolding marshalEntry_def by (rule render_printable [OF structs_nest(3)])
  show "p @ q = marshalEntry e \<Longrightarrow> q \<noteq> [] \<Longrightarrow> unmarshalEntry p = None"
    unfolding unmarshalEntry_def marshalEntry_def by (rule struct_torn [OF structs_are_objects(3) structs_nest(3)])
qed (simp_all add: unmarshal_marshalEntry valid_idem structs_filled)

section \<open>Lengths\<close>

lemma runes_length: "length (runes s) \<le> length s"
proof (induction s rule: runes.induct)
  case (2 c s)
  show ?case
  proof (cases "runeLen (c # s)")
    case None
    with 2 show ?thesis by simp
  next
    case (Some n)
    with 2(2) [OF Some] runeLen_bounds [OF Some] show ?thesis by (simp del: runeLen.simps) linarith
  qed
qed simp

text \<open>A byte of text takes at most the six bytes of an escape.\<close>

lemma escape_length: "length (escape s) \<le> 6 * length s"
proof -
  have "length (escRune x) \<le> 6" if "x \<in> set (runes s)" for x
  proof (cases x)
    case (Some u)
    with that have u: "isRune u" using runes_isRune by simp
    then have "length u \<le> 4" using runeLen_bounds [of u "length u"] by (simp add: isRune_def del: runeLen.simps)
    with u show ?thesis
    proof (cases rule: isRune_cases)
      case (ascii c)
      then show ?thesis by (cases c rule: escByte_cases) (simp_all add: Some escRune_simps)
    next
      case multi
      with \<open>length u \<le> 4\<close> show ?thesis by (simp add: Some escRune_simps(3))
    qed
  qed (simp add: escRune_simps)
  then have "length (escape s) \<le> 6 * length (runes s)"
    using sum_list_mono [of "runes s" "\<lambda>x. length (escRune x)" "\<lambda>_. 6"]
    by (simp add: escape_def length_concat comp_def sum_list_triv)
  with runes_length [of s] show ?thesis by linarith
qed

lemma entry_length:
  "length (marshalEntry e) \<le> 6 * (length (ceKey e) + length (ceStatus e) + length (ceError e)) + 110"
proof -
  have names: "length (escape ''key'') \<le> 18" "length (escape ''status'') \<le> 36" "length (escape ''error'') \<le> 30"
    using escape_length [of "''key''"] escape_length [of "''status''"] escape_length [of "''error''"] by simp_all
  show ?thesis
    using names escape_length [of "ceKey e"] escape_length [of "ceStatus e"] escape_length [of "ceError e"]
    by (auto simp: marshalEntry_def entryJson_def omitEmpty_def quoted_def)
qed

end
