(* ===== verification/AotFacts.thy ===== *)
theory AotFacts
  imports Aot WireFacts
begin

text \<open>
  What a verdict means: which outcomes of the pipeline give which status, that a tail replay stands
  for the run it replaces, that every result carries its job's ID (the contract the orchestrator
  relies on), and that a judged job leaves no directory behind.
\<close>

section \<open>Messages\<close>

lemma firstLine_bounds: "length (firstLine s) \<le> 300" "NL \<notin> set (firstLine s)"
proof -
  have nl: "NL \<notin> set (case Index s [NL] of Some i \<Rightarrow> take i s | None \<Rightarrow> s)"
  proof (cases "Index s [NL]")
    case None
    from Index_singleton_None [of s NL] this have "NL \<notin> set s" by blast
    with None show ?thesis by simp
  next
    case (Some i)
    have "s ! k \<noteq> NL" if "k < i" "k < length s" for k
    proof
      assume "s ! k = NL"
      with that(2) have "HasPrefix (drop k s) [NL]" by (simp add: HasPrefix_def take_Suc hd_drop_conv_nth)
      with Index_least [OF Some that(1)] show False by simp
    qed
    with Some show ?thesis by (auto simp: in_set_conv_nth)
  qed
  then show "NL \<notin> set (firstLine s)" by (auto simp: firstLine_def Let_def dest: in_set_takeD)
  show "length (firstLine s) \<le> 300" by (simp add: firstLine_def Let_def)
qed

lemma diagFrom_bounds: "diagFrom ls = Some d \<Longrightarrow> length d \<le> 300"
  by (induction ls) (auto simp: Let_def split: if_splits)

lemma diagLine_bounds: "length (diagLine s) \<le> 300"
  by (auto simp: diagLine_def firstLine_bounds diagFrom_bounds split: option.split)

section \<open>The contract of a job runner\<close>

text \<open>The orchestrator files a result under the ID it carries, so whatever runs a job must answer with
  the ID of that job.\<close>

locale job_runner =
  fixes runs :: "job \<Rightarrow> result \<Rightarrow> bool"
  assumes runs_id: "runs j r \<Longrightarrow> rID r = jID j"
begin

lemma answers_ids: "list_all2 runs js rs \<Longrightarrow> map rID rs = map jID js"
  by (induction rule: list_all2_induct) (simp_all add: runs_id)

end

lemma verdict_fields [simp]:
  "rID (verdict j s e) = jID j" "rStatus (verdict j s e) = s" "rError (verdict j s e) = e"
  "rTailKey (verdict j s e) = []"
  by (simp_all add: verdict_def)

lemma judgeRun_id: "rID (judgeRun env j bin) = jID j"
  by (simp add: judgeRun_def Let_def split: option.split)

lemma Get_id: "Get t k i = Some r \<Longrightarrow> rID r = i"
  by (auto simp: Get_def split: option.splits)

lemma judgeEmitted_id: "rID (judgeEmitted sha env tail rt g b s j) = jID j"
  by (auto simp: judgeEmitted_def judgeRun_id Let_def split: option.split sum.split dest: Get_id split: bind_splits)

lemma stagedVerdict_id: "rID (stagedVerdict sha env b tail rt s j) = jID j"
  by (auto simp: stagedVerdict_def judgeEmitted_id judgeRejected_def split: sum.split prod.split compile_outcome.split)

lemma ExecuteAOT_id: "rID (fst (ExecuteAOT sha env root tail rt j dirs)) = jID j"
  by (auto simp: ExecuteAOT_def stagedVerdict_id Let_def split: sum.split)

text \<open>What a worker process answers for a job, in any environment.\<close>

definition aotRuns ::
  "(string \<Rightarrow> string) \<Rightarrow> string \<Rightarrow> cache option \<Rightarrow> string \<Rightarrow> job \<Rightarrow> result \<Rightarrow> bool" where
  "aotRuns sha root tail rt j r \<longleftrightarrow> (\<exists>env dirs. r = fst (ExecuteAOT sha env root tail rt j dirs))"

interpretation process: job_runner "aotRuns sha root tail rt" for sha root tail rt
  by unfold_locales (auto simp: aotRuns_def ExecuteAOT_id)

text \<open>What the pool sees of a job whose ID is UTF-8 text: the job and its result cross the pipe as JSON, which
  coerces their other texts; a worker process loads the tail cache when it starts, and a recycled worker loads
  it again, so which tail cache it holds is not fixed for a run.\<close>

definition workerRuns :: "(string \<Rightarrow> string) \<Rightarrow> string \<Rightarrow> string \<Rightarrow> job \<Rightarrow> result \<Rightarrow> bool" where
  "workerRuns sha root rt j r \<longleftrightarrow>
     validUtf8 (jID j) \<and> (\<exists>tail r'. aotRuns sha root tail rt (validJob j) r' \<and> r = validResult r')"

interpretation aot: job_runner "workerRuns sha root rt" for sha root rt
proof
  fix j r assume "workerRuns sha root rt j r"
  then obtain tail r' where v: "validUtf8 (jID j)" "aotRuns sha root tail rt (validJob j) r'" "r = validResult r'"
    by (auto simp: workerRuns_def)
  from process.runs_id [OF v(2)] v(1,3) show "rID r = jID j" by (simp add: validResult_def validJob_def toValid_id)
qed

section \<open>Verdicts\<close>

text \<open>The rules a finished run is judged by.\<close>

definition ranClean :: "job \<Rightarrow> run_outcome \<Rightarrow> bool" where
  "ranClean j out \<longleftrightarrow> \<not> roDeadline out \<and>
     (if jNegType j \<noteq> [] then roErr out \<noteq> None \<and> Contains (roStdout out @ roStderr out) (jNegType j)
      else roErr out = None \<and> (\<not> jAsync j \<or> Contains (roStdout out) asyncDone))"

lemma judgeRun_pass: "rStatus (judgeRun env j bin) = ''pass'' \<longleftrightarrow> ranClean j (aeRun env bin)"
  by (auto simp: judgeRun_def ranClean_def Let_def split: option.split)

lemma judgeRun_status: "rStatus (judgeRun env j bin) \<in> {''pass'', ''fail'', ''timeout''}"
  by (auto simp: judgeRun_def Let_def split: option.split)

lemma judgeRun_tail: "rTailKey (judgeRun env j bin) = []"
  by (simp add: judgeRun_def Let_def split: option.split)

text \<open>What the job got as far as, when staging and the scratch directory succeed.\<close>

definition compiled :: "aotEnv \<Rightarrow> string \<Rightarrow> job \<Rightarrow> compile_outcome option" where
  "compiled env scratch j =
     (case stageJob (aeMkdir env) (aeWrite env) scratch ''test262.ts'' j of
        (Inl e, _) \<Rightarrow> None
      | (Inr entry, files) \<Rightarrow> Some (aeCompile env files entry))"

definition earlyError :: "job \<Rightarrow> bool" where
  "earlyError j \<longleftrightarrow> jNegType j \<noteq> [] \<and> jNegPhase j \<in> {''parse'', ''resolution''}"

lemma stagedVerdict_compiled:
  "stagedVerdict sha env b tail rt s j =
     (case compiled env s j of
        None \<Rightarrow> stagedVerdict sha env b tail rt s j
      | Some (NotYetLowerable reason) \<Rightarrow> verdict j ''handback'' (''lower: '' @ reason)
      | Some (Rejected err) \<Rightarrow> judgeRejected s err j
      | Some (Panics p) \<Rightarrow> verdict j ''crash'' (''panic: '' @ p)
      | Some (Emitted g) \<Rightarrow> judgeEmitted sha env tail rt g b s j)"
  by (auto simp: stagedVerdict_def compiled_def split: sum.split prod.split compile_outcome.split)

lemma stagedVerdict_unstaged: "compiled env s j = None \<Longrightarrow> rStatus (stagedVerdict sha env b tail rt s j) = ''crash''"
  by (auto simp: stagedVerdict_def compiled_def split: sum.splits prod.splits)

lemma judgeEmitted_fresh:
  "judgeEmitted sha env None rt g b s j =
     (case compileGo env b g s of
        Inl msg \<Rightarrow> verdict j ''fail'' (''gobuild: '' @ diagLine msg)
      | Inr bin \<Rightarrow> judgeRun env j bin)"
proof -
  have "(judgeRun env j bin)\<lparr>rTailKey := []\<rparr> = judgeRun env j bin" for bin
    by (simp add: judgeRun_def Let_def verdict_def split: option.split)
  then show ?thesis by (simp add: judgeEmitted_def verdict_def split: sum.split)
qed

section \<open>Properties\<close>

definition quietRun :: run_outcome where
  "quietRun = \<lparr>roErr = None, roStdout = [], roStderr = [], roDeadline = False\<rparr>"

text \<open>A host where everything works and the compiler emits the entry's name.\<close>

definition exampleEnv :: aotEnv where
  "exampleEnv = \<lparr>aeScratch = Inr ''/tmp/b1'', aeResolve = (\<lambda>p. Some p), aeMkdir = (\<lambda>_. None), aeWrite = (\<lambda>_. None),
     aeCompile = (\<lambda>files entry. Emitted entry), aeGoBuild = (\<lambda>_ _. quietRun), aeRun = (\<lambda>_. quietRun)\<rparr>"

section \<open>How far a job gets\<close>

text \<open>The scratch directory by its resolved name, if one could be made; what the compiler made of the job, if it got
  to see it; the recorded outcome of the emitted program, if the tail cache has one; and the finished run
  of its binary, if it builds.\<close>

definition scratchOf :: "aotEnv \<Rightarrow> string option" where
  "scratchOf env =
     (case aeScratch env of
        Inl e \<Rightarrow> None
      | Inr tmp \<Rightarrow> Some (case aeResolve env tmp of Some real \<Rightarrow> real | None \<Rightarrow> tmp))"

definition reached :: "aotEnv \<Rightarrow> job \<Rightarrow> compile_outcome option" where
  "reached env j = Option.bind (scratchOf env) (\<lambda>scratch. compiled env scratch j)"

definition recorded :: "(string \<Rightarrow> string) \<Rightarrow> cache option \<Rightarrow> string \<Rightarrow> string \<Rightarrow> job \<Rightarrow> result option" where
  "recorded sha tail rt g j = Option.bind tail (\<lambda>t. Get t (TailKey sha g rt j) (jID j))"

definition builtRun :: "aotEnv \<Rightarrow> string \<Rightarrow> string \<Rightarrow> run_outcome option" where
  "builtRun env root g =
     (case scratchOf env of
        None \<Rightarrow> None
      | Some scratch \<Rightarrow>
          (case compileGo env (buildDirName root scratch) g scratch of
             Inl msg \<Rightarrow> None
           | Inr bin \<Rightarrow> Some (aeRun env bin)))"

lemma execute_staged:
  "fst (ExecuteAOT sha env root tail rt j dirs) =
     (case scratchOf env of
        None \<Rightarrow> fst (ExecuteAOT sha env root tail rt j dirs)
      | Some scratch \<Rightarrow> stagedVerdict sha env (buildDirName root scratch) tail rt scratch j)"
  by (auto simp: ExecuteAOT_def scratchOf_def Let_def split: sum.split)

lemma execute_unreached:
  "reached env j = None \<Longrightarrow> rStatus (fst (ExecuteAOT sha env root tail rt j dirs)) = ''crash'' \<and>
     rTailKey (fst (ExecuteAOT sha env root tail rt j dirs)) = []"
proof -
  assume r: "reached env j = None"
  have "rTailKey (stagedVerdict sha env b tail rt s j) = []" if "compiled env s j = None" for b s
    using that by (auto simp: stagedVerdict_def compiled_def split: sum.splits prod.splits)
  with r show ?thesis
    by (auto simp: reached_def ExecuteAOT_def scratchOf_def Let_def stagedVerdict_unstaged split: sum.splits option.splits)
qed

lemma execute_reached:
  assumes "reached env j = Some out"
  shows "fst (ExecuteAOT sha env root tail rt j dirs) =
     (case out of
        NotYetLowerable reason \<Rightarrow> verdict j ''handback'' (''lower: '' @ reason)
      | Rejected err \<Rightarrow> judgeRejected (the (scratchOf env)) err j
      | Panics p \<Rightarrow> verdict j ''crash'' (''panic: '' @ p)
      | Emitted g \<Rightarrow>
          judgeEmitted sha env tail rt g (buildDirName root (the (scratchOf env))) (the (scratchOf env)) j)"
proof -
  obtain scratch where s: "scratchOf env = Some scratch" "compiled env scratch j = Some out"
    using assms by (auto simp: reached_def split: Option.bind_splits)
  have "fst (ExecuteAOT sha env root tail rt j dirs) = stagedVerdict sha env (buildDirName root scratch) tail rt scratch j"
    by (subst execute_staged) (simp add: s(1))
  then show ?thesis unfolding s(1) option.sel by (subst (asm) stagedVerdict_compiled) (simp add: s(2))
qed

text \<open>What an emitted program leads to.\<close>

lemma execute_emitted:
  assumes "reached env j = Some (Emitted g)" "r = fst (ExecuteAOT sha env root tail rt j dirs)"
  shows "recorded sha tail rt g j = Some hit \<Longrightarrow> r = hit\<lparr>rTailKey := TailKey sha g rt j\<rparr>"
    and "recorded sha tail rt g j = None \<Longrightarrow> rStatus r =
      (case builtRun env root g of
         None \<Rightarrow> ''fail''
       | Some out \<Rightarrow> if roDeadline out then ''timeout'' else if ranClean j out then ''pass'' else ''fail'')"
    and "rTailKey r = (if tail = None then [] else TailKey sha g rt j)"
proof -
  obtain scratch where s: "scratchOf env = Some scratch" using assms(1) by (auto simp: reached_def split: Option.bind_splits)
  have e: "r = judgeEmitted sha env tail rt g (buildDirName root scratch) scratch j"
    unfolding assms(2) execute_reached [OF assms(1)] by (simp add: s)
  have j: "rStatus (judgeRun env j bin) =
      (if roDeadline (aeRun env bin) then ''timeout'' else if ranClean j (aeRun env bin) then ''pass'' else ''fail'')" for bin
    by (auto simp: judgeRun_def ranClean_def Let_def split: option.split)
  show "recorded sha tail rt g j = Some hit \<Longrightarrow> r = hit\<lparr>rTailKey := TailKey sha g rt j\<rparr>"
    unfolding e by (cases tail) (simp_all add: recorded_def judgeEmitted_def)
  show "recorded sha tail rt g j = None \<Longrightarrow> rStatus r =
      (case builtRun env root g of
         None \<Rightarrow> ''fail''
       | Some out \<Rightarrow> if roDeadline out then ''timeout'' else if ranClean j out then ''pass'' else ''fail'')"
    unfolding e by (cases tail) (auto simp: recorded_def judgeEmitted_def builtRun_def s j Let_def split: sum.split)
  show "rTailKey r = (if tail = None then [] else TailKey sha g rt j)"
    unfolding e by (cases tail) (auto simp: judgeEmitted_def Let_def judgeRun_tail split: sum.split option.split)
qed

text \<open>C16. When a job passes, whatever the tail cache of its worker: the test demands an early error and the front
  end rejects the source with something other than a lowering gap; or a program is emitted, and the tail
  cache has a pass recorded for it, or has nothing, and it builds and its run meets the rules of its kind
  before the deadline. In no other way: not without a scratch directory, not when staging fails, the compiler
  panics or the program does not build.\<close>

theorem aot_pass_iff:
  "rStatus (fst (ExecuteAOT sha env root tail rt j dirs)) = ''pass'' \<longleftrightarrow>
    (case reached env j of
       Some (Rejected err) \<Rightarrow> earlyError j
     | Some (Emitted g) \<Rightarrow>
         (case recorded sha tail rt g j of
            Some hit \<Rightarrow> rStatus hit = ''pass''
          | None \<Rightarrow> (case builtRun env root g of None \<Rightarrow> False | Some out \<Rightarrow> ranClean j out))
     | _ \<Rightarrow> False)"
proof (cases "reached env j")
  case None
  with execute_unreached show ?thesis by simp
next
  case (Some out)
  show ?thesis
  proof (cases out)
    case (Emitted g)
    note e = execute_emitted [OF Some [unfolded Emitted] refl, where sha = sha and root = root and tail = tail and rt = rt and dirs = dirs]
    show ?thesis
    proof (cases "recorded sha tail rt g j")
      case None
      then show ?thesis using e(2) Some Emitted by (auto simp: ranClean_def split: option.split)
    next
      case (Some hit)
      then show ?thesis using e(1) \<open>reached env j = Some out\<close> Emitted by simp
    qed
  qed (use Some in \<open>simp_all add: execute_reached judgeRejected_def earlyError_def\<close>)
qed

text \<open>A tail cache as runs leave it: what it records was judged.\<close>

definition judgedTail :: "cache \<Rightarrow> bool" where
  "judgedTail t \<longleftrightarrow> ceStatus ` ran (ccEntries t) \<subseteq> {''pass'', ''fail''}"

lemma judgedTail_hit: "judgedTail t \<Longrightarrow> Get t k i = Some r \<Longrightarrow> rStatus r \<in> {''pass'', ''fail''}"
proof -
  assume t: "judgedTail t" and g: "Get t k i = Some r"
  then obtain e where "ccEntries t k = Some e" "rStatus r = ceStatus e" by (auto simp: Get_def split: option.splits)
  with t show ?thesis unfolding judgedTail_def by (metis ranI image_eqI subsetD)
qed

lemma judgedTail_Put:
  "judgedTail t \<Longrightarrow> rStatus r \<in> {''pass'', ''fail'', ''timeout''} \<Longrightarrow> judgedTail (fst (Put m w k r (t, fs)))"
  by (auto simp: judgedTail_def Put_entries entryOf_def ran_def volatileStatus_def split: if_splits)

text \<open>C17. The statuses split as documented, for a worker without a tail cache or with one that records judged runs: a
  fail is always a program the compiler emitted; a handback or a crash never is; a timeout is exactly a
  program that is not on record, builds, and whose own run passes its deadline; there is no sixth status; and
  a result that asks to be recorded, put into a tail cache that records judged runs, leaves it one, so the
  condition holds of every tail cache that was filled by runs.\<close>

theorem aot_status_split:
  assumes "r = fst (ExecuteAOT sha env root tail rt j dirs)" "tail = None \<or> judgedTail (the tail)"
  shows "(rStatus r = ''fail'' \<longrightarrow> (\<exists>g. reached env j = Some (Emitted g))) \<and>
    (rStatus r \<in> {''handback'', ''crash''} \<longrightarrow> \<not> (\<exists>g. reached env j = Some (Emitted g))) \<and>
    (rStatus r = ''timeout'' \<longleftrightarrow> (\<exists>g out. reached env j = Some (Emitted g) \<and> recorded sha tail rt g j = None \<and>
       builtRun env root g = Some out \<and> roDeadline out)) \<and>
    rStatus r \<in> {''pass'', ''fail'', ''handback'', ''timeout'', ''crash''} \<and> rID r = jID j \<and>
    (rTailKey r \<noteq> [] \<and> judgedTail t \<longrightarrow> judgedTail (fst (Put m w (rTailKey r) r (t, fs))))"
proof -
  have i: "rID r = jID j" by (simp add: assms(1) ExecuteAOT_id)
  show ?thesis
  proof (cases "reached env j")
    case None
    with execute_unreached [OF None] i show ?thesis by (simp add: assms(1))
  next
    case (Some out)
    show ?thesis
    proof (cases out)
      case (Emitted g)
      note e = execute_emitted [OF Some [unfolded Emitted] assms(1)]
      have s: "rStatus r \<in> {''pass'', ''fail'', ''timeout''} \<and>
          (rStatus r = ''timeout'' \<longleftrightarrow> recorded sha tail rt g j = None \<and>
             (\<exists>out. builtRun env root g = Some out \<and> roDeadline out))"
      proof (cases "recorded sha tail rt g j")
        case None
        with e(2) show ?thesis by (auto split: option.split)
      next
        case (Some hit)
        with assms(2) have "rStatus hit \<in> {''pass'', ''fail''}"
          by (auto simp: recorded_def dest: judgedTail_hit split: Option.bind_splits)
        with e(1) Some show ?thesis by auto
      qed
      with Some Emitted i judgedTail_Put [of t r m w "rTailKey r" fs] show ?thesis by auto
    qed (use Some i in \<open>auto simp: assms(1) execute_reached judgeRejected_def\<close>)
  qed
qed

text \<open>C18. A replay stands for the run it replaces. A job is judged with a tail cache at hand, and its verdict, neither a
  timeout nor a crash, is recorded in a tail cache that has nothing under its key. A second job, on any
  machine, whose worker has that tail cache, whose program is the same and is linked and judged the same
  way (runtime, expected error, async flag) gets the same status and error under its own ID, and nothing is
  built or run for it. And a job with the key of the first one is such a job, unless the two digested
  texts differ and their digests coincide (the fields but the program hold no NUL byte).\<close>

theorem tail_replay:
  assumes "reached env j = Some (Emitted g)" "r = fst (ExecuteAOT sha env root (Some tail) rt j dirs)"
    and "\<not> volatileStatus (rStatus r)" "ccEntries t (rTailKey r) = None"
    and "t' = fst (Put m w (rTailKey r) r (t, fs))"
    and "reached env' j' = Some (Emitted g')" "r' = fst (ExecuteAOT sha env' root' (Some t') rt' j' dirs')"
    and "nulFree [rt, jNegType j, jNegPhase j]" "nulFree [rt', jNegType j', jNegPhase j']"
    and "same \<longleftrightarrow> g' = g \<and> rt' = rt \<and> jNegType j' = jNegType j \<and> jNegPhase j' = jNegPhase j \<and> jAsync j' = jAsync j"
  shows "(same \<longrightarrow> r' = r\<lparr>rID := jID j'\<rparr> \<and>
      ExecuteAOT sha (env'\<lparr>aeGoBuild := gb, aeRun := rn\<rparr>) root' (Some t') rt' j' dirs' =
        ExecuteAOT sha env' root' (Some t') rt' j' dirs') \<and>
    (TailKey sha g' rt' j' = rTailKey r \<longrightarrow> same \<or>
      tailPreimage g' rt' j' \<noteq> tailPreimage g rt j \<and> sha (tailPreimage g' rt' j') = sha (tailPreimage g rt j))"
proof (intro conjI impI)
  have key: "rTailKey r = TailKey sha g rt j"
    using execute_emitted(3) [OF assms(1,2)] by simp
  { assume "same"
    then have k: "TailKey sha g' rt' j' = rTailKey r"
      using assms(10) by (simp add: key TailKey_def tailPreimage_def)
    have "Get t' (TailKey sha g' rt' j') (jID j') = Some (rebind (jID j') r)"
      using assms(3,4) by (simp add: assms(5) k Get_def Put_entries entryOf_def rebind_def)
    then have hit: "recorded sha (Some t') rt' g' j' = Some (rebind (jID j') r)" by (simp add: recorded_def)
    from execute_emitted(1) [OF assms(6,7) this] show "r' = r\<lparr>rID := jID j'\<rparr>"
      by (simp add: k rebind_def)
    let ?env = "env'\<lparr>aeGoBuild := gb, aeRun := rn\<rparr>"
    have c: "compiled ?env s j' = compiled env' s j'" for s
      by (simp add: compiled_def split: sum.split prod.split)
    have "scratchOf ?env = scratchOf env'" by (simp add: scratchOf_def split: sum.split)
    with assms(6) have "reached ?env j' = Some (Emitted g')" by (simp add: reached_def c)
    from execute_emitted(1) [OF this refl hit, of root' dirs'] execute_emitted(1) [OF assms(6) refl hit, of root' dirs']
    have "fst (ExecuteAOT sha ?env root' (Some t') rt' j' dirs') = fst (ExecuteAOT sha env' root' (Some t') rt' j' dirs')"
      by simp
    moreover have "makesBuildDir sha ?env (Some t') rt' s j' b = makesBuildDir sha env' (Some t') rt' s j' b" for s b
      by (simp add: makesBuildDir_def split: sum.split prod.split compile_outcome.split)
    then have "snd (ExecuteAOT sha ?env root' (Some t') rt' j' dirs') = snd (ExecuteAOT sha env' root' (Some t') rt' j' dirs')"
      by (simp add: ExecuteAOT_def Let_def split: sum.split)
    ultimately show "ExecuteAOT sha ?env root' (Some t') rt' j' dirs' = ExecuteAOT sha env' root' (Some t') rt' j' dirs'"
      by (simp add: prod_eq_iff) }
  assume k: "TailKey sha g' rt' j' = rTailKey r"
  show "same \<or> tailPreimage g' rt' j' \<noteq> tailPreimage g rt j \<and>
      sha (tailPreimage g' rt' j') = sha (tailPreimage g rt j)"
    using tailPreimage_inject [OF assms(9,8)] k assms(10) by (auto simp: key TailKey_def)
qed

text \<open>However a job ends (a panic of the compiler included), its scratch directory and its build
  package are gone, and no other directory is touched.\<close>

theorem aot_leaves_nothing:
  "snd (ExecuteAOT sha env root tail rt j dirs) \<subseteq> dirs \<and>
   dirs - snd (ExecuteAOT sha env root tail rt j dirs) \<subseteq>
     (case aeScratch env of
        Inl e \<Rightarrow> {}
      | Inr tmp \<Rightarrow>
          (let scratch = (case aeResolve env tmp of Some real \<Rightarrow> real | None \<Rightarrow> tmp)
           in {scratch, buildDirName root scratch}))"
  by (auto simp: ExecuteAOT_def Let_def split: sum.split)

text \<open>A reason the harness reports stays one line of at most 300 bytes after its fixed prefix, so equal
  failures group under one reason.\<close>

theorem reasons_bounded:
  "length (firstLine s) \<le> 300 \<and> NL \<notin> set (firstLine s) \<and> length (diagLine s) \<le> 300"
  by (simp add: firstLine_bounds diagLine_bounds)

text \<open>A machine on which every run would time out, and a test of another name with the same program.\<close>

definition lateEnv :: aotEnv where
  "lateEnv = exampleEnv\<lparr>aeRun := \<lambda>_. quietRun\<lparr>roDeadline := True\<rparr>\<rparr>"

definition otherJob :: job where
  "otherJob = exampleJob\<lparr>jID := ''b.js#sloppy''\<rparr>"

lemma example_reached:
  "reached exampleEnv exampleJob = Some (Emitted ''/tmp/b1/test262.ts'')"
  "reached lateEnv otherJob = Some (Emitted ''/tmp/b1/test262.ts'')"
proof -
  have "compiled exampleEnv ''/tmp/b1'' exampleJob = Some (Emitted ''/tmp/b1/test262.ts'')"
    and "compiled lateEnv ''/tmp/b1'' otherJob = Some (Emitted ''/tmp/b1/test262.ts'')" by code_simp+
  then show "reached exampleEnv exampleJob = Some (Emitted ''/tmp/b1/test262.ts'')"
    and "reached lateEnv otherJob = Some (Emitted ''/tmp/b1/test262.ts'')"
    by (simp_all add: reached_def scratchOf_def exampleEnv_def lateEnv_def)
qed

lemma example_passes:
  "rStatus (fst (ExecuteAOT (\<lambda>s. s) exampleEnv ''/m'' (Some (emptyCache ''t'')) ''rt'' exampleJob {})) = ''pass''"
proof -
  have b: "builtRun exampleEnv ''/m'' ''/tmp/b1/test262.ts'' = Some quietRun" by code_simp
  have c: "ranClean exampleJob quietRun" by code_simp
  have d: "\<not> roDeadline quietRun" by (simp add: quietRun_def)
  have "recorded (\<lambda>s. s) (Some (emptyCache ''t'')) ''rt'' ''/tmp/b1/test262.ts'' exampleJob = None"
    by (simp add: recorded_def emptyCache_def Get_def)
  from execute_emitted(2) [OF example_reached(1) refl this, of "''/m''" "{}"] show ?thesis
    by (simp only: b c d option.case if_False if_True)
qed

theorem aot_pass_iff_witness:
  "case recorded (\<lambda>s. s) (Some (emptyCache ''t'')) ''rt'' ''/tmp/b1/test262.ts'' exampleJob of
     Some hit \<Rightarrow> rStatus hit = ''pass''
   | None \<Rightarrow> (case builtRun exampleEnv ''/m'' ''/tmp/b1/test262.ts'' of None \<Rightarrow> False | Some out \<Rightarrow> ranClean exampleJob out)"
  using example_passes [unfolded aot_pass_iff] by (simp add: example_reached)

theorem aot_status_split_witness:
  "rStatus (fst (ExecuteAOT (\<lambda>s. s) exampleEnv ''/m'' (Some (emptyCache ''t'')) ''rt'' exampleJob {}))
     \<in> {''pass'', ''fail'', ''handback'', ''timeout'', ''crash''}"
proof -
  have "judgedTail (emptyCache ''t'')" by (simp add: judgedTail_def emptyCache_def)
  then show ?thesis by (intro aot_status_split [OF refl, THEN conjunct2, THEN conjunct2, THEN conjunct2, THEN conjunct1]) simp
qed

theorem tail_replay_witness:
  "rStatus (fst (ExecuteAOT (\<lambda>s. s) lateEnv ''/n''
      (Some (fst (Put (\<lambda>e. None) WroteAll
         (rTailKey (fst (ExecuteAOT (\<lambda>s. s) exampleEnv ''/m'' (Some (emptyCache ''t'')) ''rt'' exampleJob {})))
         (fst (ExecuteAOT (\<lambda>s. s) exampleEnv ''/m'' (Some (emptyCache ''t'')) ''rt'' exampleJob {})) (emptyCache ''t'', []))))
      ''rt'' otherJob {})) = ''pass''"
proof -
  have n: "nulFree [''rt'', jNegType exampleJob, jNegPhase exampleJob]"
    "nulFree [''rt'', jNegType otherJob, jNegPhase otherJob]"
    by (simp_all add: nulFree_def exampleJob_def otherJob_def)
  have v: "\<not> volatileStatus (rStatus (fst (ExecuteAOT (\<lambda>s. s) exampleEnv ''/m'' (Some (emptyCache ''t'')) ''rt'' exampleJob {})))"
    by (simp add: example_passes volatileStatus_def)
  have e: "ccEntries (emptyCache ''t'') k = None" for k by (simp add: emptyCache_def)
  from tail_replay [OF example_reached(1) refl v e refl example_reached(2) refl n refl, THEN conjunct1]
  show ?thesis by (simp add: example_passes otherJob_def)
qed

end
