(* ===== verification/Orchestrator.thy ===== *)
theory Orchestrator
  imports AotFacts
begin

text \<open>
  \<open>pkg/tc39/orchestrator.go\<close>: \<open>RunAll\<close> with its feeder, its pool of workers and its collector, and
  \<open>workerLoop\<close> and \<open>send\<close>. The goroutines interleave freely; an execution is a sequence of actions,
  each what one goroutine (or two that meet on an unbuffered channel) does next. What a worker
  process answers is the parameter \<open>runs\<close>; that it may die, refuse its input or not answer in time
  are actions like any other. Time is a counter that may advance at any moment. The write of a job to a
  worker's input is part of the action that ends the \<open>send\<close>: it is taken to end, in success or in an error,
  which the code, writing before it starts the timer, does not see to.
\<close>

section \<open>The prologue\<close>

record plan =
  plResults :: "string \<rightharpoonup> result"
  plKeys :: "string \<rightharpoonup> string"
  plTodo :: "job list"

definition planJob :: "(string \<Rightarrow> string) \<Rightarrow> cache option \<Rightarrow> string \<Rightarrow> job \<Rightarrow> plan \<Rightarrow> plan" where
  "planJob sha cache version j p =
     (case cache of
        None \<Rightarrow> p\<lparr>plTodo := plTodo p @ [j]\<rparr>
      | Some c \<Rightarrow>
          (let key = JobKey sha j version; p = p\<lparr>plKeys := (plKeys p)(jID j \<mapsto> key)\<rparr> in
           case Get c key (jID j) of
             Some r \<Rightarrow> p\<lparr>plResults := (plResults p)(jID j \<mapsto> r)\<rparr>
           | None \<Rightarrow> p\<lparr>plTodo := plTodo p @ [j]\<rparr>))"

definition planJobs :: "(string \<Rightarrow> string) \<Rightarrow> cache option \<Rightarrow> string \<Rightarrow> job list \<Rightarrow> plan" where
  "planJobs sha cache version jobs =
     fold (planJob sha cache version) jobs \<lparr>plResults = Map.empty, plKeys = Map.empty, plTodo = []\<rparr>"

section \<open>One exchange with a worker process\<close>

datatype reply =
    MarshalFails string
  | WriteFails string
  | Dies string
  | Answers result
  | NoAnswer

text \<open>\<open>send\<close>: the result and whether the process is still usable.\<close>

fun sendResult :: "job \<Rightarrow> reply \<Rightarrow> result \<times> bool" where
  "sendResult j (MarshalFails e) = (verdict j ''crash'' e, True)"
| "sendResult j (WriteFails e) = (verdict j ''crash'' (''worker gone: '' @ e), False)"
| "sendResult j (Dies e) = (verdict j ''crash'' (''worker died: '' @ e), False)"
| "sendResult j (Answers r) = (r, True)"
| "sendResult j NoAnswer = (verdict j ''timeout'' [], False)"

section \<open>The state\<close>

datatype phase =
    WIdle
  | WGot job
  | WBusy job
  | WReplied job result bool
  | WSend result
  | WDone

text \<open>A \<open>workerLoop\<close>: where it stands, whether it owns a live process, and how many jobs that served.\<close>

record wstate =
  wsPhase :: phase
  wsAlive :: bool
  wsServed :: nat

text \<open>The feeder: still sending, done sending and waiting for the workers, or the results channel closed;
  the jobs it never sent.\<close>

datatype feeder = Feeding "job list" | Draining "job list" | ResClosed "job list"

text \<open>\<open>ruDone\<close> are the results the collector has received, in order; its length is the counter \<open>done\<close>.\<close>

record run =
  ruFeeder :: feeder
  ruWorkers :: "wstate list"
  ruInflight :: "string \<rightharpoonup> nat"
  ruNow :: nat
  ruAborted :: bool
  ruResults :: "string \<rightharpoonup> result"
  ruDone :: "result list"
  ruCache :: "(cache \<times> filesystem) option"
  ruTail :: "(cache \<times> filesystem) option"

record config =
  cgWorkers :: int
  cgMaxJobs :: int
  cgAbortable :: bool
  cgKeys :: "string \<rightharpoonup> string"
  cgMarshal :: "cacheEntry \<Rightarrow> string option"

definition poolSize :: "int \<Rightarrow> nat" where
  "poolSize workers = nat (if workers \<le> 0 then 8 else workers)"

definition startRun ::
  "config \<Rightarrow> plan \<Rightarrow> (cache \<times> filesystem) option \<Rightarrow> (cache \<times> filesystem) option \<Rightarrow> run" where
  "startRun cfg p cache tail =
     \<lparr>ruFeeder = Feeding (plTodo p),
      ruWorkers = replicate (poolSize (cgWorkers cfg)) \<lparr>wsPhase = WIdle, wsAlive = False, wsServed = 0\<rparr>,
      ruInflight = Map.empty, ruNow = 0, ruAborted = False, ruResults = plResults p, ruDone = [],
      ruCache = cache, ruTail = tail\<rparr>"

section \<open>The actions\<close>

datatype action =
    Tick
  | Abort
  | StopFeeding
  | CloseJobs
  | CloseResults
  | Hand nat
  | SeeClosed nat
  | SpawnFails nat string
  | Spawns nat
  | Starts nat
  | Replies nat reply
  | Settles nat
  | Collects nat write_outcome write_outcome

definition setWorker :: "nat \<Rightarrow> wstate \<Rightarrow> run \<Rightarrow> run" where
  "setWorker i w s = s\<lparr>ruWorkers := (ruWorkers s)[i := w]\<rparr>"

text \<open>A worker's turn, when it is in range.\<close>

definition onWorker :: "nat \<Rightarrow> run \<Rightarrow> (wstate \<Rightarrow> run option) \<Rightarrow> run option" where
  "onWorker i s f = (if i < length (ruWorkers s) then f (ruWorkers s ! i) else None)"

text \<open>What the worker does with the outcome of \<open>send\<close>: replace the process, or count the job and recycle
  it at its limit.\<close>

definition settle :: "int \<Rightarrow> bool \<Rightarrow> result \<Rightarrow> wstate \<Rightarrow> wstate" where
  "settle maxJobs ok r w =
     (if \<not> ok then w\<lparr>wsPhase := WSend r, wsAlive := False\<rparr>
      else let served = wsServed w + 1 in
           w\<lparr>wsPhase := WSend r, wsServed := served,
             wsAlive := wsAlive w \<and> \<not> (maxJobs > 0 \<and> int served \<ge> maxJobs)\<rparr>)"

text \<open>The body of the collector's loop.\<close>

definition collect :: "config \<Rightarrow> write_outcome \<Rightarrow> write_outcome \<Rightarrow> result \<Rightarrow> run \<Rightarrow> run" where
  "collect cfg w1 w2 r s =
     s\<lparr>ruResults := (ruResults s)(rID r \<mapsto> r),
       ruCache := map_option
         (Put (cgMarshal cfg) w1 (case cgKeys cfg (rID r) of None \<Rightarrow> [] | Some k \<Rightarrow> k) r) (ruCache s),
       ruTail := (if rTailKey r \<noteq> [] then map_option (Put (cgMarshal cfg) w2 (rTailKey r) r) (ruTail s)
                  else ruTail s),
       ruDone := ruDone s @ [r]\<rparr>"

fun perform :: "config \<Rightarrow> action \<Rightarrow> run \<Rightarrow> run option" where
  "perform cfg Tick s = Some (s\<lparr>ruNow := ruNow s + 1\<rparr>)"
| "perform cfg Abort s =
     (if cgAbortable cfg \<and> \<not> ruAborted s then Some (s\<lparr>ruAborted := True\<rparr>) else None)"
| "perform cfg StopFeeding s =
     (case ruFeeder s of
        Feeding (j # js) \<Rightarrow> if ruAborted s then Some (s\<lparr>ruFeeder := Draining (j # js)\<rparr>) else None
      | _ \<Rightarrow> None)"
| "perform cfg CloseJobs s =
     (case ruFeeder s of Feeding [] \<Rightarrow> Some (s\<lparr>ruFeeder := Draining []\<rparr>) | _ \<Rightarrow> None)"
| "perform cfg CloseResults s =
     (case ruFeeder s of
        Draining js \<Rightarrow>
          if list_all (\<lambda>w. wsPhase w = WDone) (ruWorkers s) then Some (s\<lparr>ruFeeder := ResClosed js\<rparr>) else None
      | _ \<Rightarrow> None)"
| "perform cfg (Hand i) s =
     onWorker i s (\<lambda>w.
       case (ruFeeder s, wsPhase w) of
         (Feeding (j # js), WIdle) \<Rightarrow> Some (setWorker i (w\<lparr>wsPhase := WGot j\<rparr>) (s\<lparr>ruFeeder := Feeding js\<rparr>))
       | _ \<Rightarrow> None)"
| "perform cfg (SeeClosed i) s =
     onWorker i s (\<lambda>w.
       case (ruFeeder s, wsPhase w) of
         (Draining _, WIdle) \<Rightarrow> Some (setWorker i (w\<lparr>wsPhase := WDone, wsAlive := False\<rparr>) s)
       | _ \<Rightarrow> None)"
| "perform cfg (SpawnFails i e) s =
     onWorker i s (\<lambda>w.
       case (wsPhase w, wsAlive w) of
         (WGot j, False) \<Rightarrow> Some (setWorker i (w\<lparr>wsPhase := WSend (verdict j ''crash'' (''spawn: '' @ e))\<rparr>) s)
       | _ \<Rightarrow> None)"
| "perform cfg (Spawns i) s =
     onWorker i s (\<lambda>w.
       case (wsPhase w, wsAlive w) of
         (WGot j, False) \<Rightarrow> Some (setWorker i (w\<lparr>wsAlive := True, wsServed := 0\<rparr>) s)
       | _ \<Rightarrow> None)"
| "perform cfg (Starts i) s =
     onWorker i s (\<lambda>w.
       case (wsPhase w, wsAlive w) of
         (WGot j, True) \<Rightarrow>
           Some (setWorker i (w\<lparr>wsPhase := WBusy j\<rparr>) (s\<lparr>ruInflight := (ruInflight s)(jID j \<mapsto> ruNow s)\<rparr>))
       | _ \<Rightarrow> None)"
| "perform cfg (Replies i reply) s =
     onWorker i s (\<lambda>w.
       case wsPhase w of
         WBusy j \<Rightarrow>
           (let (r, ok) = sendResult j reply
            in Some (setWorker i (w\<lparr>wsPhase := WReplied j r ok, wsAlive := wsAlive w \<and> reply \<noteq> NoAnswer\<rparr>) s))
       | _ \<Rightarrow> None)"
| "perform cfg (Settles i) s =
     onWorker i s (\<lambda>w.
       case wsPhase w of
         WReplied j r ok \<Rightarrow>
           Some (setWorker i (settle (cgMaxJobs cfg) ok r w) (s\<lparr>ruInflight := (ruInflight s)(jID j := None)\<rparr>))
       | _ \<Rightarrow> None)"
| "perform cfg (Collects i w1 w2) s =
     onWorker i s (\<lambda>w.
       case wsPhase w of
         WSend r \<Rightarrow> Some (collect cfg w1 w2 r (setWorker i (w\<lparr>wsPhase := WIdle\<rparr>) s))
       | _ \<Rightarrow> None)"

text \<open>An answer is what running the worker's current job gives.\<close>

fun answerOf :: "(job \<Rightarrow> result \<Rightarrow> bool) \<Rightarrow> action \<Rightarrow> run \<Rightarrow> bool" where
  "answerOf runs (Replies i (Answers r)) s =
     (i < length (ruWorkers s) \<and> (case wsPhase (ruWorkers s ! i) of WBusy j \<Rightarrow> runs j r | _ \<Rightarrow> False))"
| "answerOf runs a s = True"

inductive step :: "(job \<Rightarrow> result \<Rightarrow> bool) \<Rightarrow> config \<Rightarrow> action \<Rightarrow> run \<Rightarrow> run \<Rightarrow> bool"
  for runs cfg where
  step: "answerOf runs a s \<Longrightarrow> perform cfg a s = Some s' \<Longrightarrow> step runs cfg a s s'"

inductive execution :: "(job \<Rightarrow> result \<Rightarrow> bool) \<Rightarrow> config \<Rightarrow> run \<Rightarrow> action list \<Rightarrow> run \<Rightarrow> bool"
  for runs cfg where
  start: "execution runs cfg s [] s"
| extend: "execution runs cfg s as t \<Longrightarrow> step runs cfg a t u \<Longrightarrow> execution runs cfg s (as @ [a]) u"

inductive_cases stepE: "step runs cfg a s s'"
inductive_simps execution_Nil: "execution runs cfg s [] t"

text \<open>\<open>RunAll\<close> returns once the results channel is closed.\<close>

definition returned :: "run \<Rightarrow> bool" where
  "returned s \<longleftrightarrow> (case ruFeeder s of ResClosed js \<Rightarrow> True | _ \<Rightarrow> False)"

text \<open>
  \<open>RunAll\<close>: with every job answered by the cache it returns before it starts a worker; otherwise it
  returns at the end of an execution. An interrupt may come at any moment.
\<close>

inductive RunAll ::
  "(job \<Rightarrow> result \<Rightarrow> bool) \<Rightarrow> config \<Rightarrow> plan \<Rightarrow> (cache \<times> filesystem) option \<Rightarrow> (cache \<times> filesystem) option \<Rightarrow>
   run \<Rightarrow> bool" for runs cfg p cache tail where
  nothing_to_do: "plTodo p = [] \<Longrightarrow> RunAll runs cfg p cache tail ((startRun cfg p cache tail)\<lparr>ruAborted := ab\<rparr>)"
| finished: "plTodo p \<noteq> [] \<Longrightarrow> execution runs cfg (startRun cfg p cache tail) as t \<Longrightarrow> returned t \<Longrightarrow>
    RunAll runs cfg p cache tail t"

inductive_cases RunAllE: "RunAll runs cfg p cache tail t"

section \<open>What the watchdogs read\<close>

text \<open>\<open>oldestInflight\<close>: the zero time when nothing runs. \<open>visited\<close> lists what \<open>sync.Map.Range\<close> visits.\<close>

definition oldestInflight :: "(string \<times> nat) list \<Rightarrow> nat option" where
  "oldestInflight visited =
     fold (\<lambda>(k, t) oldest. case oldest of None \<Rightarrow> Some t | Some o' \<Rightarrow> if t < o' then Some t else Some o') visited None"

definition stillRunning :: "(string \<times> nat) list \<Rightarrow> string list" where
  "stillRunning visited = map fst visited"

text \<open>The lines one tick of \<open>watchStuck\<close> prints: job and elapsed time.\<close>

definition stuckJobs :: "nat \<Rightarrow> nat \<Rightarrow> (string \<times> nat) list \<Rightarrow> (string \<times> nat) list" where
  "stuckJobs after now visited =
     map (\<lambda>(k, t). (k, now - t)) (filter (\<lambda>(k, t). now - t \<ge> after) visited)"

definition watchStuck :: "nat \<Rightarrow> (nat \<times> (string \<times> nat) list) list \<Rightarrow> (string \<times> nat) list list" where
  "watchStuck after ticks = map (\<lambda>(now, visited). stuckJobs after now visited) ticks"

end
