(* ===== verification/OrchestratorFacts.thy ===== *)
theory OrchestratorFacts
  imports Orchestrator
begin

text \<open>
  What a run guarantees, whatever the interleaving and whatever the worker processes do: no job is
  lost or answered twice, the run cannot get stuck and ends after a bounded number of actions, no
  process outlives it, the in-flight map is exact, and the caches hold what was collected.
\<close>

section \<open>One action at a time\<close>

lemma performE:
  assumes "perform cfg a s = Some s'"
  obtains
    (tick) "a = Tick" "s' = s\<lparr>ruNow := ruNow s + 1\<rparr>"
  | (abort) "a = Abort" "cgAbortable cfg" "\<not> ruAborted s" "s' = s\<lparr>ruAborted := True\<rparr>"
  | (stop) j js where "a = StopFeeding" "ruFeeder s = Feeding (j # js)" "ruAborted s"
      "s' = s\<lparr>ruFeeder := Draining (j # js)\<rparr>"
  | (close_jobs) "a = CloseJobs" "ruFeeder s = Feeding []" "s' = s\<lparr>ruFeeder := Draining []\<rparr>"
  | (close_results) js where "a = CloseResults" "ruFeeder s = Draining js"
      "list_all (\<lambda>w. wsPhase w = WDone) (ruWorkers s)" "s' = s\<lparr>ruFeeder := ResClosed js\<rparr>"
  | (hand) i j js where "a = Hand i" "i < length (ruWorkers s)" "ruFeeder s = Feeding (j # js)"
      "wsPhase (ruWorkers s ! i) = WIdle"
      "s' = setWorker i ((ruWorkers s ! i)\<lparr>wsPhase := WGot j\<rparr>) (s\<lparr>ruFeeder := Feeding js\<rparr>)"
  | (see_closed) i js where "a = SeeClosed i" "i < length (ruWorkers s)" "ruFeeder s = Draining js"
      "wsPhase (ruWorkers s ! i) = WIdle"
      "s' = setWorker i ((ruWorkers s ! i)\<lparr>wsPhase := WDone, wsAlive := False\<rparr>) s"
  | (spawn_fails) i e j where "a = SpawnFails i e" "i < length (ruWorkers s)"
      "wsPhase (ruWorkers s ! i) = WGot j" "\<not> wsAlive (ruWorkers s ! i)"
      "s' = setWorker i ((ruWorkers s ! i)\<lparr>wsPhase := WSend (verdict j ''crash'' (''spawn: '' @ e))\<rparr>) s"
  | (spawns) i j where "a = Spawns i" "i < length (ruWorkers s)"
      "wsPhase (ruWorkers s ! i) = WGot j" "\<not> wsAlive (ruWorkers s ! i)"
      "s' = setWorker i ((ruWorkers s ! i)\<lparr>wsAlive := True, wsServed := 0\<rparr>) s"
  | (starts) i j where "a = Starts i" "i < length (ruWorkers s)"
      "wsPhase (ruWorkers s ! i) = WGot j" "wsAlive (ruWorkers s ! i)"
      "s' = setWorker i ((ruWorkers s ! i)\<lparr>wsPhase := WBusy j\<rparr>)
         (s\<lparr>ruInflight := (ruInflight s)(jID j \<mapsto> ruNow s)\<rparr>)"
  | (replies) i reply j where "a = Replies i reply" "i < length (ruWorkers s)"
      "wsPhase (ruWorkers s ! i) = WBusy j"
      "s' = setWorker i ((ruWorkers s ! i)\<lparr>
         wsPhase := WReplied j (fst (sendResult j reply)) (snd (sendResult j reply)),
         wsAlive := wsAlive (ruWorkers s ! i) \<and> reply \<noteq> NoAnswer\<rparr>) s"
  | (settles) i j r ok where "a = Settles i" "i < length (ruWorkers s)"
      "wsPhase (ruWorkers s ! i) = WReplied j r ok"
      "s' = setWorker i (settle (cgMaxJobs cfg) ok r (ruWorkers s ! i))
         (s\<lparr>ruInflight := (ruInflight s)(jID j := None)\<rparr>)"
  | (collects) i w1 w2 r where "a = Collects i w1 w2" "i < length (ruWorkers s)"
      "wsPhase (ruWorkers s ! i) = WSend r"
      "s' = collect cfg w1 w2 r (setWorker i ((ruWorkers s ! i)\<lparr>wsPhase := WIdle\<rparr>) s)"
  using assms
  by (cases a)
    (auto simp: onWorker_def Let_def split: if_splits feeder.splits list.splits phase.splits bool.splits prod.splits)

lemma setWorker_fields [simp]:
  "ruWorkers (setWorker i w s) = (ruWorkers s)[i := w]"
  "ruFeeder (setWorker i w s) = ruFeeder s" "ruInflight (setWorker i w s) = ruInflight s"
  "ruNow (setWorker i w s) = ruNow s" "ruAborted (setWorker i w s) = ruAborted s"
  "ruResults (setWorker i w s) = ruResults s" "ruDone (setWorker i w s) = ruDone s"
  "ruCache (setWorker i w s) = ruCache s" "ruTail (setWorker i w s) = ruTail s"
  by (simp_all add: setWorker_def)

lemma collect_fields [simp]:
  "ruWorkers (collect cfg w1 w2 r s) = ruWorkers s" "ruFeeder (collect cfg w1 w2 r s) = ruFeeder s"
  "ruInflight (collect cfg w1 w2 r s) = ruInflight s" "ruNow (collect cfg w1 w2 r s) = ruNow s"
  "ruAborted (collect cfg w1 w2 r s) = ruAborted s" "ruDone (collect cfg w1 w2 r s) = ruDone s @ [r]"
  "ruResults (collect cfg w1 w2 r s) = (ruResults s)(rID r \<mapsto> r)"
  by (simp_all add: collect_def)

lemma settle_phase [simp]: "wsPhase (settle m ok r w) = WSend r"
  by (simp add: settle_def Let_def)

section \<open>Invariants of a worker\<close>

definition goodWorker :: "config \<Rightarrow> wstate \<Rightarrow> bool" where
  "goodWorker cfg w \<longleftrightarrow>
     (case wsPhase w of
        WBusy j \<Rightarrow> wsAlive w
      | WReplied j r ok \<Rightarrow> rID r = jID j
      | WDone \<Rightarrow> \<not> wsAlive w
      | _ \<Rightarrow> True) \<and>
     (wsAlive w \<and> cgMaxJobs cfg > 0 \<longrightarrow> int (wsServed w) < cgMaxJobs cfg)"

text \<open>Workers end only once the jobs channel is closed, and the results channel closes only once all have.\<close>

definition goodFeeder :: "run \<Rightarrow> bool" where
  "goodFeeder s \<longleftrightarrow>
     (case ruFeeder s of
        Feeding js \<Rightarrow> list_all (\<lambda>w. wsPhase w \<noteq> WDone) (ruWorkers s)
      | Draining js \<Rightarrow> js = [] \<or> ruAborted s
      | ResClosed js \<Rightarrow> (js = [] \<or> ruAborted s) \<and> list_all (\<lambda>w. wsPhase w = WDone) (ruWorkers s))"

text \<open>The jobs in a worker's hands, by ID, and those the feeder has not sent.\<close>

definition inHand :: "wstate \<Rightarrow> string multiset" where
  "inHand w =
     (case wsPhase w of
        WGot j \<Rightarrow> {#jID j#}
      | WBusy j \<Rightarrow> {#jID j#}
      | WReplied j r ok \<Rightarrow> {#jID j#}
      | WSend r \<Rightarrow> {#rID r#}
      | _ \<Rightarrow> {#})"

fun unsent :: "feeder \<Rightarrow> job list" where
  "unsent (Feeding js) = js"
| "unsent (Draining js) = js"
| "unsent (ResClosed js) = js"

definition accounted :: "run \<Rightarrow> string multiset" where
  "accounted s =
     mset (map jID (unsent (ruFeeder s))) + sum_list (map inHand (ruWorkers s)) + mset (map rID (ruDone s))"

lemma inHand_update:
  "i < length ws \<Longrightarrow> inHand w = M \<Longrightarrow> inHand (ws ! i) = N \<Longrightarrow>
   sum_list (map inHand (ws[i := w])) + N = sum_list (map inHand ws) + M"
  using sum_list_map_update [of i ws inHand w] by simp

lemma sendResult_id: "(\<And>r. reply = Answers r \<Longrightarrow> rID r = jID j) \<Longrightarrow> rID (fst (sendResult j reply)) = jID j"
  by (cases reply) auto

context job_runner begin

lemma answer_id:
  assumes "answerOf runs (Replies i reply) s" "wsPhase (ruWorkers s ! i) = WBusy j"
  shows "rID (fst (sendResult j reply)) = jID j"
  using assms by (intro sendResult_id) (auto intro: runs_id)

lemma step_goodWorker:
  assumes "step runs cfg a s s'" "list_all (goodWorker cfg) (ruWorkers s)"
  shows "list_all (goodWorker cfg) (ruWorkers s')"
  using assms(1)
proof (rule stepE)
  assume a: "answerOf runs a s" and p: "perform cfg a s = Some s'"
  have g: "goodWorker cfg (ruWorkers s ! i)" if "i < length (ruWorkers s)" for i
    using assms(2) that by (rule list_all_nth_mem)
  show ?thesis using p
  proof (cases rule: performE)
    case (replies i reply j)
    from answer_id [of i reply s j] a replies(1,3) have "rID (fst (sendResult j reply)) = jID j" by simp
    with g [OF replies(2)] assms(2) replies show ?thesis
      by (auto simp: goodWorker_def intro!: list_all_update)
  next
    case (settles i j r ok)
    with g [OF settles(2)] assms(2) show ?thesis
      by (auto simp: goodWorker_def settle_def Let_def intro!: list_all_update)
  qed (use g assms(2) in \<open>auto simp: goodWorker_def intro!: list_all_update\<close>)
qed

end

section \<open>Accounting\<close>

lemma goodFeeder_phases:
  assumes "goodFeeder s" "i < length (ruWorkers s)"
  shows "ruFeeder s = Feeding js \<Longrightarrow> wsPhase (ruWorkers s ! i) \<noteq> WDone"
    and "ruFeeder s = ResClosed js \<Longrightarrow> wsPhase (ruWorkers s ! i) = WDone"
  using assms by (auto simp: goodFeeder_def list_all_length)

lemma step_goodFeeder:
  assumes "step runs cfg a s s'" "goodFeeder s"
  shows "goodFeeder s'"
  using assms(1)
proof (rule stepE)
  assume p: "perform cfg a s = Some s'"
  have keep: "goodFeeder t"
    if "ruFeeder t = ruFeeder s" "ruAborted t = ruAborted s" "ruWorkers t = (ruWorkers s)[i := w]"
      "i < length (ruWorkers s)" "wsPhase (ruWorkers s ! i) \<noteq> WDone" "wsPhase w \<noteq> WDone" for t i w
  proof (cases "ruFeeder s")
    case (ResClosed js)
    with goodFeeder_phases(2) [OF assms(2) that(4)] that(5) show ?thesis by simp
  qed (use assms(2) that in \<open>auto simp: goodFeeder_def intro!: list_all_update\<close>)
  show ?thesis using p
  proof (cases rule: performE)
    case (hand i j js)
    with assms(2) show ?thesis by (auto simp: goodFeeder_def intro!: list_all_update)
  next
    case (see_closed i js)
    with assms(2) show ?thesis by (auto simp: goodFeeder_def)
  next
    case (spawn_fails i e j)
    then show ?thesis by (intro keep [of s' i]) auto
  next
    case (spawns i j)
    then show ?thesis by (intro keep [of s' i]) auto
  next
    case (starts i j)
    then show ?thesis by (intro keep [of s' i]) auto
  next
    case (replies i reply j)
    then show ?thesis by (intro keep [of s' i]) auto
  next
    case (settles i j r ok)
    then show ?thesis by (intro keep [of s' i]) auto
  next
    case (collects i w1 w2 r)
    then show ?thesis by (intro keep [of s' i]) auto
  qed (use assms(2) in \<open>auto simp: goodFeeder_def split: feeder.splits\<close>)
qed

context job_runner begin

text \<open>No action loses a job or makes one up.\<close>

lemma step_accounted:
  assumes "step runs cfg a s s'" "list_all (goodWorker cfg) (ruWorkers s)"
  shows "accounted s' = accounted s"
  using assms(1)
proof (rule stepE)
  assume a: "answerOf runs a s" and p: "perform cfg a s = Some s'"
  show ?thesis using p
  proof (cases rule: performE)
    case (hand i j js)
    from inHand_update [OF hand(2), of "(ruWorkers s ! i)\<lparr>wsPhase := WGot j\<rparr>" "{#jID j#}" "{#}"] hand
    show ?thesis by (simp add: accounted_def inHand_def)
  next
    case (see_closed i js)
    from inHand_update [OF see_closed(2), of "(ruWorkers s ! i)\<lparr>wsPhase := WDone, wsAlive := False\<rparr>" "{#}" "{#}"]
      see_closed show ?thesis by (simp add: accounted_def inHand_def)
  next
    case (spawn_fails i e j)
    from inHand_update [OF spawn_fails(2),
        of "(ruWorkers s ! i)\<lparr>wsPhase := WSend (verdict j ''crash'' (''spawn: '' @ e))\<rparr>" "{#jID j#}" "{#jID j#}"]
      spawn_fails show ?thesis by (simp add: accounted_def inHand_def)
  next
    case (spawns i j)
    from inHand_update [OF spawns(2), of "(ruWorkers s ! i)\<lparr>wsAlive := True, wsServed := 0\<rparr>" "{#jID j#}" "{#jID j#}"]
      spawns show ?thesis by (simp add: accounted_def inHand_def)
  next
    case (starts i j)
    from inHand_update [OF starts(2), of "(ruWorkers s ! i)\<lparr>wsPhase := WBusy j\<rparr>" "{#jID j#}" "{#jID j#}"]
      starts show ?thesis by (simp add: accounted_def inHand_def)
  next
    case (replies i reply j)
    from inHand_update [OF replies(2), of "(ruWorkers s ! i)\<lparr>
         wsPhase := WReplied j (fst (sendResult j reply)) (snd (sendResult j reply)),
         wsAlive := wsAlive (ruWorkers s ! i) \<and> reply \<noteq> NoAnswer\<rparr>" "{#jID j#}" "{#jID j#}"]
      replies show ?thesis by (simp add: accounted_def inHand_def)
  next
    case (settles i j r ok)
    have "goodWorker cfg (ruWorkers s ! i)" using assms(2) settles(2) by (rule list_all_nth_mem)
    with settles(3) have "rID r = jID j" by (simp add: goodWorker_def)
    with inHand_update [OF settles(2), of "settle (cgMaxJobs cfg) ok r (ruWorkers s ! i)" "{#jID j#}" "{#jID j#}"]
      settles show ?thesis by (simp add: accounted_def inHand_def)
  next
    case (collects i w1 w2 r)
    from inHand_update [OF collects(2), of "(ruWorkers s ! i)\<lparr>wsPhase := WIdle\<rparr>" "{#}" "{#rID r#}"]
      collects show ?thesis by (simp add: accounted_def inHand_def)
  qed (simp_all add: accounted_def)
qed

end

section \<open>Termination and progress\<close>

fun phaseWeight :: "phase \<Rightarrow> bool \<Rightarrow> nat" where
  "phaseWeight (WGot j) alive = (if alive then 5 else 6)"
| "phaseWeight (WBusy j) alive = 4"
| "phaseWeight (WReplied j r ok) alive = 3"
| "phaseWeight (WSend r) alive = 2"
| "phaseWeight WIdle alive = 1"
| "phaseWeight WDone alive = 0"

fun feederWeight :: "feeder \<Rightarrow> nat" where
  "feederWeight (Feeding js) = 6 * length js + 2"
| "feederWeight (Draining js) = 1"
| "feederWeight (ResClosed js) = 0"

definition workLeft :: "run \<Rightarrow> nat" where
  "workLeft s =
     feederWeight (ruFeeder s) + sum_list (map (\<lambda>w. phaseWeight (wsPhase w) (wsAlive w)) (ruWorkers s)) +
     (if ruAborted s then 0 else 1)"

lemma weight_update:
  "i < length ws \<Longrightarrow>
   sum_list (map (\<lambda>w. phaseWeight (wsPhase w) (wsAlive w)) (ws[i := w])) + phaseWeight (wsPhase (ws ! i)) (wsAlive (ws ! i)) =
   sum_list (map (\<lambda>w. phaseWeight (wsPhase w) (wsAlive w)) ws) + phaseWeight (wsPhase w) (wsAlive w)"
  by (rule sum_list_map_update)

text \<open>Every action but the passing of time uses up work.\<close>

lemma step_workLeft:
  assumes "step runs cfg a s s'"
  shows "(if a = Tick then workLeft s' = workLeft s else workLeft s' < workLeft s)"
  using assms
proof (rule stepE)
  assume p: "perform cfg a s = Some s'"
  have upd: "workLeft t < workLeft s"
    if "ruWorkers t = (ruWorkers s)[i := w]" "i < length (ruWorkers s)" "ruAborted t = ruAborted s"
      "feederWeight (ruFeeder t) + phaseWeight (wsPhase w) (wsAlive w) <
       feederWeight (ruFeeder s) + phaseWeight (wsPhase (ruWorkers s ! i)) (wsAlive (ruWorkers s ! i))" for t i w
    using weight_update [OF that(2), of w] that by (simp add: workLeft_def)
  show ?thesis using p
  proof (cases rule: performE)
    case (hand i j js)
    then have "workLeft s' < workLeft s" by (intro upd) auto
    with hand show ?thesis by simp
  next
    case (see_closed i js)
    then have "workLeft s' < workLeft s" by (intro upd) auto
    with see_closed show ?thesis by simp
  next
    case (spawn_fails i e j)
    then have "workLeft s' < workLeft s" by (intro upd) auto
    with spawn_fails show ?thesis by simp
  next
    case (spawns i j)
    then have "workLeft s' < workLeft s" by (intro upd) auto
    with spawns show ?thesis by simp
  next
    case (starts i j)
    then have "workLeft s' < workLeft s" by (intro upd) auto
    with starts show ?thesis by simp
  next
    case (replies i reply j)
    then have "workLeft s' < workLeft s" by (intro upd) auto
    with replies show ?thesis by simp
  next
    case (settles i j r ok)
    then have "workLeft s' < workLeft s" by (intro upd) auto
    with settles show ?thesis by simp
  next
    case (collects i w1 w2 r)
    then have "workLeft s' < workLeft s" by (intro upd) auto
    with collects show ?thesis by simp
  qed (simp_all add: workLeft_def)
qed

text \<open>Until the run has returned, some goroutine can take an action that is not a wait for anyone:
  a process that does not answer is cut off by the timeout.\<close>

lemma step_from: "perform cfg a s = Some t \<Longrightarrow> answerOf runs a s \<Longrightarrow> a \<noteq> Tick \<Longrightarrow> \<exists>a s'. a \<noteq> Tick \<and> step runs cfg a s s'"
  using step.step by blast

lemma busy_worker_moves:
  assumes "i < length (ruWorkers s)" "wsPhase (ruWorkers s ! i) \<noteq> WIdle" "wsPhase (ruWorkers s ! i) \<noteq> WDone"
  shows "\<exists>a s'. a \<noteq> Tick \<and> step runs cfg a s s'"
proof (cases "wsPhase (ruWorkers s ! i)")
  case (WGot j)
  then show ?thesis
    using assms step_from [of cfg "Spawns i"] step_from [of cfg "Starts i"]
    by (cases "wsAlive (ruWorkers s ! i)") (auto simp: onWorker_def)
next
  case (WBusy j)
  then show ?thesis using assms step_from [of cfg "Replies i NoAnswer"] by (auto simp: onWorker_def)
next
  case (WReplied j r ok)
  then show ?thesis using assms step_from [of cfg "Settles i"] by (auto simp: onWorker_def)
next
  case (WSend r)
  then show ?thesis using assms step_from [of cfg "Collects i WroteAll WroteAll"] by (auto simp: onWorker_def)
qed (use assms in auto)

lemma progress:
  assumes "goodFeeder s" "ruWorkers s \<noteq> []" "\<not> returned s"
  shows "\<exists>a s'. a \<noteq> Tick \<and> step runs cfg a s s'"
proof (cases "\<exists>i < length (ruWorkers s). wsPhase (ruWorkers s ! i) \<noteq> WIdle \<and> wsPhase (ruWorkers s ! i) \<noteq> WDone")
  case True
  then show ?thesis using busy_worker_moves by blast
next
  case False
  then have ph: "wsPhase (ruWorkers s ! i) = WIdle \<or> wsPhase (ruWorkers s ! i) = WDone" if "i < length (ruWorkers s)" for i
    using that by blast
  have z: "0 < length (ruWorkers s)" using assms(2) by simp
  show ?thesis
  proof (cases "ruFeeder s")
    case (Feeding js)
    with goodFeeder_phases(1) [OF assms(1) z] ph [OF z] have "wsPhase (ruWorkers s ! 0) = WIdle" by auto
    with Feeding z step_from [of cfg CloseJobs] step_from [of cfg "Hand 0"] show ?thesis
      by (cases js) (auto simp: onWorker_def)
  next
    case (Draining js)
    show ?thesis
    proof (cases "list_all (\<lambda>w. wsPhase w = WDone) (ruWorkers s)")
      case True
      with Draining step_from [of cfg CloseResults] show ?thesis by auto
    next
      case False
      then obtain i where i: "i < length (ruWorkers s)" "wsPhase (ruWorkers s ! i) \<noteq> WDone"
        by (auto simp: list_all_length)
      with ph have "wsPhase (ruWorkers s ! i) = WIdle" by blast
      with i Draining step_from [of cfg "SeeClosed i"] show ?thesis by (auto simp: onWorker_def)
    qed
  qed (use assms(3) in \<open>simp add: returned_def\<close>)
qed

section \<open>Executions\<close>

lemma startRun_fields [simp]:
  "ruFeeder (startRun cfg p cache tail) = Feeding (plTodo p)" "ruDone (startRun cfg p cache tail) = []"
  "ruInflight (startRun cfg p cache tail) = Map.empty" "ruResults (startRun cfg p cache tail) = plResults p"
  "ruCache (startRun cfg p cache tail) = cache" "ruTail (startRun cfg p cache tail) = tail"
  "length (ruWorkers (startRun cfg p cache tail)) = poolSize (cgWorkers cfg)"
  by (simp_all add: startRun_def)

lemma poolSize_pos: "0 < poolSize n"
  by (simp add: poolSize_def)

lemma startRun_workers:
  "w \<in> set (ruWorkers (startRun cfg p cache tail)) \<Longrightarrow> w = \<lparr>wsPhase = WIdle, wsAlive = False, wsServed = 0\<rparr>"
  by (simp add: startRun_def)

lemma startRun_good:
  "goodFeeder (startRun cfg p cache tail)"
  "list_all (goodWorker cfg) (ruWorkers (startRun cfg p cache tail))"
  "accounted (startRun cfg p cache tail) = mset (map jID (plTodo p))"
proof -
  show "goodFeeder (startRun cfg p cache tail)" "list_all (goodWorker cfg) (ruWorkers (startRun cfg p cache tail))"
    by (auto simp: goodFeeder_def goodWorker_def list_all_iff dest: startRun_workers)
  have "sum_list (map inHand (replicate n \<lparr>wsPhase = WIdle, wsAlive = False, wsServed = 0\<rparr>)) = {#}" for n
    by (induction n) (simp_all add: inHand_def)
  then show "accounted (startRun cfg p cache tail) = mset (map jID (plTodo p))"
    by (simp add: accounted_def) (simp add: startRun_def)
qed

lemma step_length: "step runs cfg a s s' \<Longrightarrow> length (ruWorkers s') = length (ruWorkers s)"
  by (erule stepE, erule performE) simp_all

lemma execution_invariant:
  assumes "execution runs cfg s as t" "P s" "\<And>a s s'. step runs cfg a s s' \<Longrightarrow> P s \<Longrightarrow> P s'"
  shows "P t"
  using assms by (induction rule: execution.induct) blast+

lemma execution_length: "execution runs cfg s as t \<Longrightarrow> length (ruWorkers t) = length (ruWorkers s)"
  by (induction rule: execution.induct) (simp_all add: step_length)

lemma execution_goodFeeder: "execution runs cfg s as t \<Longrightarrow> goodFeeder s \<Longrightarrow> goodFeeder t"
  by (erule execution_invariant [where P = goodFeeder]) (auto intro: step_goodFeeder)

lemma execution_append: "execution runs cfg t bs u \<Longrightarrow> execution runs cfg s as t \<Longrightarrow> execution runs cfg s (as @ bs) u"
  by (induction rule: execution.induct) (auto simp flip: append_assoc intro: execution.extend)

text \<open>The actions of an execution that are not the passing of time are bounded by the work at its start.\<close>

lemma execution_bound:
  "execution runs cfg s as t \<Longrightarrow> length (filter (\<lambda>a. a \<noteq> Tick) as) + workLeft t \<le> workLeft s"
proof (induction rule: execution.induct)
  case (extend s as t a u)
  from step_workLeft [OF extend.hyps(2)] extend.IH show ?case by (cases "a = Tick") simp_all
qed simp

lemma execution_finishes:
  assumes "goodFeeder s" "ruWorkers s \<noteq> []"
  shows "\<exists>as t. execution runs cfg s as t \<and> returned t \<and> list_all (\<lambda>a. a \<noteq> Tick) as"
  using assms
proof (induction "workLeft s" arbitrary: s rule: less_induct)
  case less
  show ?case
  proof (cases "returned s")
    case True
    then show ?thesis using execution.start [of runs cfg s] by (intro exI [of _ "[]"] exI [of _ s]) simp
  next
    case False
    from progress [OF less.prems False] obtain a s' where a: "a \<noteq> Tick" "step runs cfg a s s'" by blast
    with step_workLeft [OF a(2)] have "workLeft s' < workLeft s" by simp
    moreover have "goodFeeder s'" using a(2) less.prems(1) by (rule step_goodFeeder)
    moreover have "ruWorkers s' \<noteq> []" using step_length [OF a(2)] less.prems(2) by auto
    ultimately obtain as t where t: "execution runs cfg s' as t" "returned t" "list_all (\<lambda>a. a \<noteq> Tick) as"
      using less.hyps by blast
    have "execution runs cfg s ([] @ [a]) s'" by (rule execution.extend [OF execution.start a(2)])
    then have "execution runs cfg s [a] s'" by simp
    from execution_append [OF t(1) this] t a(1) show ?thesis by (intro exI [of _ "[a] @ as"] exI [of _ t]) simp
  qed
qed

context job_runner begin

lemma execution_good:
  assumes "execution runs cfg s as t" "list_all (goodWorker cfg) (ruWorkers s)"
  shows "list_all (goodWorker cfg) (ruWorkers t) \<and> accounted t = accounted s"
  using assms by (induction rule: execution.induct) (auto intro: step_goodWorker dest: step_accounted)

text \<open>All of it, for a run from its start.\<close>

lemma run_good:
  assumes "execution runs cfg (startRun cfg p cache tail) as t"
  shows "goodFeeder t" "list_all (goodWorker cfg) (ruWorkers t)" "accounted t = mset (map jID (plTodo p))"
    "ruWorkers t \<noteq> []"
proof -
  show "goodFeeder t" using assms startRun_good(1) by (rule execution_goodFeeder)
  show "list_all (goodWorker cfg) (ruWorkers t)" "accounted t = mset (map jID (plTodo p))"
    using execution_good [OF assms startRun_good(2)] by (simp_all add: startRun_good(3))
  show "ruWorkers t \<noteq> []"
    using execution_length [OF assms] poolSize_pos [of "cgWorkers cfg"] by auto
qed

lemma returned_accounted:
  assumes "execution runs cfg (startRun cfg p cache tail) as t" "returned t"
  shows "mset (map rID (ruDone t)) + mset (map jID (unsent (ruFeeder t))) = mset (map jID (plTodo p))"
    "list_all (\<lambda>w. wsPhase w = WDone \<and> \<not> wsAlive w) (ruWorkers t)"
    "unsent (ruFeeder t) = [] \<or> ruAborted t"
proof -
  note g = run_good [OF assms(1)]
  from assms(2) obtain js where f: "ruFeeder t = ResClosed js" by (auto simp: returned_def split: feeder.splits)
  with g(1) have d: "list_all (\<lambda>w. wsPhase w = WDone) (ruWorkers t)" "js = [] \<or> ruAborted t" by (auto simp: goodFeeder_def)
  with g(2) show "list_all (\<lambda>w. wsPhase w = WDone \<and> \<not> wsAlive w) (ruWorkers t)"
    by (auto simp: list_all_iff goodWorker_def)
  show "unsent (ruFeeder t) = [] \<or> ruAborted t" using d(2) f by simp
  have "sum_list (map inHand ws) = {#}" if "list_all (\<lambda>w. wsPhase w = WDone) ws" for ws
    using that by (induction ws) (auto simp: inHand_def)
  with d(1) g(3) show "mset (map rID (ruDone t)) + mset (map jID (unsent (ruFeeder t))) = mset (map jID (plTodo p))"
    by (simp add: accounted_def add.commute)
qed

end

section \<open>The in-flight map\<close>

definition running :: "wstate \<Rightarrow> string option" where
  "running w =
     (case wsPhase w of
        WBusy j \<Rightarrow> Some (jID j)
      | WReplied j r ok \<Rightarrow> Some (jID j)
      | _ \<Rightarrow> None)"

definition runningIDs :: "run \<Rightarrow> string set" where
  "runningIDs s = {k. \<exists>i < length (ruWorkers s). running (ruWorkers s ! i) = Some k}"

lemma runningIDs_update:
  assumes "ruWorkers t = (ruWorkers s)[i := w]" "i < length (ruWorkers s)"
  shows "runningIDs t = {k. running w = Some k} \<union>
    {k. \<exists>m < length (ruWorkers s). m \<noteq> i \<and> running (ruWorkers s ! m) = Some k}"
proof (rule set_eqI)
  fix k
  have "k \<in> runningIDs t \<longleftrightarrow> (\<exists>m < length (ruWorkers s). running ((ruWorkers s)[i := w] ! m) = Some k)"
    by (simp add: runningIDs_def assms(1))
  also have "\<dots> \<longleftrightarrow> running w = Some k \<or> (\<exists>m < length (ruWorkers s). m \<noteq> i \<and> running (ruWorkers s ! m) = Some k)"
    using assms(2) by (auto simp: nth_list_update)
  finally show "k \<in> runningIDs t \<longleftrightarrow> k \<in> {k. running w = Some k} \<union>
    {k. \<exists>m < length (ruWorkers s). m \<noteq> i \<and> running (ruWorkers s ! m) = Some k}" by simp
qed

lemma runningIDs_same:
  assumes "ruWorkers t = (ruWorkers s)[i := w]" "i < length (ruWorkers s)" "running w = running (ruWorkers s ! i)"
  shows "runningIDs t = runningIDs s"
  by (subst runningIDs_update [OF assms(1,2)]) (use assms(2,3) in \<open>auto simp: runningIDs_def\<close>)

text \<open>With distinct IDs no two workers run the same one.\<close>

lemma running_inHand: "running w = Some k \<Longrightarrow> count (inHand w) k = 1"
  by (auto simp: running_def inHand_def split: phase.splits)

lemma running_unique:
  assumes "\<And>k. count (accounted s) k \<le> 1" "i < length (ruWorkers s)" "m < length (ruWorkers s)"
    "running (ruWorkers s ! i) = Some k" "running (ruWorkers s ! m) = Some k"
  shows "i = m"
proof (rule ccontr)
  assume "i \<noteq> m"
  have "count (sum_list (map inHand (ruWorkers s))) k =
      (\<Sum>n < length (ruWorkers s). count (inHand (ruWorkers s ! n)) k)"
    by (simp add: sum_list_sum_nth count_sum atLeast0LessThan)
  moreover have "(\<Sum>n \<in> {i, m}. count (inHand (ruWorkers s ! n)) k) \<le>
      (\<Sum>n < length (ruWorkers s). count (inHand (ruWorkers s ! n)) k)"
    using assms(2,3) by (intro sum_mono2) auto
  moreover have "(\<Sum>n \<in> {i, m}. count (inHand (ruWorkers s ! n)) k) = 2"
    using \<open>i \<noteq> m\<close> assms(4,5) by (simp add: running_inHand)
  ultimately have "2 \<le> count (sum_list (map inHand (ruWorkers s))) k" by simp
  with assms(1) [of k] show False by (simp add: accounted_def)
qed

text \<open>A worker that takes up a job adds it, one that is done with its job takes it away.\<close>

lemma runningIDs_started:
  assumes "ruWorkers t = (ruWorkers s)[i := w]" "i < length (ruWorkers s)" "running (ruWorkers s ! i) = None"
    and "running w = Some k"
  shows "runningIDs t = insert k (runningIDs s)"
proof -
  have "runningIDs s = {k. \<exists>m < length (ruWorkers s). m \<noteq> i \<and> running (ruWorkers s ! m) = Some k}"
    using assms(3) by (auto simp: runningIDs_def)
  then show ?thesis using runningIDs_update [OF assms(1,2)] assms(4) by auto
qed

lemma runningIDs_settled:
  assumes "ruWorkers t = (ruWorkers s)[i := w]" "i < length (ruWorkers s)" "running (ruWorkers s ! i) = Some k"
    and "running w = None"
  shows "runningIDs s - {k} \<subseteq> runningIDs t" "runningIDs t \<subseteq> runningIDs s"
    "(\<And>k. count (accounted s) k \<le> 1) \<Longrightarrow> k \<notin> runningIDs t"
proof -
  have u: "runningIDs t = {k. \<exists>m < length (ruWorkers s). m \<noteq> i \<and> running (ruWorkers s ! m) = Some k}"
    using runningIDs_update [OF assms(1,2)] assms(4) by simp
  show "runningIDs s - {k} \<subseteq> runningIDs t" by (subst u) (use assms(3) in \<open>auto simp: runningIDs_def\<close>)
  show "runningIDs t \<subseteq> runningIDs s" by (subst u) (auto simp: runningIDs_def)
  show "k \<notin> runningIDs t" if "\<And>k. count (accounted s) k \<le> 1"
    using running_unique [OF that assms(2) _ assms(3)] unfolding u by blast
qed

text \<open>An action leaves what runs alone, or starts a job, or takes one off the map.\<close>

lemma step_runningE:
  assumes "step runs cfg a s s'"
  obtains
    (same) "ruInflight s' = ruInflight s" "runningIDs s' = runningIDs s"
  | (started) k where "ruInflight s' = (ruInflight s)(k \<mapsto> ruNow s)" "runningIDs s' = insert k (runningIDs s)"
      "ruNow s' = ruNow s"
  | (settled) k where "ruInflight s' = (ruInflight s)(k := None)" "runningIDs s - {k} \<subseteq> runningIDs s'"
      "runningIDs s' \<subseteq> runningIDs s" "(\<And>k. count (accounted s) k \<le> 1) \<Longrightarrow> k \<notin> runningIDs s'"
  using assms
proof (rule stepE)
  assume p: "perform cfg a s = Some s'"
  have keep: thesis if "ruWorkers s' = (ruWorkers s)[i := w]" "i < length (ruWorkers s)"
    "running w = running (ruWorkers s ! i)" "ruInflight s' = ruInflight s" for i w
    by (rule same [OF that(4) runningIDs_same [OF that(1,2,3)]])
  show thesis using p
  proof (cases rule: performE)
    case (hand i j js)
    then show ?thesis
      by (intro keep [of i "(ruWorkers s ! i)\<lparr>wsPhase := WGot j\<rparr>"]) (auto simp: running_def)
  next
    case (see_closed i js)
    then show ?thesis
      by (intro keep [of i "(ruWorkers s ! i)\<lparr>wsPhase := WDone, wsAlive := False\<rparr>"]) (auto simp: running_def)
  next
    case (spawn_fails i e j)
    then show ?thesis
      by (intro keep [of i "(ruWorkers s ! i)\<lparr>wsPhase := WSend (verdict j ''crash'' (''spawn: '' @ e))\<rparr>"]) (auto simp: running_def)
  next
    case (spawns i j)
    then show ?thesis
      by (intro keep [of i "(ruWorkers s ! i)\<lparr>wsAlive := True, wsServed := 0\<rparr>"]) (auto simp: running_def)
  next
    case (starts i j)
    then show ?thesis by (intro started [of "jID j"] runningIDs_started) (auto simp: running_def)
  next
    case (replies i reply j)
    then show ?thesis
      by (intro keep [of i "(ruWorkers s ! i)\<lparr>wsPhase := WReplied j (fst (sendResult j reply)) (snd (sendResult j reply)),
         wsAlive := wsAlive (ruWorkers s ! i) \<and> reply \<noteq> NoAnswer\<rparr>"]) (auto simp: running_def)
  next
    case (settles i j r ok)
    then have "ruWorkers s' = (ruWorkers s)[i := settle (cgMaxJobs cfg) ok r (ruWorkers s ! i)]"
      "running (ruWorkers s ! i) = Some (jID j)" "running (settle (cgMaxJobs cfg) ok r (ruWorkers s ! i)) = None"
      by (simp_all add: running_def)
    from runningIDs_settled [OF this(1) settles(2) this(2,3)] settles show ?thesis by (intro settled [of "jID j"]) auto
  next
    case (collects i w1 w2 r)
    then show ?thesis
      by (intro keep [of i "(ruWorkers s ! i)\<lparr>wsPhase := WIdle\<rparr>"]) (auto simp: running_def)
  qed (use same in \<open>simp_all add: runningIDs_def\<close>)
qed

lemma step_inflight_sub:
  "step runs cfg a s s' \<Longrightarrow> dom (ruInflight s) \<subseteq> runningIDs s \<Longrightarrow> dom (ruInflight s') \<subseteq> runningIDs s'"
  by (erule step_runningE) auto

lemma step_inflight_exact:
  assumes "step runs cfg a s s'" "runningIDs s \<subseteq> dom (ruInflight s)" "\<And>k. count (accounted s) k \<le> 1"
  shows "runningIDs s' \<subseteq> dom (ruInflight s')"
  using assms(1)
proof (cases rule: step_runningE)
  case (settled k)
  with assms(2,3) show ?thesis by auto
qed (use assms(2) in auto)

text \<open>An entry of the map is no older than it was, or was made since.\<close>

lemma execution_inflight_times:
  "execution runs cfg s as t \<Longrightarrow>
   ruNow s \<le> ruNow t \<and> (\<forall>k v. ruInflight t k = Some v \<longrightarrow> ruInflight s k = Some v \<or> ruNow s \<le> v)"
proof (induction rule: execution.induct)
  case (extend s as t a u)
  have now: "ruNow t \<le> ruNow u" using extend.hyps(2) by (rule stepE) (erule performE; simp)
  from extend.hyps(2) show ?case
  proof (cases rule: step_runningE)
    case same
    with extend.IH now show ?thesis by auto
  next
    case (started k)
    with extend.IH now show ?thesis by auto
  next
    case (settled k)
    with extend.IH now show ?thesis by (auto split: if_splits)
  qed
qed simp

section \<open>Results and caches\<close>

definition cacheKeyOf :: "config \<Rightarrow> result \<Rightarrow> string" where
  "cacheKeyOf cfg r = (case cgKeys cfg (rID r) of None \<Rightarrow> [] | Some k \<Rightarrow> k)"

text \<open>What the collector does to the results map and to the results cache, as histories.\<close>

definition collected :: "result list \<Rightarrow> (string \<rightharpoonup> result) \<Rightarrow> string \<rightharpoonup> result" where
  "collected rs m = fold (\<lambda>r m. m(rID r \<mapsto> r)) rs m"

lemma dom_collected: "dom (collected rs m) = dom m \<union> rID ` set rs"
  by (induction rs arbitrary: m) (auto simp: collected_def)

lemma step_results:
  assumes "step runs cfg a s s'"
  obtains (other) "ruResults s' = ruResults s" "ruDone s' = ruDone s" "ruCache s' = ruCache s"
  | (collect) r w where "ruResults s' = (ruResults s)(rID r \<mapsto> r)" "ruDone s' = ruDone s @ [r]"
      "ruCache s' = map_option (Put (cgMarshal cfg) w (cacheKeyOf cfg r) r) (ruCache s)"
  using assms
proof (rule stepE)
  assume p: "perform cfg a s = Some s'"
  show thesis using p
  proof (cases rule: performE)
    case (collects i w1 w2 r)
    then show ?thesis by (intro collect [of r w1]) (simp_all add: collect_def cacheKeyOf_def)
  qed (auto intro: other)
qed

lemma execution_results:
  assumes "execution runs cfg s as t" "ruDone s = []"
  shows "ruResults t = collected (ruDone t) (ruResults s) \<and>
    (\<exists>ws. length ws = length (ruDone t) \<and>
       ruCache t = map_option (fold (\<lambda>(w, k, r). Put (cgMarshal cfg) w k r)
         (zip ws (map (\<lambda>r. (cacheKeyOf cfg r, r)) (ruDone t)))) (ruCache s))"
  using assms
proof (induction rule: execution.induct)
  case (start s)
  then show ?case by (simp add: collected_def option.map_ident)
next
  case (extend s as t a u)
  from extend.IH [OF extend.prems] obtain ws where t: "ruResults t = collected (ruDone t) (ruResults s)"
    "length ws = length (ruDone t)"
    "ruCache t = map_option (fold (\<lambda>(w, k, r). Put (cgMarshal cfg) w k r)
         (zip ws (map (\<lambda>r. (cacheKeyOf cfg r, r)) (ruDone t)))) (ruCache s)" by blast
  from extend.hyps(2) show ?case
  proof (cases rule: step_results)
    case other
    with t show ?thesis by (intro conjI exI [of _ ws]) simp_all
  next
    case (collect r w)
    with t show ?thesis
      by (intro conjI exI [of _ "ws @ [w]"]) (simp_all add: collected_def option.map_comp o_def)
  qed
qed

lemma firstRecorded_zip:
  "length ws = length rs \<Longrightarrow>
   firstRecorded key (zip ws (map (\<lambda>r. (f r, r)) rs)) =
   find (\<lambda>r. f r = key \<and> \<not> volatileStatus (rStatus r)) rs"
proof (induction rs arbitrary: ws)
  case (Cons r rs)
  then show ?case by (cases ws) auto
qed simp

text \<open>The prologue: every job is answered from the cache or left to do.\<close>

lemma planJob_dom:
  "dom (plResults (planJob sha c v j p)) \<union> jID ` set (plTodo (planJob sha c v j p)) =
   insert (jID j) (dom (plResults p) \<union> jID ` set (plTodo p))"
  by (auto simp: planJob_def Let_def split: option.splits)

lemma planJobs_dom: "dom (plResults (planJobs sha c v jobs)) \<union> jID ` set (plTodo (planJobs sha c v jobs)) = jID ` set jobs"
proof -
  have "dom (plResults (fold (planJob sha c v) jobs p)) \<union> jID ` set (plTodo (fold (planJob sha c v) jobs p)) =
      dom (plResults p) \<union> jID ` set (plTodo p) \<union> jID ` set jobs" for p
  proof (induction jobs arbitrary: p)
    case (Cons j jobs)
    show ?case using Cons.IH [of "planJob sha c v j p"] planJob_dom [of sha c v j p] by auto
  qed simp
  from this [of "\<lparr>plResults = Map.empty, plKeys = Map.empty, plTodo = []\<rparr>"] show ?thesis
    by (simp add: planJobs_def)
qed

lemma planJobs_todo_filter:
  "plTodo (planJobs sha c v jobs) =
     filter (\<lambda>j. case c of None \<Rightarrow> True | Some c \<Rightarrow> Get c (JobKey sha j v) (jID j) = None) jobs"
proof -
  have "plTodo (fold (planJob sha c v) jobs p) = plTodo p @
      filter (\<lambda>j. case c of None \<Rightarrow> True | Some c \<Rightarrow> Get c (JobKey sha j v) (jID j) = None) jobs" for p
    by (induction jobs arbitrary: p) (auto simp: planJob_def Let_def split: option.splits)
  then show ?thesis by (simp add: planJobs_def)
qed

lemma planJobs_todo: "\<exists>P. plTodo (planJobs sha c v jobs) = filter P jobs"
  using planJobs_todo_filter by blast

lemma planJobs_keys:
  assumes "distinct (map jID jobs)" "j \<in> set jobs"
  shows "plKeys (planJobs sha (Some c) v jobs) (jID j) = Some (JobKey sha j v)"
proof -
  have step: "plKeys (planJob sha (Some c) v i p) = (plKeys p)(jID i \<mapsto> JobKey sha i v)" for i p
    by (simp add: planJob_def Let_def split: option.split)
  have other: "jID j \<notin> jID ` set js \<Longrightarrow> plKeys (fold (planJob sha (Some c) v) js p) (jID j) = plKeys p (jID j)" for js p
    by (induction js arbitrary: p) (simp_all add: step)
  from assms(2) obtain js ks where "jobs = js @ j # ks" by (meson split_list)
  with assms(1) other [of ks] show ?thesis by (simp add: planJobs_def step)
qed

text \<open>A run that returns without an interrupt has a result for each of its jobs.\<close>

lemma returned_covers:
  assumes "p = planJobs sha cache v jobs"
    and "execution (workerRuns sha root rt) cfg (startRun cfg p st tst) as t" "returned t" "\<not> ruAborted t"
  shows "mset (map rID (ruDone t)) = mset (map jID (plTodo p))" "dom (ruResults t) = jID ` set jobs"
proof -
  from aot.returned_accounted [OF assms(2,3)] assms(4)
  show m: "mset (map rID (ruDone t)) = mset (map jID (plTodo p))" by simp
  then have "rID ` set (ruDone t) = jID ` set (plTodo p)" by (metis image_set mset_eq_setD)
  moreover have "ruResults t = collected (ruDone t) (plResults p)"
    using execution_results [OF assms(2)] by simp
  ultimately show "dom (ruResults t) = jID ` set jobs"
    using planJobs_dom [of sha cache v jobs] by (simp add: dom_collected assms(1))
qed

text \<open>What the results cache answers after a run.\<close>

lemma cache_after_run:
  assumes "execution (workerRuns sha root rt) cfg (startRun cfg p (Some st) tst) as t" "ruCache t = Some st'"
  shows "Get (fst st') key jid =
    (case Get (fst st) key jid of
       Some r \<Rightarrow> Some r
     | None \<Rightarrow> map_option (rebind jid)
         (find (\<lambda>r. cacheKeyOf cfg r = key \<and> \<not> volatileStatus (rStatus r)) (ruDone t)))"
proof -
  from execution_results [OF assms(1)] assms(2) obtain ws where w: "length ws = length (ruDone t)"
    "st' = fold (\<lambda>(w, k, r). Put (cgMarshal cfg) w k r) (zip ws (map (\<lambda>r. (cacheKeyOf cfg r, r)) (ruDone t))) st"
    by auto
  let ?hist = "zip ws (map (\<lambda>r. (cacheKeyOf cfg r, r)) (ruDone t))"
  show ?thesis
  proof (cases "Get (fst st) key jid")
    case None
    with store.history_first [OF None, of "cgMarshal cfg" ?hist] firstRecorded_zip [OF w(1), of key "cacheKeyOf cfg"]
    show ?thesis by (simp add: w(2))
  next
    case (Some r)
    with store.history_keeps [OF Some, of "cgMarshal cfg" ?hist] show ?thesis by (simp add: w(2))
  qed
qed

text \<open>As long as the stream's writes are whole, disk and memory stay in step, at every moment.\<close>

definition wholeWrite :: "action \<Rightarrow> bool" where
  "wholeWrite a \<longleftrightarrow> (case a of Collects i w1 w2 \<Rightarrow> w1 = WroteAll | _ \<Rightarrow> True)"

definition carriedResults :: "config \<Rightarrow> (string \<Rightarrow> cacheEntry option) \<Rightarrow> result list \<Rightarrow> bool" where
  "carriedResults cfg unmarshal rs \<longleftrightarrow>
     list_all (\<lambda>r. volatileStatus (rStatus r) \<or> carried (cgMarshal cfg) unmarshal (entryOf (cacheKeyOf cfg r) r)) rs"

lemma execution_onDisk:
  assumes "execution runs cfg s as t" "list_all wholeWrite as" "ruCache s = Some st" "onDisk unmarshal st"
    and "carriedResults cfg unmarshal (ruDone t)"
  shows "\<exists>st'. ruCache t = Some st' \<and> onDisk unmarshal st' \<and> ccPath (fst st') = ccPath (fst st)"
  using assms
proof (induction rule: execution.induct)
  case (extend s as t a u)
  from extend.hyps(2) obtain p: "perform cfg a t = Some u" by (rule stepE)
  show ?case using p
  proof (cases rule: performE)
    case (collects i w1 w2 r)
    with extend.prems(1) have w: "w1 = WroteAll" by (simp add: wholeWrite_def)
    from extend.prems(4) have r: "volatileStatus (rStatus r) \<or> carried (cgMarshal cfg) unmarshal (entryOf (cacheKeyOf cfg r) r)"
      and rest: "carriedResults cfg unmarshal (ruDone t)" by (simp_all add: carriedResults_def collects)
    from extend.IH [OF _ extend.prems(2,3) rest] extend.prems(1) obtain st' where
      st': "ruCache t = Some st'" "onDisk unmarshal st'" "ccPath (fst st') = ccPath (fst st)" by auto
    have "onDisk unmarshal (Put (cgMarshal cfg) WroteAll (cacheKeyOf cfg r) r st')"
    proof (cases "volatileStatus (rStatus r)")
      case True
      then have "Put (cgMarshal cfg) WroteAll (cacheKeyOf cfg r) r st' = st'" by (simp add: Put_def split: prod.split)
      with st'(2) show ?thesis by simp
    next
      case False
      with r st'(2) show ?thesis by (auto intro: Put_onDisk)
    qed
    with st'(1,3) show ?thesis by (simp add: collects collect_def w cacheKeyOf_def)
  qed (use extend in auto)
qed simp

section \<open>The whole of RunAll\<close>

lemma execution_streams:
  "execution runs cfg s as t \<Longrightarrow> (ruCache t = None) = (ruCache s = None) \<and> (ruTail t = None) = (ruTail s = None)"
proof (erule execution_invariant [where P = "\<lambda>t. (ruCache t = None) = (ruCache s = None) \<and> (ruTail t = None) = (ruTail s = None)"])
  fix a t u assume st: "step runs cfg a t u" and P: "(ruCache t = None) = (ruCache s = None) \<and> (ruTail t = None) = (ruTail s = None)"
  have "(ruCache u = None) = (ruCache t = None) \<and> (ruTail u = None) = (ruTail t = None)"
    using st by (elim stepE performE) (simp_all add: collect_def)
  with P show "(ruCache u = None) = (ruCache s = None) \<and> (ruTail u = None) = (ruTail s = None)" by simp
qed simp

lemma RunAll_streams: "RunAll runs cfg p st tst t \<Longrightarrow> (ruCache t = None) = (st = None) \<and> (ruTail t = None) = (tst = None)"
  by (erule RunAllE) (auto dest: execution_streams)

lemma RunAll_returns: "\<exists>t. RunAll runs cfg p st tst t"
proof (cases "plTodo p = []")
  case True
  then show ?thesis by (blast intro: RunAll.nothing_to_do)
next
  case False
  have "ruWorkers (startRun cfg p st tst) \<noteq> []" using poolSize_pos [of "cgWorkers cfg"] by (auto simp: startRun_def)
  from execution_finishes [OF startRun_good(1) this] False show ?thesis by (blast intro: RunAll.finished)
qed

lemma RunAll_results: "RunAll runs cfg p st tst t \<Longrightarrow> ruResults t = collected (ruDone t) (plResults p)"
  by (erule RunAllE) (auto simp: collected_def dest: execution_results)

lemma finite_planned: "finite (dom (plResults (planJobs sha c v jobs)))"
  using planJobs_dom [of sha c v jobs] by (metis finite_Un finite_imageI finite_set)

lemma RunAll_covers:
  assumes "RunAll (workerRuns sha root rt) cfg p st tst t" "p = planJobs sha cache v jobs" "\<not> ruAborted t"
  shows "dom (ruResults t) = jID ` set jobs"
  using assms(1)
proof (cases rule: RunAll.cases)
  case (nothing_to_do ab)
  with planJobs_dom [of sha cache v jobs] show ?thesis by (simp add: assms(2))
next
  case (finished as)
  with returned_covers(2) [OF assms(2)] assms(3) show ?thesis by blast
qed

text \<open>A concrete execution, action by action.\<close>

fun performAll :: "config \<Rightarrow> action list \<Rightarrow> run \<Rightarrow> run option" where
  "performAll cfg [] s = Some s"
| "performAll cfg (a # as) s = Option.bind (perform cfg a s) (performAll cfg as)"

fun noAnswers :: "action list \<Rightarrow> bool" where
  "noAnswers [] = True"
| "noAnswers (a # as) = ((case a of Replies i (Answers r) \<Rightarrow> False | _ \<Rightarrow> True) \<and> noAnswers as)"

lemma execution_performAll:
  "performAll cfg as s = Some t \<Longrightarrow> noAnswers as \<Longrightarrow> execution runs cfg s as t"
proof (induction as arbitrary: s)
  case (Cons a as)
  from Cons.prems(1) obtain u where u: "perform cfg a s = Some u" "performAll cfg as u = Some t"
    by (cases "perform cfg a s") auto
  have "answerOf runs a s" using Cons.prems(2) by (cases a rule: action.exhaust) (auto split: reply.splits elim: answerOf.elims)
  with u(1) have st: "step runs cfg a s u" by (intro step.step)
  have "execution runs cfg s ([] @ [a]) u" by (rule execution.extend [OF execution.start st])
  with Cons.IH [OF u(2)] Cons.prems(2) execution_append [of runs cfg u as t s "[a]"] show ?case by simp
qed (simp add: execution.start)

section \<open>A small run\<close>

text \<open>One worker, one job, no cache, and a process that never answers.\<close>

definition soloConfig :: config where
  "soloConfig = \<lparr>cgWorkers = 1, cgMaxJobs = 1, cgAbortable = True, cgKeys = Map.empty, cgMarshal = (\<lambda>_. None)\<rparr>"

definition soloActions :: "action list" where
  "soloActions = [Hand 0, Spawns 0, Starts 0, Tick, Replies 0 NoAnswer, Settles 0, Collects 0 WroteAll WroteAll,
     CloseJobs, SeeClosed 0, CloseResults]"

definition soloPlan :: plan where
  "soloPlan = planJobs (\<lambda>s. s) None ''v'' [exampleJob]"

definition soloEnd :: run where
  "soloEnd =
     \<lparr>ruFeeder = ResClosed [], ruWorkers = [\<lparr>wsPhase = WDone, wsAlive = False, wsServed = 0\<rparr>],
      ruInflight = (\<lambda>_. None), ruNow = 1, ruAborted = False,
      ruResults = [''a.js#strict'' \<mapsto> \<lparr>rID = ''a.js#strict'', rStatus = ''timeout'', rError = [], rTailKey = []\<rparr>],
      ruDone = [\<lparr>rID = ''a.js#strict'', rStatus = ''timeout'', rError = [], rTailKey = []\<rparr>],
      ruCache = None, ruTail = None\<rparr>"

lemma solo_execution:
  "execution runs soloConfig (startRun soloConfig soloPlan None None) soloActions soloEnd"
proof (rule execution_performAll)
  show "noAnswers soloActions" by (simp add: soloActions_def)
  show "performAll soloConfig soloActions (startRun soloConfig soloPlan None None) = Some soloEnd"
    by (simp add: soloActions_def soloConfig_def soloPlan_def soloEnd_def startRun_def poolSize_def planJobs_def
        planJob_def onWorker_def setWorker_def settle_def collect_def verdict_def exampleJob_def)
qed

lemma solo_returned: "returned soloEnd"
  by (simp add: returned_def soloEnd_def)

text \<open>With distinct IDs, what runs is in the map.\<close>

lemma running_in_flight:
  assumes "execution (workerRuns sha root rt) cfg (startRun cfg p st tst) as t"
    and "distinct (map jID (plTodo p))"
  shows "runningIDs t \<subseteq> dom (ruInflight t)"
proof -
  have c: "count (mset (map jID (plTodo p))) k \<le> 1" for k
    using assms(2) by (metis distinct_count_atmost_1 le_numeral_extra(4) zero_le_one)
  let ?P = "\<lambda>s. list_all (goodWorker cfg) (ruWorkers s) \<and> accounted s = mset (map jID (plTodo p)) \<and>
      runningIDs s \<subseteq> dom (ruInflight s)"
  have "running w = None" if "w \<in> set (ruWorkers (startRun cfg p st tst))" for w
    using startRun_workers [OF that] by (simp add: running_def)
  from this [OF nth_mem] have "runningIDs (startRun cfg p st tst) = {}" by (simp add: runningIDs_def)
  with startRun_good(2,3) have start: "?P (startRun cfg p st tst)" by simp
  have "?P t"
  proof (rule execution_invariant [where P = ?P, OF assms(1)])
    show "?P (startRun cfg p st tst)" by (rule start)
  next
    fix a s s'
    assume st: "step (workerRuns sha root rt) cfg a s s'" and P: "?P s"
    then have "list_all (goodWorker cfg) (ruWorkers s')" "accounted s' = mset (map jID (plTodo p))"
      using aot.step_goodWorker [OF st] aot.step_accounted [OF st] by simp_all
    moreover have "runningIDs s' \<subseteq> dom (ruInflight s')"
      by (rule step_inflight_exact [OF st]) (use P c in auto)
    ultimately show "?P s'" by blast
  qed
  then show "runningIDs t \<subseteq> dom (ruInflight t)" by blast
qed

lemma in_flight_runs:
  assumes "execution runs cfg (startRun cfg p st tst) as t"
  shows "dom (ruInflight t) \<subseteq> runningIDs t"
  by (rule execution_invariant [OF assms, where P = "\<lambda>s. dom (ruInflight s) \<subseteq> runningIDs s"])
    (auto dest: step_inflight_sub)

section \<open>Properties of a run\<close>

text \<open>C5. Every job is answered exactly once: whatever the interleaving, and whether workers die, refuse
  input, cannot be spawned or do not answer, a run that returns without having been interrupted
  has received one result for each job it had to do, and its results cover exactly the jobs.\<close>

theorem every_job_answered:
  assumes "p = planJobs sha cache v jobs"
    and "execution (workerRuns sha root rt) cfg (startRun cfg p st tst) as t" "returned t" "\<not> ruAborted t"
  shows "mset (map rID (ruDone t)) = mset (map jID (plTodo p)) \<and> dom (ruResults t) = jID ` set jobs"
  using returned_covers [OF assms] by (rule conjI)

theorem every_job_answered_witness:
  "mset (map rID (ruDone soloEnd)) = mset (map jID (plTodo soloPlan)) \<and>
   dom (ruResults soloEnd) = jID ` set [exampleJob]"
proof (rule every_job_answered [OF soloPlan_def solo_execution solo_returned])
  show "\<not> ruAborted soloEnd" by (simp add: soloEnd_def)
qed

text \<open>An interrupt loses no finished work: when a run returns, interrupted or not, the jobs it did not
  answer are exactly those it never handed to a worker, and only an interrupt leaves any.\<close>

theorem interrupt_keeps_results:
  assumes "execution (workerRuns sha root rt) cfg (startRun cfg p st tst) as t" "returned t"
  shows "mset (map rID (ruDone t)) + mset (map jID (unsent (ruFeeder t))) = mset (map jID (plTodo p)) \<and>
    (unsent (ruFeeder t) = [] \<or> ruAborted t) \<and>
    rID ` set (ruDone t) \<subseteq> dom (ruResults t)"
  using aot.returned_accounted [OF assms] execution_results [OF assms(1)] by (simp add: dom_collected)

theorem interrupt_keeps_results_witness:
  "mset (map rID (ruDone soloEnd)) + mset (map jID (unsent (ruFeeder soloEnd))) = mset (map jID (plTodo soloPlan))"
  using interrupt_keeps_results [OF solo_execution solo_returned] by (rule conjunct1)

text \<open>C6. A run cannot get stuck and cannot go on forever: from every state it can reach it can still
  return, and all its executions together take at most six actions for each job, and a few for
  closing down, besides the passing of time. (The writes to a worker's input end: see \<open>Orchestrator\<close>.)\<close>

theorem run_terminates:
  assumes "execution (workerRuns sha root rt) cfg (startRun cfg p st tst) as t"
  shows "(\<exists>bs u. execution (workerRuns sha root rt) cfg t bs u \<and> returned u) \<and>
    length (filter (\<lambda>a. a \<noteq> Tick) as) \<le> 6 * length (plTodo p) + poolSize (cgWorkers cfg) + 3 \<and>
    (\<not> returned t \<longrightarrow> (\<exists>a u. a \<noteq> Tick \<and> step (workerRuns sha root rt) cfg a t u))"
proof -
  note g = aot.run_good [OF assms]
  have "sum_list (map (\<lambda>w. phaseWeight (wsPhase w) (wsAlive w))
      (replicate n \<lparr>wsPhase = WIdle, wsAlive = False, wsServed = 0\<rparr>)) = n" for n
    by (induction n) simp_all
  then have "workLeft (startRun cfg p st tst) = 6 * length (plTodo p) + poolSize (cgWorkers cfg) + 3"
    by (simp add: workLeft_def) (simp add: startRun_def)
  with execution_bound [OF assms]
  have "length (filter (\<lambda>a. a \<noteq> Tick) as) \<le> 6 * length (plTodo p) + poolSize (cgWorkers cfg) + 3" by simp
  moreover have "\<exists>bs u. execution (workerRuns sha root rt) cfg t bs u \<and> returned u"
    using execution_finishes [OF g(1,4), of "workerRuns sha root rt" cfg] by blast
  moreover have "\<not> returned t \<Longrightarrow> \<exists>a u. a \<noteq> Tick \<and> step (workerRuns sha root rt) cfg a t u"
    using progress [OF g(1,4), of "workerRuns sha root rt" cfg] by blast
  ultimately show ?thesis by blast
qed

theorem run_terminates_witness:
  "\<exists>bs u. execution (workerRuns (\<lambda>s. s) ''/m'' ''rt'') soloConfig soloEnd bs u \<and> returned u"
  using run_terminates [OF solo_execution] by (rule conjunct1)

text \<open>Nothing outlives a run: when it returns every worker process has been killed and nothing is in
  flight, so the report of jobs still running that follows can never name one.\<close>

theorem nothing_left_running:
  assumes "execution (workerRuns sha root rt) cfg (startRun cfg p st tst) as t" "returned t"
    and "set visited = {(k, v). ruInflight t k = Some v}"
  shows "list_all (\<lambda>w. wsPhase w = WDone \<and> \<not> wsAlive w) (ruWorkers t) \<and> stillRunning visited = []"
proof -
  have d: "list_all (\<lambda>w. wsPhase w = WDone \<and> \<not> wsAlive w) (ruWorkers t)"
    by (rule aot.returned_accounted [OF assms(1,2)])
  then have "runningIDs t = {}" by (auto simp: runningIDs_def running_def list_all_length)
  moreover have "dom (ruInflight t) \<subseteq> runningIDs t" by (rule in_flight_runs [OF assms(1)])
  ultimately have "visited = []" using assms(3) by auto
  with d show ?thesis by (simp add: stillRunning_def)
qed

theorem nothing_left_running_witness:
  "list_all (\<lambda>w. wsPhase w = WDone \<and> \<not> wsAlive w) (ruWorkers soloEnd) \<and> stillRunning [] = []"
  by (rule nothing_left_running [OF solo_execution solo_returned]) (simp add: soloEnd_def)

text \<open>C24. A worker process is recycled in time: with a positive limit, no live process has served that many
  jobs, in any reachable state.\<close>

theorem recycled_in_time:
  assumes "execution (workerRuns sha root rt) cfg (startRun cfg p st tst) as t" "0 < cgMaxJobs cfg"
  shows "list_all (\<lambda>w. \<not> wsAlive w \<or> int (wsServed w) < cgMaxJobs cfg) (ruWorkers t)"
  using aot.run_good(2) [OF assms(1)] assms(2) by (auto simp: list_all_iff goodWorker_def)

theorem recycled_in_time_witness:
  "list_all (\<lambda>w. \<not> wsAlive w \<or> int (wsServed w) < cgMaxJobs soloConfig) (ruWorkers soloEnd)"
  by (rule recycled_in_time [OF solo_execution]) (simp add: soloConfig_def)

text \<open>C12. What the results cache holds after a run: under a key, what it held before, else the first
  result collected for that key that is neither a timeout nor a crash; so a rerun replays what
  finished and retries what a machine may have caused.\<close>

theorem run_caches_results:
  assumes "execution (workerRuns sha root rt) cfg (startRun cfg p (Some st) tst) as t" "ruCache t = Some st'"
  shows "Get (fst st') key jid =
    (case Get (fst st) key jid of
       Some r \<Rightarrow> Some r
     | None \<Rightarrow> map_option (rebind jid)
         (find (\<lambda>r. cacheKeyOf cfg r = key \<and> \<not> volatileStatus (rStatus r)) (ruDone t)))"
  using assms by (rule cache_after_run)

definition soloCached :: run where
  "soloCached = soloEnd\<lparr>ruCache := Some (emptyCache ''c'', [])\<rparr>"

lemma soloCached_execution:
  "execution runs soloConfig (startRun soloConfig soloPlan (Some (emptyCache ''c'', [])) None) soloActions soloCached"
proof (rule execution_performAll)
  show "noAnswers soloActions" by (simp add: soloActions_def)
  show "performAll soloConfig soloActions (startRun soloConfig soloPlan (Some (emptyCache ''c'', [])) None) = Some soloCached"
    by (simp add: soloActions_def soloConfig_def soloPlan_def soloEnd_def soloCached_def startRun_def poolSize_def
        planJobs_def planJob_def onWorker_def setWorker_def settle_def collect_def verdict_def exampleJob_def
        Put_def volatileStatus_def)
qed

theorem run_caches_results_witness:
  "Get (emptyCache ''c'') ''k'' ''a.js#strict'' =
    (case Get (fst (emptyCache ''c'', [] :: filesystem)) ''k'' ''a.js#strict'' of
       Some r \<Rightarrow> Some r
     | None \<Rightarrow> map_option (rebind ''a.js#strict'')
         (find (\<lambda>r. cacheKeyOf soloConfig r = ''k'' \<and> \<not> volatileStatus (rStatus r)) (ruDone soloCached)))"
  using run_caches_results [OF soloCached_execution, of "(emptyCache ''c'', [])" "''k''" "''a.js#strict''"]
  by (simp only: fst_conv) (simp add: soloCached_def)

text \<open>C23. The in-flight map is exact while jobs run, as long as their IDs are distinct: it holds the ID of
  a job exactly when some worker is executing it.\<close>

theorem inflight_exact:
  assumes "execution (workerRuns sha root rt) cfg (startRun cfg p st tst) as t"
    and "distinct (map jID (plTodo p))"
  shows "dom (ruInflight t) = runningIDs t"
  using running_in_flight [OF assms] in_flight_runs [OF assms(1)] by blast

theorem inflight_exact_witness: "dom (ruInflight soloEnd) = runningIDs soloEnd"
  by (rule inflight_exact [OF solo_execution]) (simp add: soloPlan_def planJobs_def planJob_def)

end
