(* ===== verification/JanitorFacts.thy ===== *)
theory JanitorFacts
  imports Janitor OrchestratorFacts
begin

text \<open>
  What the janitor may remove and what it leaves: only entry files of the Go build cache, never the
  baseline, the coldest first and no more than needed, and nothing that a running job has written.
\<close>

section \<open>Paths\<close>

lemma dirPath_plain: "plainComp f \<Longrightarrow> dirPath f = ''.''"
proof -
  assume "plainComp f"
  then have d: "dropWhile (\<lambda>c. c \<noteq> SLASH) (rev f) = []" by (auto simp: plainComp_def dropWhile_eq_Nil_conv)
  show ?thesis unfolding dirPath_def d by code_simp
qed

lemma dirPath_dot: "dirPath ''.'' = ''.''"
  by code_simp

lemma Join_snoc: "cs \<noteq> [] \<Longrightarrow> Join (cs @ [f]) [SLASH] = Join cs [SLASH] @ SLASH # f"
  by (induction cs "[SLASH]" rule: Join.induct) auto

lemma dirPath_Join:
  assumes "cs \<noteq> []" "\<forall>c \<in> set (cs @ [f]). plainComp c"
  shows "dirPath (Join (cs @ [f]) [SLASH]) = Join cs [SLASH]"
proof -
  have f: "\<forall>c \<in> set f. c \<noteq> SLASH" using assms(2) by (auto simp: plainComp_def)
  have "dropWhile (\<lambda>c. c \<noteq> SLASH) (rev f @ SLASH # rev (Join cs [SLASH])) = SLASH # rev (Join cs [SLASH])"
    using f by (subst dropWhile_append2) auto
  then have d: "dirPath (Join (cs @ [f]) [SLASH]) = cleanPath (Join cs [SLASH] @ [SLASH])"
    by (simp add: dirPath_def Join_snoc [OF assms(1)])
  have nr: "\<not> rootedPath (Join cs [SLASH])" using not_rooted_plain [of cs] assms by simp
  have ne: "Join cs [SLASH] \<noteq> []" using assms by (cases cs rule: remdups_adj.cases) (auto simp: plainComp_def)
  then have r: "rootedPath (Join cs [SLASH] @ [SLASH]) = rootedPath (Join cs [SLASH])"
    by (cases "Join cs [SLASH]") (auto simp: rootedPath_def HasPrefix_def)
  have s: "splitOn SLASH (Join cs [SLASH] @ [SLASH]) = cs @ [[]]"
    using splitOn_sep [of SLASH "Join cs [SLASH]" "[]"] Join_comps [of cs] assms by (auto simp: plainComp_def)
  have "cleanComps b acc (cs @ [[]]) = rev acc @ cs" for b acc
    using assms(2) by (induction cs arbitrary: acc) (auto simp: plainComp_def)
  then have "pathComps (Join cs [SLASH] @ [SLASH]) = cs" by (simp add: pathComps_def s)
  with nr r ne show ?thesis by (simp add: d cleanPath_def)
qed

lemma isHexByte_plain: "isHexByte d \<Longrightarrow> plainComp d"
  by (cases d rule: remdups_adj.cases) (auto simp: isHexByte_def hexDigit_def plainComp_def split: if_splits)

section \<open>Sums\<close>

abbreviation sizeSum :: "cacheItem list \<Rightarrow> nat" where
  "sizeSum is \<equiv> sum_list (map (\<lambda>i. unat (ciSize i)) is)"

lemma totalSize_unat: "sizeSum is < 2 ^ 64 \<Longrightarrow> unat (totalSize is) = sizeSum is"
proof -
  have "unat acc + sizeSum is < 2 ^ 64 \<Longrightarrow> unat (fold (\<lambda>i t. t + ciSize i) is acc) = unat acc + sizeSum is" for acc
  proof (induction "is" arbitrary: acc)
    case (Cons i "is")
    then have "unat (acc + ciSize i) = unat acc + unat (ciSize i)" by (subst unat_add_lem [symmetric]) simp
    with Cons show ?case by simp
  qed simp
  from this [of 0] show "sizeSum is < 2 ^ 64 \<Longrightarrow> unat (totalSize is) = sizeSum is" by (simp add: totalSize_def)
qed

lemma cacheItems_entries:
  "cacheItems dir items = Inr is \<Longrightarrow> i \<in> set is \<Longrightarrow>
   isCacheEntry dir (ciPath i) \<and> AFile (ciPath i) (Info (ciSize i) (ciModTime i)) \<in> set items"
  by (induction items arbitrary: "is")
    (auto simp: Let_def split: walk_item.splits if_splits file_info.splits sum.splits)

lemma ordering_older: "ordering_less olderItem"
  unfolding olderItem_def by (rule ordering_key)

lemma trimLoop_spec:
  assumes "\<forall>i \<in> set is. remove (ciPath i) \<noteq> RemoveGone" "unat reclaimed + sizeSum is = unat tot"
    and "trimLoop remove target tot reclaimed is = (r, None, gone)"
  shows "\<exists>k. gone = take k is \<and> unat r = unat reclaimed + sizeSum gone \<and> unat tot - unat r \<le> unat target \<and>
    (gone \<noteq> [] \<longrightarrow> unat target < unat tot - (unat reclaimed + sizeSum (butlast gone)))"
  using assms
proof (induction "is" arbitrary: reclaimed gone)
  case Nil
  then show ?case by simp
next
  case (Cons i "is")
  have le: "reclaimed \<le> tot" using Cons.prems(2) by (simp add: word_le_nat_alt)
  show ?case
  proof (cases "tot - reclaimed \<le> target")
    case True
    with Cons.prems(3) le show ?thesis by (intro exI [of _ 0]) (simp add: word_le_nat_alt unat_sub)
  next
    case False
    with Cons.prems(1,3) obtain gone' where g: "remove (ciPath i) = Removed" "gone = i # gone'"
      "trimLoop remove target tot (reclaimed + ciSize i) is = (r, None, gone')"
      by (cases "remove (ciPath i)") (auto split: prod.splits)
    have "unat tot < 2 ^ LENGTH(64)" by (rule unsigned_less)
    then have "unat reclaimed + unat (ciSize i) < 2 ^ 64" using Cons.prems(2) by simp
    then have u: "unat (reclaimed + ciSize i) = unat reclaimed + unat (ciSize i)"
      by (subst unat_add_lem [symmetric]) simp
    have "\<forall>i \<in> set is. remove (ciPath i) \<noteq> RemoveGone" using Cons.prems(1) by simp
    moreover have "unat (reclaimed + ciSize i) + sizeSum is = unat tot" using Cons.prems(2) u by simp
    ultimately have "\<exists>k. gone' = take k is \<and> unat r = unat (reclaimed + ciSize i) + sizeSum gone' \<and>
        unat tot - unat r \<le> unat target \<and>
        (gone' \<noteq> [] \<longrightarrow> unat target < unat tot - (unat (reclaimed + ciSize i) + sizeSum (butlast gone')))"
      using g(3) by (rule Cons.IH)
    then obtain k where k: "gone' = take k is"
      "unat r = unat (reclaimed + ciSize i) + sizeSum gone'" "unat tot - unat r \<le> unat target"
      "gone' \<noteq> [] \<longrightarrow> unat target < unat tot - (unat (reclaimed + ciSize i) + sizeSum (butlast gone'))" by blast
    have "unat target < unat tot - unat reclaimed" using False le by (simp add: word_le_nat_alt unat_sub)
    then have "unat target < unat tot - (unat reclaimed + sizeSum (butlast gone))"
      using k(4) u g(2) by (cases "gone' = []") (simp_all add: add.assoc)
    with k(1-3) u g(2) show ?thesis by (intro exI [of _ "Suc k"]) simp
  qed
qed

section \<open>Sweeps\<close>

lemma pinWalk_gone:
  "pinWalk remove dir baseline cutoff reclaimed items = (r, err, gone) \<Longrightarrow> i \<in> set gone \<Longrightarrow>
   isCacheEntry dir (ciPath i) \<and> ciPath i \<notin> baseline \<and> ciModTime i < cutoff \<and>
   AFile (ciPath i) (Info (ciSize i) (ciModTime i)) \<in> set items"
  by (induction items arbitrary: reclaimed r err gone)
    (fastforce simp: Let_def split: walk_item.splits if_splits file_info.splits remove_outcome.splits prod.splits)+

lemma pinWalk_all:
  assumes "pinWalk remove dir baseline cutoff reclaimed items = (r, None, gone)"
    "AFile p (Info sz t) \<in> set items" "isCacheEntry dir p" "p \<notin> baseline" "t < cutoff" "remove p = Removed"
  shows "\<lparr>ciPath = p, ciSize = sz, ciModTime = t\<rparr> \<in> set gone"
  using assms
  by (induction items arbitrary: reclaimed r gone)
    (auto simp: Let_def split: walk_item.splits if_splits file_info.splits remove_outcome.splits prod.splits)

lemma oldestInflight_le:
  "(k, t) \<in> set visited \<Longrightarrow> \<exists>m. oldestInflight visited = Some m \<and> m \<le> t"
proof -
  let ?f = "\<lambda>(k, t) oldest. case oldest of None \<Rightarrow> Some t | Some o' \<Rightarrow> if t < o' then Some t else Some o'"
  have keep: "\<exists>m'. fold ?f vs (Some m) = Some m' \<and> m' \<le> m" for vs :: "(string \<times> nat) list" and m
  proof (induction vs arbitrary: m)
    case (Cons x vs)
    obtain k t where x: "x = (k, t)" by fastforce
    from Cons.IH [of t] Cons.IH [of m] show ?case by (auto simp: x)
  qed simp
  have "(k, t) \<in> set vs \<Longrightarrow> \<exists>m. fold ?f vs start = Some m \<and> m \<le> t" for vs start
  proof (induction vs arbitrary: start)
    case (Cons x vs)
    obtain k' t' where x: "x = (k', t')" by fastforce
    show ?case
    proof (cases "x = (k, t)")
      case True
      have "\<exists>m. ?f x start = Some m \<and> m \<le> t" unfolding True by (cases start) auto
      then obtain m where "?f x start = Some m" "m \<le> t" by blast
      with keep [of vs m] show ?thesis by (auto simp del: split_paired_All)
    next
      case False
      with Cons show ?thesis by simp
    qed
  qed simp
  then show "(k, t) \<in> set visited \<Longrightarrow> \<exists>m. oldestInflight visited = Some m \<and> m \<le> t"
    by (simp add: oldestInflight_def)
qed

section \<open>The files of a cache\<close>

lemma walkOf_simps [simp]: "walkOf [] = []" "walkOf ((p, sz, t) # files) = AFile p (Info sz t) # walkOf files"
  by (simp_all add: walkOf_def)

lemma Snapshot_walkOf:
  "SnapshotCacheEntries dir (walkOf files) = Inr {p \<in> fst ` set files. isCacheEntry dir p}"
  by (induction files) (auto simp: Let_def)

lemma pinWalk_walkOf:
  "(\<And>p. remove p = Removed) \<Longrightarrow> fst (snd (pinWalk remove dir baseline cutoff reclaimed (walkOf files))) = None"
  by (induction files arbitrary: reclaimed) (auto simp: case_prod_beta' Let_def)

lemma walkOf_AFile: "AFile p (Info sz t) \<in> set (walkOf files) \<longleftrightarrow> (p, sz, t) \<in> set files"
  by (force simp: walkOf_def)

lemma afterEvent_baseline:
  assumes "baseline \<subseteq> fst ` set files"
  shows "baseline \<subseteq> fst ` set (afterEvent dir baseline ev files)"
proof
  fix q assume q: "q \<in> baseline"
  with assms obtain x where x: "x \<in> set files" "fst x = q" by blast
  show "q \<in> fst ` set (afterEvent dir baseline ev files)"
  proof (cases ev)
    case (Wrote p sz t)
    with x show ?thesis by (cases "q = p") (auto intro!: image_eqI [of q fst x])
  next
    case (Swept b)
    obtain r err gone where g: "pinSweep dir baseline b (walkOf files) = (r, err, gone)"
      by (cases "pinSweep dir baseline b (walkOf files)")
    then have "q \<notin> ciPath ` set gone"
      using pinWalk_gone [OF g [unfolded pinSweep_def pinToBaseline_def]] q by blast
    with x have "x \<in> set (afterEvent dir baseline ev files)" by (auto simp: Swept g)
    with x(2) show ?thesis by blast
  qed
qed

lemma afterEvents_baseline:
  "baseline \<subseteq> fst ` set files \<Longrightarrow> baseline \<subseteq> fst ` set (fold (afterEvent dir baseline) evs files)"
  by (induction evs arbitrary: files) (simp_all add: afterEvent_baseline)

section \<open>Properties\<close>

text \<open>An entry file of the build cache is a file exactly one directory below its root, in a directory
  named by two lowercase hex digits: the bookkeeping files at the root and deeper trees never are.\<close>

theorem cache_entry_shape:
  assumes "rs \<noteq> []" "ps \<noteq> []" "list_all plainComp (rs @ ps)"
  shows "isCacheEntry (SLASH # Join rs [SLASH]) (SLASH # Join (rs @ ps) [SLASH]) \<longleftrightarrow>
    length ps = 2 \<and> isHexByte (hd ps)"
proof -
  have pl: "\<forall>c \<in> set (rs @ ps). plainComp c" using assms(3) by (simp add: list_all_iff)
  have rel: "relPath (SLASH # Join rs [SLASH]) (SLASH # Join (rs @ ps) [SLASH]) = Some (Join ps [SLASH])"
    by (rule relPath_plain(1) [OF assms(1,2) pl])
  have e: "isCacheEntry (SLASH # Join rs [SLASH]) (SLASH # Join (rs @ ps) [SLASH]) \<longleftrightarrow>
      dirPath (dirPath (Join ps [SLASH])) = ''.'' \<and> isHexByte (dirPath (Join ps [SLASH]))"
    by (auto simp: isCacheEntry_def rel Let_def isHexByte_def)
  obtain qs f where ps: "ps = qs @ [f]" using assms(2) by (cases ps rule: rev_cases) auto
  have f: "plainComp f" using pl by (simp add: ps)
  show ?thesis
  proof (cases qs rule: rev_cases)
    case Nil
    with f have "dirPath (Join ps [SLASH]) = ''.''" by (simp add: ps dirPath_plain)
    with Nil show ?thesis unfolding e by (simp add: ps isHexByte_def)
  next
    case (snoc ds d)
    have d1: "dirPath (Join ps [SLASH]) = Join qs [SLASH]"
      unfolding ps by (rule dirPath_Join) (use pl snoc in \<open>auto simp: ps\<close>)
    show ?thesis
    proof (cases "ds = []")
      case True
      have "plainComp d" using pl by (simp add: ps snoc)
      with True show ?thesis unfolding e d1 by (simp add: snoc dirPath_plain ps)
    next
      case False
      have d2: "dirPath (Join qs [SLASH]) = Join ds [SLASH]"
        unfolding snoc by (rule dirPath_Join) (use pl False in \<open>auto simp: ps snoc\<close>)
      have ds: "splitOn SLASH (Join ds [SLASH]) = ds"
        using False pl by (intro Join_comps) (auto simp: ps snoc plainComp_def)
      have dot: "splitOn SLASH ''.'' = [''.'']" by code_simp
      have "Join ds [SLASH] \<noteq> ''.''"
      proof
        assume "Join ds [SLASH] = ''.''"
        with ds dot have "ds = [''.'']" by simp
        with pl show False by (auto simp: ps snoc plainComp_def)
      qed
      with False show ?thesis unfolding e d1 d2 by (simp add: ps snoc)
    qed
  qed
qed

theorem cache_entry_shape_witness:
  "isCacheEntry (SLASH # Join [''c''] [SLASH]) (SLASH # Join ([''c''] @ [''0f'', ''e-a'']) [SLASH]) \<longleftrightarrow>
   length [''0f'', ''e-a''] = 2 \<and> isHexByte (hd [''0f'', ''e-a''])"
  by (rule cache_entry_shape) (simp_all add: plainComp_def)

definition exampleWalk :: "walk_item list" where
  "exampleWalk =
     [ADir ''/c'', AFile ''/c/README'' (Info 9 0), ADir ''/c/0f'', AFile ''/c/0f/new'' (Info 40 30),
      AFile ''/c/0f/old'' (Info 50 10), AFile ''/c/0f/mid'' (Info 30 20), AFile ''/c/0f/gone'' InfoGone]"

lemma exampleWalk_items:
  "cacheItems ''/c'' exampleWalk =
     Inr [\<lparr>ciPath = ''/c/0f/new'', ciSize = 40, ciModTime = 30\<rparr>,
          \<lparr>ciPath = ''/c/0f/old'', ciSize = 50, ciModTime = 10\<rparr>,
          \<lparr>ciPath = ''/c/0f/mid'', ciSize = 30, ciModTime = 20\<rparr>]"
proof -
  have "isCacheEntry ''/c'' ''/c/README'' = False" "isCacheEntry ''/c'' ''/c/0f/new'' = True"
    "isCacheEntry ''/c'' ''/c/0f/old'' = True" "isCacheEntry ''/c'' ''/c/0f/mid'' = True"
    "isCacheEntry ''/c'' ''/c/0f/gone'' = True" by code_simp+
  then show ?thesis by (simp add: exampleWalk_def)
qed

text \<open>Trimming reaches its target and is frugal: when no removal fails and nothing else deletes entries,
  it removes the coldest entries, a prefix of the entries by age, until what is left fits the target,
  and stopping one entry earlier would not have been enough; it reports exactly the bytes removed.\<close>

theorem trim_coldest_first:
  assumes "cacheItems dir items = Inr is" "sizeSum is < 2 ^ 64"
    and "trimGoBuildCache remove dir items target = (r, None, gone)"
    and "\<forall>i \<in> set is. remove (ciPath i) \<noteq> RemoveGone"
  shows "(\<exists>k. gone = take k (sortSlice olderItem is)) \<and> unat r = sizeSum gone \<and>
    sizeSum is - sizeSum gone \<le> unat target \<and>
    (gone = [] \<or> unat target < sizeSum is - sizeSum (butlast gone)) \<and>
    (\<forall>i \<in> set gone. isCacheEntry dir (ciPath i))"
proof -
  have t: "unat (totalSize is) = sizeSum is" by (rule totalSize_unat [OF assms(2)])
  have "mset (map (\<lambda>i. unat (ciSize i)) (sortSlice olderItem is)) = mset (map (\<lambda>i. unat (ciSize i)) is)"
    by (simp add: mset_sortSlice)
  then have s: "sizeSum (sortSlice olderItem is) = sizeSum is" by (metis sum_mset_sum_list)
  have main: "(\<exists>k. gone = take k (sortSlice olderItem is)) \<and> unat r = sizeSum gone \<and>
      sizeSum is - sizeSum gone \<le> unat target \<and>
      (gone = [] \<or> unat target < sizeSum is - sizeSum (butlast gone))"
  proof (cases "totalSize is \<le> target")
    case True
    with assms(1,3) t show ?thesis
      by (auto simp: trimGoBuildCache_def word_le_nat_alt)
  next
    case False
    with assms(1,3) have l: "trimLoop remove target (totalSize is) 0 (sortSlice olderItem is) = (r, None, gone)"
      by (simp add: trimGoBuildCache_def)
    have "\<exists>k. gone = take k (sortSlice olderItem is) \<and> unat r = unat (0 :: 64 word) + sizeSum gone \<and>
        unat (totalSize is) - unat r \<le> unat target \<and>
        (gone \<noteq> [] \<longrightarrow> unat target < unat (totalSize is) - (unat (0 :: 64 word) + sizeSum (butlast gone)))"
      by (rule trimLoop_spec [OF _ _ l]) (use assms(4) t s in auto)
    then show ?thesis by (auto simp: t)
  qed
  then have "set gone \<subseteq> set is" using set_take_subset by fastforce
  with main cacheItems_entries [OF assms(1)] show ?thesis by blast
qed

theorem trim_coldest_first_witness:
  "unat (80 :: 64 word) = sizeSum [\<lparr>ciPath = ''/c/0f/old'', ciSize = 50, ciModTime = 10\<rparr>,
     \<lparr>ciPath = ''/c/0f/mid'', ciSize = 30, ciModTime = 20\<rparr>]"
proof (rule trim_coldest_first [OF exampleWalk_items, THEN conjunct2, THEN conjunct1])
  show "trimGoBuildCache (\<lambda>_. Removed) ''/c'' exampleWalk 45 =
      (80, None, [\<lparr>ciPath = ''/c/0f/old'', ciSize = 50, ciModTime = 10\<rparr>,
        \<lparr>ciPath = ''/c/0f/mid'', ciSize = 30, ciModTime = 20\<rparr>])"
    by (simp add: trimGoBuildCache_def exampleWalk_items totalSize_def sortSlice_def olderItem_def)
qed simp_all

text \<open>The dependency floor survives every sweep: pinning removes only entry files outside the baseline
  that are older than the cutoff, even when the walk ends in an error, and a sweep that ends without
  one removes each of them it can.\<close>

theorem pin_exact:
  assumes "pinToBaseline remove dir baseline cutoff items = (r, err, gone)"
  shows "ciPath ` set gone \<inter> baseline = {} \<and>
    list_all (\<lambda>i. isCacheEntry dir (ciPath i) \<and> ciModTime i < cutoff) gone \<and>
    (err = None \<longrightarrow> set gone \<supseteq> {\<lparr>ciPath = p, ciSize = sz, ciModTime = t\<rparr> | p sz t.
       AFile p (Info sz t) \<in> set items \<and> isCacheEntry dir p \<and> p \<notin> baseline \<and> t < cutoff \<and> remove p = Removed})"
  using pinWalk_gone [OF assms [unfolded pinToBaseline_def]] assms
  by (auto simp: list_all_iff pinToBaseline_def intro: pinWalk_all)

theorem pin_exact_witness:
  "ciPath ` set [\<lparr>ciPath = ''/c/0f/old'', ciSize = 50, ciModTime = 10\<rparr>] \<inter> {''/c/0f/mid''} = {}"
proof (rule pin_exact [THEN conjunct1])
  have "isCacheEntry ''/c'' ''/c/README'' = False" "isCacheEntry ''/c'' ''/c/0f/new'' = True"
    "isCacheEntry ''/c'' ''/c/0f/old'' = True" "isCacheEntry ''/c'' ''/c/0f/mid'' = True"
    "isCacheEntry ''/c'' ''/c/0f/gone'' = True" by code_simp+
  then show "pinToBaseline (\<lambda>_. Removed) ''/c'' {''/c/0f/mid''} 25 exampleWalk =
      (50, None, [\<lparr>ciPath = ''/c/0f/old'', ciSize = 50, ciModTime = 10\<rparr>])"
    by (simp add: pinToBaseline_def exampleWalk_def)
qed

text \<open>C22. The janitor spares running builds, in a run whose jobs have distinct IDs (of two jobs with one ID the first
  to finish takes the other's entry out of the in-flight map): when a sweep takes its cutoff in one state of
  the run and removes entries at any later one, every job running at that moment is in the in-flight map with
  the time its start was noted, and no entry the sweep removes was written at that time or after it.\<close>

theorem janitor_spares_running:
  assumes "execution (workerRuns sha root rt) cfg (startRun cfg p st tst) as s"
    and "execution (workerRuns sha root rt) cfg s bs t" "distinct (map jID (plTodo p))"
    and "set visited = {(k, v). ruInflight s k = Some v}" "k \<in> runningIDs t"
    and "pinToBaseline remove dir baseline
           (sweepCutoff (int (ruNow s)) (map_option int (oldestInflight visited))) items = (r, err, gone)"
  shows "\<exists>started. ruInflight t k = Some started \<and> list_all (\<lambda>i. ciModTime i < int started) gone"
proof -
  have ex: "execution (workerRuns sha root rt) cfg (startRun cfg p st tst) (as @ bs) t"
    by (rule execution_append [OF assms(2,1)])
  have "runningIDs t \<subseteq> dom (ruInflight t)" using running_in_flight [OF ex assms(3)] .
  with assms(5) obtain v where v: "ruInflight t k = Some v" by auto
  have "sweepCutoff (int (ruNow s)) (map_option int (oldestInflight visited)) \<le> int v"
  proof (cases "ruInflight s k = Some v")
    case True
    then have "(k, v) \<in> set visited" using assms(4) by simp
    from oldestInflight_le [OF this] show ?thesis by (auto simp: sweepCutoff_def)
  next
    case False
    with execution_inflight_times [OF assms(2)] v have "ruNow s \<le> v" by blast
    then show ?thesis by (auto simp: sweepCutoff_def split: option.split)
  qed
  moreover have "ciModTime i < sweepCutoff (int (ruNow s)) (map_option int (oldestInflight visited))" if "i \<in> set gone" for i
    using pinWalk_gone [OF assms(6) [unfolded pinToBaseline_def] that] by blast
  ultimately show ?thesis using v by (force simp: list_all_iff)
qed

definition soloBusy :: "nat \<Rightarrow> run" where
  "soloBusy now =
     \<lparr>ruFeeder = Feeding [], ruWorkers = [\<lparr>wsPhase = WBusy exampleJob, wsAlive = True, wsServed = 0\<rparr>],
      ruInflight = [''a.js#strict'' \<mapsto> 0], ruNow = now, ruAborted = False, ruResults = (\<lambda>_. None), ruDone = [],
      ruCache = None, ruTail = None\<rparr>"

theorem janitor_spares_running_witness:
  "\<exists>started. ruInflight (soloBusy 1) ''a.js#strict'' = Some started \<and>
     list_all (\<lambda>i. ciModTime i < int started) [\<lparr>ciPath = ''/c/0f/old'', ciSize = 50, ciModTime = -5\<rparr>]"
proof (rule janitor_spares_running)
  show "execution (workerRuns (\<lambda>s. s) ''/m'' ''rt'') soloConfig (startRun soloConfig soloPlan None None)
      [Hand 0, Spawns 0, Starts 0] (soloBusy 0)"
    by (rule execution_performAll)
      (simp_all add: soloConfig_def soloPlan_def soloBusy_def startRun_def poolSize_def planJobs_def
        planJob_def onWorker_def setWorker_def exampleJob_def)
  show "execution (workerRuns (\<lambda>s. s) ''/m'' ''rt'') soloConfig (soloBusy 0) [Tick] (soloBusy 1)"
    by (rule execution_performAll) (simp_all add: soloBusy_def)
  show "distinct (map jID (plTodo soloPlan))" by (simp add: soloPlan_def planJobs_def planJob_def)
  show "set [(''a.js#strict'', 0)] = {(k, v). ruInflight (soloBusy 0) k = Some v}"
    by (auto simp: soloBusy_def split: if_splits)
  show "''a.js#strict'' \<in> runningIDs (soloBusy 1)"
    by (simp add: runningIDs_def running_def soloBusy_def exampleJob_def)
  have "isCacheEntry ''/c'' ''/c/0f/old'' = True" by code_simp
  then show "pinToBaseline (\<lambda>_. Removed) ''/c'' {}
      (sweepCutoff (int (ruNow (soloBusy 0))) (map_option int (oldestInflight [(''a.js#strict'', 0)])))
      [AFile ''/c/0f/old'' (Info 50 (-5))] =
      (50, None, [\<lparr>ciPath = ''/c/0f/old'', ciSize = 50, ciModTime = -5\<rparr>])"
    by (simp add: pinToBaseline_def sweepCutoff_def oldestInflight_def soloBusy_def)
qed

text \<open>C38. The build cache stays flat: with the baseline snapshotted before the first build, whatever builds write
  and however earlier sweeps turn out, no sweep ever removes a dependency archive, and a sweep that
  runs while no job does, after the last write, leaves exactly the baseline and every file that is no
  cache entry.\<close>

theorem cache_pinned_flat:
  assumes "SnapshotCacheEntries dir (walkOf warm) = Inr baseline"
    and "files = fold (afterEvent dir baseline) evs warm"
    and "list_all (\<lambda>(p, sz, t). t < btNow b) files" "btOldest b = None" "\<And>p. btRemove b p = Removed"
  shows "baseline \<subseteq> fst ` set files \<and>
    {p \<in> fst ` set (afterEvent dir baseline (Swept b) files). isCacheEntry dir p} = baseline \<and>
    {x \<in> set (afterEvent dir baseline (Swept b) files). \<not> isCacheEntry dir (fst x)} =
      {x \<in> set files. \<not> isCacheEntry dir (fst x)}"
proof -
  have base: "baseline = {p \<in> fst ` set warm. isCacheEntry dir p}" using assms(1) by (simp add: Snapshot_walkOf)
  then have keep: "baseline \<subseteq> fst ` set files" unfolding assms(2) by (intro afterEvents_baseline) auto
  obtain r err gone where g: "pinWalk (btRemove b) dir baseline (btNow b) 0 (walkOf files) = (r, err, gone)"
    by (cases "pinWalk (btRemove b) dir baseline (btNow b) 0 (walkOf files)")
  then have sweep: "pinSweep dir baseline b (walkOf files) = (r, err, gone)"
    by (simp add: pinSweep_def pinToBaseline_def sweepCutoff_def assms(4))
  have "err = None" using pinWalk_walkOf [where remove = "btRemove b" and dir = dir and files = files, OF assms(5)] g by (metis fst_conv snd_conv)
  note all = pinWalk_all [OF g [unfolded this]] and only = pinWalk_gone [OF g]
  have gone: "p \<in> ciPath ` set gone \<longleftrightarrow> isCacheEntry dir p \<and> p \<notin> baseline" if x: "(p, sz, t) \<in> set files" for p sz t
  proof
    assume "isCacheEntry dir p \<and> p \<notin> baseline"
    moreover have "t < btNow b" using assms(3) x by (auto simp: list_all_iff)
    ultimately have "\<lparr>ciPath = p, ciSize = sz, ciModTime = t\<rparr> \<in> set gone"
      using all x assms(5) by (simp add: walkOf_AFile)
    then show "p \<in> ciPath ` set gone" by force
  qed (use only in auto)
  have after: "set (afterEvent dir baseline (Swept b) files) = {x \<in> set files. \<not> isCacheEntry dir (fst x) \<or> fst x \<in> baseline}"
  proof (rule set_eqI)
    fix x :: "string \<times> 64 word \<times> int"
    obtain p sz t where x: "x = (p, sz, t)" by (cases x)
    show "x \<in> set (afterEvent dir baseline (Swept b) files) \<longleftrightarrow>
        x \<in> {x \<in> set files. \<not> isCacheEntry dir (fst x) \<or> fst x \<in> baseline}"
      by (cases "x \<in> set files") (simp_all add: sweep x gone [of p sz t])
  qed
  have "{p \<in> fst ` set (afterEvent dir baseline (Swept b) files). isCacheEntry dir p} = baseline"
  proof (rule set_eqI)
    fix p
    have "isCacheEntry dir p" if "p \<in> baseline" using that base by simp
    moreover have "\<exists>x \<in> set files. fst x = p" if "p \<in> baseline" using that keep by blast
    ultimately show "p \<in> {p \<in> fst ` set (afterEvent dir baseline (Swept b) files). isCacheEntry dir p} \<longleftrightarrow> p \<in> baseline"
      unfolding after by blast
  qed
  moreover have "{x \<in> set (afterEvent dir baseline (Swept b) files). \<not> isCacheEntry dir (fst x)} =
      {x \<in> set files. \<not> isCacheEntry dir (fst x)}" unfolding after by auto
  ultimately show ?thesis using keep by blast
qed

definition warmFiles :: cache_files where
  "warmFiles = [(''/c/README'', 9, 0), (''/c/0f/dep'', 50, 1)]"

theorem cache_pinned_flat_witness:
  "{p \<in> fst ` set (afterEvent ''/c'' {''/c/0f/dep''}
      (Swept \<lparr>btNow = 10, btOldest = None, btRemove = (\<lambda>_. Removed)\<rparr>)
      (fold (afterEvent ''/c'' {''/c/0f/dep''}) [Wrote ''/c/0a/test'' 7 5] warmFiles)). isCacheEntry ''/c'' p} = {''/c/0f/dep''}"
proof (rule cache_pinned_flat [OF _ refl, THEN conjunct2, THEN conjunct1])
  have "isCacheEntry ''/c'' ''/c/README'' = False" "isCacheEntry ''/c'' ''/c/0f/dep'' = True" by code_simp+
  then show "SnapshotCacheEntries ''/c'' (walkOf warmFiles) = Inr {''/c/0f/dep''}" by (simp add: warmFiles_def)
qed (simp_all add: warmFiles_def)

end
