(* ===== verification/Board.thy ===== *)
theory Board
  imports OrchestratorFacts
begin

text \<open>
  What a run promises, without workers, channels or processes: a board of pending jobs and of answers,
  where a step takes one pending job off the board and files an answer under its ID. The goroutines
  of \<open>RunAll\<close> implement it: each of their actions is a step of the board or changes nothing on it.
\<close>

record board =
  bdPending :: "string multiset"
  bdAnswers :: "result list"

inductive board_step :: "board \<Rightarrow> board \<Rightarrow> bool" where
  answer: "rID r \<in># bdPending b \<Longrightarrow>
    board_step b \<lparr>bdPending = bdPending b - {#rID r#}, bdAnswers = bdAnswers b @ [r]\<rparr>"

text \<open>A job is pending until the collector has its answer, wherever it is in between.\<close>

definition boardOf :: "run \<Rightarrow> board" where
  "boardOf s =
     \<lparr>bdPending = mset (map jID (unsent (ruFeeder s))) + sum_list (map inHand (ruWorkers s)),
      bdAnswers = ruDone s\<rparr>"

lemma accounted_board: "accounted s = bdPending (boardOf s) + mset (map rID (bdAnswers (boardOf s)))"
  by (simp add: accounted_def boardOf_def)

lemma step_board:
  assumes "step runs cfg a s s'" "accounted s' = accounted s"
  shows "boardOf s' = boardOf s \<or> board_step (boardOf s) (boardOf s')"
  using assms(1)
proof (cases rule: step_results)
  case other
  with assms(2) show ?thesis by (simp add: accounted_def boardOf_def)
next
  case (collect r w)
  with assms(2) have p: "bdPending (boardOf s) = add_mset (rID r) (bdPending (boardOf s'))"
    by (simp add: accounted_def boardOf_def)
  then have "boardOf s' = \<lparr>bdPending = bdPending (boardOf s) - {#rID r#}, bdAnswers = bdAnswers (boardOf s) @ [r]\<rparr>"
    using collect(2) by (simp add: boardOf_def)
  moreover have "rID r \<in># bdPending (boardOf s)" by (simp add: p)
  ultimately show ?thesis using board_step.answer [of r "boardOf s"] by simp
qed

context job_runner begin

lemma execution_board:
  assumes "execution runs cfg (startRun cfg p cache tail) as t"
  shows "board_step\<^sup>*\<^sup>* (boardOf (startRun cfg p cache tail)) (boardOf t)"
proof -
  have "execution runs cfg s as t \<Longrightarrow> s = startRun cfg p cache tail \<Longrightarrow> board_step\<^sup>*\<^sup>* (boardOf s) (boardOf t)" for s
  proof (induction rule: execution.induct)
    case (extend s as t a u)
    from extend.hyps extend.prems have "execution runs cfg (startRun cfg p cache tail) (as @ [a]) u"
      by (metis execution.extend)
    with run_good(3) extend.hyps(1) extend.prems have "accounted u = accounted t" by metis
    with step_board [OF extend.hyps(2)] extend.IH [OF extend.prems] show ?case by (metis rtranclp.rtrancl_into_rtrancl)
  qed simp
  with assms show ?thesis by blast
qed

end

lemma boardOf_start: "boardOf (startRun cfg p st tst) = \<lparr>bdPending = mset (map jID (plTodo p)), bdAnswers = []\<rparr>"
proof -
  have "sum_list (map inHand (replicate n \<lparr>wsPhase = WIdle, wsAlive = False, wsServed = 0\<rparr>)) = {#}" for n
    by (induction n) (simp_all add: inHand_def)
  then show ?thesis by (simp add: boardOf_def startRun_def)
qed

text \<open>C7. The pool refines the board, action by action: a run starts with all of its jobs pending and no answer;
  each action it can take in a state it reaches leaves the board as it was, or takes exactly one pending
  job off it and files one answer, under that job's ID, after the others; so a run as a whole is a
  sequence of such answers, and when it returns uninterrupted nothing is pending.\<close>

theorem run_refines_board:
  assumes "execution (workerRuns sha root rt) cfg (startRun cfg p st tst) as t"
  shows "boardOf (startRun cfg p st tst) = \<lparr>bdPending = mset (map jID (plTodo p)), bdAnswers = []\<rparr> \<and>
    {u. \<exists>a. step (workerRuns sha root rt) cfg a t u} \<subseteq>
      {u. boardOf u = boardOf t \<or>
         (\<exists>r. rID r \<in># bdPending (boardOf t) \<and> bdPending (boardOf u) = bdPending (boardOf t) - {#rID r#} \<and>
            bdAnswers (boardOf u) = bdAnswers (boardOf t) @ [r])} \<and>
    board_step\<^sup>*\<^sup>* (boardOf (startRun cfg p st tst)) (boardOf t) \<and>
    (returned t \<and> \<not> ruAborted t \<longrightarrow> bdPending (boardOf t) = {#})"
proof (intro conjI subsetI)
  fix u assume "u \<in> {u. \<exists>a. step (workerRuns sha root rt) cfg a t u}"
  then obtain a where a: "step (workerRuns sha root rt) cfg a t u" by blast
  from assms a have "execution (workerRuns sha root rt) cfg (startRun cfg p st tst) (as @ [a]) u"
    by (rule execution.extend)
  with aot.run_good(3) assms have "accounted u = accounted t" by metis
  from step_board [OF a this] show "u \<in> {u. boardOf u = boardOf t \<or>
      (\<exists>r. rID r \<in># bdPending (boardOf t) \<and> bdPending (boardOf u) = bdPending (boardOf t) - {#rID r#} \<and>
         bdAnswers (boardOf u) = bdAnswers (boardOf t) @ [r])}" by (auto simp: board_step.simps)
next
  show "returned t \<and> \<not> ruAborted t \<longrightarrow> bdPending (boardOf t) = {#}"
  proof
    assume "returned t \<and> \<not> ruAborted t"
    with aot.returned_accounted(1,3) [OF assms] have "mset (map rID (ruDone t)) = mset (map jID (plTodo p))" by simp
    with aot.run_good(3) [OF assms] show "bdPending (boardOf t) = {#}"
      by (simp add: accounted_board) (simp add: boardOf_def)
  qed
qed (use aot.execution_board [OF assms] in \<open>simp_all add: boardOf_start\<close>)

theorem run_refines_board_witness:
  "board_step\<^sup>*\<^sup>* (boardOf (startRun soloConfig soloPlan None None)) (boardOf soloEnd) \<and>
   bdPending (boardOf soloEnd) = {#}"
proof -
  have "returned soloEnd" "\<not> ruAborted soloEnd" by (simp_all add: soloEnd_def returned_def)
  with run_refines_board [OF solo_execution] show ?thesis by blast
qed

end
