(* ===== verification/GoNumber.thy ===== *)
theory GoNumber
  imports GoStrings "HOL-Library.Log_Nat"
begin

text \<open>
  Go's number texts (\<open>strconv\<close>) and float64 values. A float64 is the rational it denotes: \<open>fl64\<close> rounds a
  positive rational to the nearest one (ties to even), which is what a conversion, a product or a quotient
  does in the normal range; \<open>float64Of\<close> does so in the whole range, subnormal numbers and overflow included.
\<close>

section \<open>Digits\<close>

definition lowerByte :: "char \<Rightarrow> nat" where
  "lowerByte c = (let n = (of_char c :: nat) in if 65 \<le> n \<and> n \<le> 90 then n + 32 else n)"

definition digitOf :: "char \<Rightarrow> nat option" where
  "digitOf c =
     (let n = (of_char c :: nat); l = lowerByte c in
      if 48 \<le> n \<and> n \<le> 57 then Some (n - 48)
      else if 97 \<le> l \<and> l \<le> 122 then Some (l - 97 + 10) else None)"

fun baseDigits :: "nat \<Rightarrow> nat \<Rightarrow> string \<Rightarrow> nat option" where
  "baseDigits b n [] = Some n"
| "baseDigits b n (c # s) =
     (if c = CHR ''_'' then baseDigits b n s
      else
        (case digitOf c of
           None \<Rightarrow> None
         | Some d \<Rightarrow> if b \<le> d then None else baseDigits b (n * b + d) s))"

definition basePrefix :: "string \<Rightarrow> nat option" where
  "basePrefix s =
     (case s of
        z # x # _ \<Rightarrow>
          (if z \<noteq> CHR ''0'' then None
           else if lowerByte x = 98 then Some 2
           else if lowerByte x = 111 then Some 8
           else if lowerByte x = 120 then Some 16 else None)
      | _ \<Rightarrow> None)"

text \<open>\<open>underscoreOK\<close>; the first argument says whether a digit (or the base prefix) came last, the second
  whether an underscore did.\<close>

fun underscoresIn :: "bool \<Rightarrow> bool \<Rightarrow> bool \<Rightarrow> string \<Rightarrow> bool" where
  "underscoresIn hex dig und [] = (\<not> und)"
| "underscoresIn hex dig und (c # s) =
     (let n = (of_char c :: nat); l = lowerByte c in
      if (48 \<le> n \<and> n \<le> 57) \<or> (hex \<and> 97 \<le> l \<and> l \<le> 102) then underscoresIn hex True False s
      else if c = CHR ''_'' then dig \<and> underscoresIn hex False True s
      else \<not> und \<and> underscoresIn hex False False s)"

definition underscoreOK :: "string \<Rightarrow> bool" where
  "underscoreOK s =
     (case basePrefix s of
        Some b \<Rightarrow> underscoresIn (b = 16) True False (drop 2 s)
      | None \<Rightarrow> underscoresIn False False False s)"

section \<open>Rounding\<close>

text \<open>The exponent of a positive rational: \<open>2 powi expo x \<le> x\<close> and \<open>x < 2 powi (expo x + 1)\<close>.\<close>

definition expo :: "rat \<Rightarrow> int" where
  "expo x =
     (let (n, d) = quotient_of x; k = bitlen n - bitlen d in if x < 2 powi k then k - 1 else k)"

definition roundEven :: "rat \<Rightarrow> int" where
  "roundEven y =
     (let f = \<lfloor>y\<rfloor>; r = y - of_int f in if r < 1 / 2 \<or> (r = 1 / 2 \<and> even f) then f else f + 1)"

definition fl64 :: "rat \<Rightarrow> rat" where
  "fl64 x =
     (if x \<le> 0 then 0 else let e = expo x - 52 in of_int (roundEven (x / 2 powi e)) * 2 powi e)"

text \<open>\<open>None\<close> is a value past the largest float64.\<close>

definition float64Of :: "rat \<Rightarrow> rat option" where
  "float64Of x =
     (if x \<le> 0 then Some 0
      else
        (let e = max (expo x - 52) (-1074); r = of_int (roundEven (x / 2 powi e)) * 2 powi e in
         if r < 2 powi 1024 then Some r else None))"

section \<open>Parsing\<close>

text \<open>\<open>readFloat\<close>: whether there was a digit, the digits as one number, how many came after the point, the rest.\<close>

fun floatDigits :: "nat \<Rightarrow> bool \<Rightarrow> bool \<Rightarrow> nat \<Rightarrow> nat \<Rightarrow> string \<Rightarrow> bool \<times> nat \<times> nat \<times> string" where
  "floatDigits b point saw m k [] = (saw, m, k, [])"
| "floatDigits b point saw m k (c # s) =
     (if c = CHR ''_'' then floatDigits b point saw m k s
      else if c = CHR ''.'' \<and> \<not> point then floatDigits b True saw m k s
      else
        (case digitOf c of
           None \<Rightarrow> (saw, m, k, c # s)
         | Some d \<Rightarrow>
             if d < b then floatDigits b point True (m * b + d) (if point then k + 1 else k) s
             else (saw, m, k, c # s)))"

text \<open>The digits of an exponent stop counting once it has reached ten thousand.\<close>

fun floatExp :: "nat \<Rightarrow> string \<Rightarrow> nat \<times> string" where
  "floatExp e [] = (e, [])"
| "floatExp e (c # s) =
     (if c = CHR ''_'' then floatExp e s
      else
        (case digitVal c of
           None \<Rightarrow> (e, c # s)
         | Some d \<Rightarrow> floatExp (if e < 10000 then e * 10 + d else e) s))"

definition unsignedPart :: "string \<Rightarrow> string" where
  "unsignedPart s = (if HasPrefix s ''-'' \<or> HasPrefix s ''+'' then tl s else s)"

text \<open>The exponent, which a hexadecimal number must have.\<close>

definition floatTail :: "bool \<Rightarrow> string \<Rightarrow> (int \<times> string) option" where
  "floatTail hex s =
     (if s \<noteq> [] \<and> lowerByte (hd s) = (if hex then 112 else 101) then
        (let t = unsignedPart (tl s) in
         if t = [] \<or> digitVal (hd t) = None then None
         else
           (let (e, rest) = floatExp 0 t in
            Some (if HasPrefix (tl s) ''-'' then - int e else int e, rest)))
      else if hex then None else Some (0, s))"

text \<open>\<open>strconv.ParseFloat(s, 64)\<close>: the nearest float64; \<open>None\<close> for an error, an infinity or a NaN.\<close>

definition ParseFloat :: "string \<Rightarrow> rat option" where
  "ParseFloat s =
     (let t = unsignedPart s; hex = (3 \<le> length t \<and> basePrefix t = Some 16);
          (saw, m, k, rest) = floatDigits (if hex then 16 else 10) False False 0 0 (if hex then drop 2 t else t)
      in if \<not> saw then None
         else
           (case floatTail hex rest of
              None \<Rightarrow> None
            | Some (e, rest') \<Rightarrow>
                if rest' \<noteq> [] \<or> (CHR ''_'' \<in> set t \<and> \<not> underscoreOK t) then None
                else
                  map_option (\<lambda>x. if HasPrefix s ''-'' then - x else x)
                    (float64Of (of_nat m * (if hex then 2 powi (e - 4 * int k) else 10 powi (e - int k))))))"

end
