(* ===== verification/Sysinfo.thy ===== *)
theory Sysinfo
  imports GoNumber "HOL-Library.Word"
begin

text \<open>
  \<open>pkg/tc39/sysinfo.go\<close>: how many workers fit the machine's memory, and the soft heap limit. Byte
  counts are 64-bit words, as in the code; a float64 is the rational it denotes. The system call behind \<open>totalMem\<close> and the environment are arguments;
  a division by zero is a panic, the result \<open>None\<close>.
\<close>

unbundle bit_operations_syntax

section \<open>Go's float64\<close>

text \<open>\<open>float64(w)\<close> of an unsigned word.\<close>

definition float64 :: "64 word \<Rightarrow> rat" where
  "float64 w = fl64 (of_int (uint w))"

section \<open>The settings\<close>

text \<open>\<open>strconv.ParseUint\<close> in base ten: digits only, and a value that fits the word.\<close>

definition parseUint :: "string \<Rightarrow> 64 word option" where
  "parseUint s =
     (if s = [] then None
      else case decimal 0 s of
          None \<Rightarrow> None
        | Some n \<Rightarrow> if n < 2 ^ 64 then Some (of_nat n) else None)"

text \<open>\<open>v\<close> is the value of \<open>BENTO262_MEM_PER_WORKER_MB\<close>, empty when it is not set.\<close>

definition perWorkerMB :: "string \<Rightarrow> 64 word" where
  "perWorkerMB v =
     (if v \<noteq> [] then (case parseUint v of Some n \<Rightarrow> if n > 0 then n else 6144 | None \<Rightarrow> 6144) else 6144)"

definition perWorkerMemBytes :: "string \<Rightarrow> 64 word" where
  "perWorkerMemBytes v = push_bit 20 (perWorkerMB v)"

text \<open>
  \<open>v\<close> is the value of \<open>BENTO262_MEM_FRACTION\<close>; neither an error nor an infinity or a NaN passes the test.
\<close>

definition memFraction :: "string \<Rightarrow> rat" where
  "memFraction v =
     (if v \<noteq> [] then (case ParseFloat v of Some f \<Rightarrow> if f > 0 \<and> f \<le> 1 then f else 1 / 2 | None \<Rightarrow> 1 / 2)
      else 1 / 2)"

section \<open>Sizing the pool\<close>

text \<open>The share of the memory the workers may use: the product as a float64, truncated.\<close>

definition memBudget :: "64 word \<Rightarrow> rat \<Rightarrow> 64 word" where
  "memBudget tot f = word_of_int \<lfloor>fl64 (float64 tot * f)\<rfloor>"

text \<open>The worker count and the total; the outer \<open>None\<close> is the panic of a division by zero.\<close>

definition MemSafeWorkers :: "64 word \<Rightarrow> rat \<Rightarrow> 64 word \<Rightarrow> (int \<times> 64 word) option" where
  "MemSafeWorkers tot f per =
     (if tot = 0 then Some (0, 0)
      else if per = 0 then None
      else Some (max (sint (memBudget tot f div per)) 1, tot))"

text \<open>The second component says whether there is a reason to report.\<close>

definition CapWorkers :: "64 word \<Rightarrow> rat \<Rightarrow> 64 word \<Rightarrow> int \<Rightarrow> (int \<times> bool) option" where
  "CapWorkers tot f per requested =
     (case MemSafeWorkers tot f per of
        None \<Rightarrow> None
      | Some (safe, t) \<Rightarrow>
          if safe = 0 \<or> requested \<le> safe then Some (requested, False) else Some (safe, True))"

definition MemoryLimitBytes :: "64 word \<Rightarrow> rat \<Rightarrow> int" where
  "MemoryLimitBytes tot f = (if tot = 0 then 0 else \<lfloor>fl64 (float64 tot * f)\<rfloor>)"

section \<open>Reporting sizes\<close>

text \<open>The loop of \<open>humanBytes\<close>: the divisor and the index of its unit letter.\<close>

function unitOf :: "64 word \<Rightarrow> 64 word \<Rightarrow> nat \<Rightarrow> 64 word \<times> nat" where
  "unitOf n dv ex = (if n \<ge> 1024 then unitOf (n div 1024) (dv * 1024) (ex + 1) else (dv, ex))"
  by pat_completeness auto
termination
proof (relation "measure (\<lambda>(n, dv, ex). unat n)")
  fix n :: "64 word" assume "1024 \<le> n"
  then have "1024 \<le> unat n" by (simp add: word_le_nat_alt)
  then show "((n div 1024, dv * 1024, ex + 1), n, dv, ex) \<in> measure (\<lambda>(n, dv, ex). unat n)" for dv :: "64 word" and ex
    by (simp add: unat_div)
qed simp

declare unitOf.simps [simp del]

text \<open>What \<open>humanBytes\<close> formats: plain bytes, or a quotient and its unit letter.\<close>

datatype human = Plain "64 word" | Scaled "64 word" "64 word" char

definition humanBytes :: "64 word \<Rightarrow> human option" where
  "humanBytes b =
     (if b < 1024 then Some (Plain b)
      else let (dv, ex) = unitOf (b div 1024) 1024 0 in
           if ex < length ''KMGTPE'' then Some (Scaled b dv (''KMGTPE'' ! ex)) else None)"

section \<open>Platform probes\<close>

text \<open>
  What the system call answers is an argument: \<open>sysinfo(2)\<close> gives the memory in units of 32 bits, a
  zero meaning bytes; \<open>statfs(2)\<close> gives free blocks and their size. Products wrap.
\<close>

definition totalMem_linux :: "goerror + 64 word \<times> 32 word \<Rightarrow> 64 word" where
  "totalMem_linux answer =
     (case answer of
        Inl e \<Rightarrow> 0
      | Inr (totalram, unit) \<Rightarrow> totalram * (if ucast unit = (0 :: 64 word) then 1 else ucast unit))"

definition totalMem_darwin :: "goerror + 64 word \<Rightarrow> 64 word" where
  "totalMem_darwin answer = (case answer of Inl e \<Rightarrow> 0 | Inr n \<Rightarrow> n)"

definition totalMem_other :: "64 word" where "totalMem_other = 0"

definition FreeDiskBytes_unix :: "goerror + 64 word \<times> 64 word \<Rightarrow> goerror + 64 word" where
  "FreeDiskBytes_unix answer = (case answer of Inl e \<Rightarrow> Inl e | Inr (bavail, bsize) \<Rightarrow> Inr (bavail * bsize))"

definition FreeDiskBytes_other :: "goerror + 64 word" where "FreeDiskBytes_other = Inr 0"

end
