(* ===== verification/SysinfoFacts.thy ===== *)
theory SysinfoFacts
  imports Sysinfo
begin

text \<open>
  What the sizing promises: the rounding of the float64 product never takes the budget past the memory
  the platform reports, a reduced pool fits that budget, the one override that makes the division
  panic, and the range of the reported sizes.
\<close>

section \<open>Rounding\<close>

lemma bitlen_range: "0 < n \<Longrightarrow> (2::rat) powi (bitlen n - 1) \<le> of_int n \<and> of_int n < (2::rat) powi bitlen n"
proof -
  assume n: "0 < n"
  from bitlen_bounds [OF n] have b: "2 ^ nat (bitlen n - 1) \<le> n" "n < 2 ^ nat (bitlen n)" by simp_all
  from n have "bitlen n \<ge> 1" by (simp add: bitlen_alt_def)
  moreover from b have "(2::rat) ^ nat (bitlen n - 1) \<le> of_int n" "of_int n < (2::rat) ^ nat (bitlen n)"
    by (metis of_int_le_iff of_int_numeral of_int_power, metis of_int_less_iff of_int_numeral of_int_power)
  ultimately show ?thesis by (simp add: power_int_def)
qed

lemma expo_bounds:
  assumes "0 < x"
  shows "2 powi expo x \<le> x" "x < 2 powi (expo x + 1)"
proof -
  obtain n d where q: "quotient_of x = (n, d)" by (cases "quotient_of x")
  then have d: "0 < d" and x: "x = of_int n / of_int d" by (simp_all add: quotient_of_denom_pos quotient_of_div)
  with assms have n: "0 < n" by (simp add: zero_less_divide_iff)
  let ?k = "bitlen n - bitlen d"
  note bn = bitlen_range [OF n] and bd = bitlen_range [OF d]
  have "(2::rat) powi (bitlen n - 1) / 2 powi bitlen d \<le> x" unfolding x
    using bn bd n d by (intro frac_le) (simp_all add: order.strict_implies_order)
  moreover have "(2::rat) powi (?k - 1) = 2 powi (bitlen n - 1) / 2 powi bitlen d"
    by (simp add: power_int_diff)
  ultimately have lo: "2 powi (?k - 1) \<le> x" by simp
  have "x < 2 powi bitlen n / 2 powi (bitlen d - 1)" unfolding x
    using bn bd n d by (intro frac_less) simp_all
  moreover have "(2::rat) powi (?k + 1) = 2 powi bitlen n / 2 powi (bitlen d - 1)"
    by (simp add: power_int_diff power_int_add)
  ultimately have hi: "x < 2 powi (?k + 1)" by simp
  show "2 powi expo x \<le> x" using lo by (simp add: expo_def q Let_def)
  show "x < 2 powi (expo x + 1)" using hi by (simp add: expo_def q Let_def)
qed

lemma roundEven_int [simp]: "roundEven (of_int z) = z"
  by (simp add: roundEven_def Let_def)

lemma roundEven_le:
  assumes "y \<le> of_int z"
  shows "roundEven y \<le> z"
proof (cases "\<lfloor>y\<rfloor> = z")
  case True
  with assms have "y = of_int z" by linarith
  then show ?thesis by simp
next
  case False
  with assms have "\<lfloor>y\<rfloor> + 1 \<le> z" by linarith
  then show ?thesis by (auto simp: roundEven_def Let_def)
qed

lemma roundEven_nonneg: "0 \<le> y \<Longrightarrow> 0 \<le> roundEven y"
  by (simp add: roundEven_def Let_def)

lemma fl64_nonneg: "0 \<le> fl64 x"
  by (simp add: fl64_def Let_def roundEven_nonneg)

text \<open>Below \<open>2 ^ 53\<close> an integer is a float64, and rounding does not cross it.\<close>

lemma small_scale:
  assumes "0 < x" "x \<le> of_int z" "z < 2 ^ 53"
  obtains m where "of_int z / 2 powi (expo x - 52) = (of_int m :: rat)"
proof -
  have "expo x - 52 \<le> 0"
  proof (rule ccontr)
    assume "\<not> expo x - 52 \<le> 0"
    then have "(2::rat) powi 53 \<le> 2 powi expo x" by (intro power_int_increasing) simp_all
    with expo_bounds(1) [OF assms(1)] assms(2) have "(2::rat) ^ 53 \<le> of_int z" by simp
    with assms(3) show False by (metis not_le of_int_le_iff of_int_numeral of_int_power)
  qed
  then have "of_int z / (2::rat) powi (expo x - 52) = of_int (z * 2 ^ nat (52 - expo x))"
    by (simp add: power_int_def field_simps)
  then show ?thesis by (rule that)
qed

lemma fl64_le:
  assumes "x \<le> of_int z" "0 \<le> z" "z < 2 ^ 53"
  shows "fl64 x \<le> of_int z"
proof (cases "x \<le> 0")
  case False
  then have x: "0 < x" by simp
  let ?s = "(2::rat) powi (expo x - 52)"
  from small_scale [OF x assms(1,3)] obtain m where m: "of_int z / ?s = (of_int m :: rat)" .
  have s: "0 < ?s" by simp
  with assms(1) have "x / ?s \<le> of_int m" unfolding m [symmetric] by (intro divide_right_mono) simp_all
  then have "of_int (roundEven (x / ?s)) \<le> (of_int m :: rat)" using roundEven_le by simp
  then have "of_int (roundEven (x / ?s)) * ?s \<le> of_int m * ?s" by (intro mult_right_mono) simp_all
  also have "of_int m * ?s = of_int z" using m s by (simp add: field_simps)
  finally show ?thesis using x by (simp add: fl64_def Let_def)
qed (simp add: fl64_def assms(2))

lemma fl64_int:
  assumes "0 \<le> z" "z < 2 ^ 53"
  shows "fl64 (of_int z) = of_int z"
proof (cases "z = 0")
  case False
  with assms have x: "0 < (of_int z :: rat)" by simp
  from small_scale [OF x order.refl assms(2)] obtain m
    where m: "of_int z / (2::rat) powi (expo (of_int z) - 52) = of_int m" .
  then have "of_int m * (2::rat) powi (expo (of_int z) - 52) = of_int z" by (simp add: field_simps)
  with m x show ?thesis by (simp add: fl64_def Let_def)
qed (simp add: fl64_def)

lemma float64_exact: "uint tot < 2 ^ 53 \<Longrightarrow> float64 tot = of_int (uint tot)"
  unfolding float64_def by (rule fl64_int [OF uint_ge_0])

section \<open>The budget\<close>

lemma memFraction_range: "0 < memFraction v \<and> memFraction v \<le> 1"
  by (auto simp: memFraction_def split: option.split)

lemma memBudget_le:
  assumes "uint tot < 2 ^ 53" "0 < f" "f \<le> 1"
  shows "uint (memBudget tot f) \<le> uint tot"
proof -
  let ?z = "\<lfloor>fl64 (float64 tot * f)\<rfloor>"
  have "(0::rat) \<le> of_int (uint tot)" by (simp only: of_int_0_le_iff uint_ge_0)
  then have "float64 tot * f \<le> of_int (uint tot)"
    unfolding float64_exact [OF assms(1)] using assms(2,3) by (metis mult_left_le)
  then have "fl64 (float64 tot * f) \<le> of_int (uint tot)" by (rule fl64_le [OF _ uint_ge_0 assms(1)])
  then have "?z \<le> \<lfloor>of_int (uint tot) :: rat\<rfloor>" by (rule floor_mono)
  then have fl: "?z \<le> uint tot" by (simp only: floor_of_int)
  have nn: "0 \<le> ?z" by (simp add: fl64_nonneg)
  have "uint (memBudget tot f) = ?z mod 2 ^ 64"
    by (simp only: memBudget_def uint_word_of_int) simp
  also have "\<dots> \<le> ?z" using nn by (rule zmod_le_nonneg_dividend)
  finally show ?thesis using fl by (rule order.trans)
qed

lemma div_le_self: "uint (a :: 64 word) div uint (p :: 64 word) \<le> uint a"
proof (cases "uint p = 0")
  case False
  then have "1 \<le> uint p" using uint_ge_0 [of p] by linarith
  from zdiv_mono2 [OF uint_ge_0 zero_less_one this] show ?thesis by simp
qed simp

lemma div_mult_down: "0 \<le> a \<Longrightarrow> 0 \<le> p \<Longrightarrow> (a::int) div p * p \<le> a"
  using pos_mod_sign [of p a] by (cases "p = 0") (simp_all add: minus_mod_eq_div_mult [symmetric])

lemma div_less_mult: "0 < p \<Longrightarrow> (a::int) div p < k \<Longrightarrow> a < k * p"
proof -
  assume p: "0 < p" and "a div p < k"
  then have "(a div p + 1) * p \<le> k * p" by (intro mult_right_mono) simp_all
  then have "a div p * p + p \<le> k * p" by (simp only: distrib_right mult_1)
  with pos_mod_bound [OF p, of a] div_mult_mod_eq [of a p] show "a < k * p" by linarith
qed

text \<open>Half of an even total is exact.\<close>

lemma memBudget_half:
  assumes "uint tot = 2 * z" "0 \<le> z" "z < 2 ^ 52"
  shows "uint (memBudget tot (1 / 2)) = z"
proof -
  have "uint tot < 2 ^ 53" using assms(1,3) by simp
  from float64_exact [OF this] have "float64 tot * (1 / 2) = of_int z"
    unfolding assms(1) by simp
  moreover have "fl64 (of_int z) = of_int z" using assms(2,3) by (intro fl64_int) simp_all
  ultimately have "memBudget tot (1 / 2) = word_of_int z" by (simp add: memBudget_def)
  then show ?thesis using assms(2,3) by (simp add: uint_word_of_int)
qed

lemma sint_small: "uint (w :: 64 word) < 2 ^ 63 \<Longrightarrow> sint w = uint w"
  unfolding sint_uint
  by (rule signed_take_bit_int_eq_self [OF order.trans [OF _ uint_ge_0]]) simp_all

lemma uint_below: "uint (w :: 64 word) < 2 ^ 64"
  using uint_bounded [of w] by simp

lemma CapWorkers_half:
  assumes "uint tot = 2 * z" "0 < z" "z < 2 ^ 52" "per \<noteq> 0"
  shows "CapWorkers tot (1 / 2) per req =
    (let safe = max (z div uint per) 1 in if req \<le> safe then Some (req, False) else Some (safe, True))"
proof -
  have "uint (memBudget tot (1 / 2) div per) = z div uint per"
    using memBudget_half [OF assms(1) _ assms(3)] assms(2) by (simp add: uint_div)
  moreover have "z div uint per < 2 ^ 63"
    using div_le_self [of "memBudget tot (1 / 2)" per] memBudget_half [OF assms(1) _ assms(3)] assms(2,3) by simp
  ultimately have "sint (memBudget tot (1 / 2) div per) = z div uint per" using sint_small by metis
  moreover have "tot \<noteq> 0" using assms(1,2) by auto
  ultimately show ?thesis using assms(4) by (auto simp: CapWorkers_def MemSafeWorkers_def Let_def)
qed

lemma default_settings: "perWorkerMemBytes [] = 6442450944" "memFraction [] = 1 / 2"
  by (simp_all add: perWorkerMemBytes_def perWorkerMB_def memFraction_def push_bit_eq_mult)

section \<open>The unit of a reported size\<close>

lemma unitOf_range:
  fixes b :: "64 word"
  assumes "uint n = uint b div 1024 ^ (ex + 1)" "uint dv = 1024 ^ (ex + 1)" "1 \<le> uint n"
    and "unitOf n dv ex = (dv', ex')"
  shows "uint dv' = 1024 ^ (ex' + 1) \<and> uint dv' \<le> uint b \<and> uint b < 1024 * uint dv' \<and> ex' < 6"
  using assms
proof (induction n dv ex rule: unitOf.induct)
  case (1 n dv ex)
  have pow: "k < 6" if "(1024::int) ^ (k + 1) \<le> uint b" for k
  proof (rule ccontr)
    assume "\<not> k < 6"
    then have "(1024::int) ^ 7 \<le> 1024 ^ (k + 1)" by (intro power_increasing) simp_all
    with that uint_below [of b] show False by simp
  qed
  have le: "uint n * 1024 ^ (ex + 1) \<le> uint b" unfolding 1(2) by (rule div_mult_down) simp_all
  show ?case
  proof (cases "n \<ge> 1024")
    case True
    then have n: "1024 \<le> uint n" by (simp add: word_le_def)
    then have "1024 * 1024 ^ (ex + 1) \<le> uint n * (1024::int) ^ (ex + 1)" by (intro mult_right_mono) simp_all
    from order.trans [OF this le] have big: "(1024::int) ^ (ex + 1 + 1) \<le> uint b" by simp
    from pow [OF big] have "(1024::int) ^ (ex + 1 + 1) \<le> 1024 ^ 6" by (intro power_increasing) simp_all
    then have "uint (dv * 1024) = 1024 ^ (ex + 1 + 1)"
      using 1(3) by (simp add: uint_word_ariths mod_pos_pos_trivial)
    moreover have "uint (n div 1024) = uint b div 1024 ^ (ex + 1 + 1)"
      unfolding power_add [of _ "ex + 1"] by (subst zdiv_zmult2_eq) (simp_all only: uint_div 1(2), simp_all)
    moreover have "1 \<le> uint (n div 1024)" using n by (simp add: uint_div)
    ultimately show ?thesis using 1(1) [OF True] 1(5) True unitOf.simps [of n dv ex] by simp
  next
    case False
    then have n: "uint n < 1024" by (simp add: word_le_def)
    from 1(5) False have r: "dv' = dv" "ex' = ex" by (simp_all add: unitOf.simps [of n dv ex])
    have "1 * 1024 ^ (ex + 1) \<le> uint n * (1024::int) ^ (ex + 1)" using 1(4) by (intro mult_right_mono) simp_all
    from order.trans [OF this le] have lo: "(1024::int) ^ (ex + 1) \<le> uint b" by simp
    moreover have "uint b < 1024 * (1024::int) ^ (ex + 1)"
      using div_less_mult [of "1024 ^ (ex + 1)" "uint b" 1024] n unfolding 1(2) by simp
    ultimately show ?thesis using 1(3) pow [OF lo] by (simp add: r)
  qed
qed

section \<open>Reading a fraction\<close>

lemma floatDigits_decimal:
  "decimal m ds = Some n \<Longrightarrow> ds \<noteq> [] \<or> saw \<Longrightarrow> floatDigits 10 True saw m k ds = (True, n, k + length ds, [])"
proof (induction ds arbitrary: m k saw)
  case (Cons c ds)
  then obtain d where d: "digitVal c = Some d" "decimal (10 * m + d) ds = Some n" by (auto split: option.splits)
  then have "digitOf c = Some d" "d < 10" "c \<noteq> CHR ''_''" "c \<noteq> CHR ''.''"
    by (auto simp: digitVal_def digitOf_def less_eq_char_def Let_def split: if_splits)
  with Cons.IH [OF d(2), of True "k + 1"] show ?case by (simp add: mult.commute)
qed simp

lemma roundEven_near: "\<bar>of_int (roundEven y) - y\<bar> \<le> 1 / 2"
proof -
  have "of_int \<lfloor>y\<rfloor> \<le> y" "y < of_int \<lfloor>y\<rfloor> + 1" by linarith+
  then show ?thesis unfolding roundEven_def Let_def by (auto simp: abs_le_iff not_less field_simps)
qed

lemma roundEven_ge: "of_int z \<le> y \<Longrightarrow> z \<le> roundEven y"
  by (simp add: roundEven_def Let_def le_floor_iff) linarith

lemma float64Of_near:
  assumes "2 powi (-1022) \<le> x" "x < 1"
  obtains f where "float64Of x = Some f" "0 < f" "f \<le> 1" "\<bar>f - x\<bar> \<le> 2 powi (-54)"
proof -
  have "0 < (2::rat) powi (-1022)" by simp
  with assms(1) have x: "0 < x" by linarith
  let ?k = "expo x"
  note b = expo_bounds [OF x]
  have hi: "?k \<le> -1"
  proof (rule ccontr)
    assume "\<not> ?k \<le> -1"
    then have "(2::rat) powi 0 \<le> 2 powi ?k" by (intro power_int_increasing) simp_all
    with b(1) assms(2) show False by simp
  qed
  have lo: "-1022 \<le> ?k"
  proof (rule ccontr)
    assume "\<not> -1022 \<le> ?k"
    then have "(2::rat) powi (?k + 1) \<le> 2 powi (-1022)" by (intro power_int_increasing) simp_all
    with b(2) assms(1) show False by linarith
  qed
  define s where "s = (2::rat) powi (?k - 52)"
  have s: "0 < s" "s \<le> 2 powi (-53)"
    unfolding s_def by (simp, rule power_int_increasing) (use hi in simp_all)
  define f where "f = of_int (roundEven (x / s)) * s"
  have near: "\<bar>f - x\<bar> \<le> s / 2"
  proof -
    have "\<bar>f - x\<bar> = \<bar>of_int (roundEven (x / s)) - x / s\<bar> * s"
      using s abs_mult [of "of_int (roundEven (x / s)) - x / s" s] by (simp add: f_def left_diff_distrib)
    also have "\<dots> \<le> 1 / 2 * s" by (rule mult_right_mono [OF roundEven_near]) (use s in simp)
    finally show ?thesis by simp
  qed
  have "2 powi ?k / s = 2 powi 52" by (simp add: s_def power_int_diff)
  moreover have "2 powi ?k / s \<le> x / s" using b(1) s by (intro divide_right_mono) simp_all
  ultimately have "of_int (2 ^ 52) \<le> x / s" by simp
  from roundEven_ge [OF this] have pos: "0 < f" using s by (simp add: f_def)
  have "x / s \<le> of_int (2 ^ nat (52 - ?k))"
  proof -
    have "x / s \<le> 1 / s" using assms(2) s by (intro divide_right_mono) simp_all
    also have "1 / s = 2 powi (52 - ?k)" by (simp add: s_def power_int_diff)
    also have "\<dots> = of_int (2 ^ nat (52 - ?k))" using hi by (simp add: power_int_def)
    finally show ?thesis .
  qed
  from roundEven_le [OF this] have "of_int (roundEven (x / s)) * s \<le> of_int (2 ^ nat (52 - ?k)) * s"
    using s by (intro mult_right_mono) (simp_all only: of_int_le_iff order.strict_implies_order)
  also have "of_int (2 ^ nat (52 - ?k)) = (2::rat) powi (52 - ?k)" using hi by (simp add: power_int_def)
  also have "(2::rat) powi (52 - ?k) * s = 1" by (simp add: s_def flip: power_int_add)
  finally have le1: "f \<le> 1" by (simp add: f_def)
  have "max (?k - 52) (-1074) = ?k - 52" using lo by simp
  moreover have "(1::rat) < 2 powi 1024" by simp
  then have "f < 2 powi 1024" using le1 by linarith
  ultimately have "float64Of x = Some f" using x by (simp add: float64Of_def Let_def s_def f_def)
  moreover have "\<bar>f - x\<bar> \<le> 2 powi (-53) / 2" using near s(2) by linarith
  then have "\<bar>f - x\<bar> \<le> 2 powi (-54)" by simp
  ultimately show thesis using pos le1 by (intro that) simp_all
qed

lemma decimal_less: "decimal x ds = Some n \<Longrightarrow> n < (x + 1) * 10 ^ length ds \<and> CHR ''_'' \<notin> set ds"
proof (induction ds arbitrary: x)
  case (Cons c ds)
  then obtain d where d: "digitVal c = Some d" "decimal (10 * x + d) ds = Some n" by (auto split: option.splits)
  then have "d < 10" "c \<noteq> CHR ''_''" by (auto simp: digitVal_def less_eq_char_def split: if_splits)
  with Cons.IH [OF d(2)] have "n < (10 * x + d + 1) * 10 ^ length ds" by simp
  also have "\<dots> \<le> (10 * x + 10) * 10 ^ length ds" by (rule mult_right_mono) (use \<open>d < 10\<close> in simp_all)
  finally show ?case using Cons.IH [OF d(2)] \<open>c \<noteq> CHR ''_''\<close> by (auto simp: algebra_simps)
qed simp

lemma ParseFloat_fraction:
  assumes "decimal 0 ds = Some n"
  shows "ParseFloat (''0.'' @ ds) = float64Of (of_nat n / 10 ^ length ds)"
proof -
  have "floatDigits 10 False False 0 0 (''0.'' @ ds) = (True, n, length ds, [])"
    using floatDigits_decimal [OF assms, of True 0] by (simp add: digitOf_def)
  moreover have "unsignedPart (''0.'' @ ds) = ''0.'' @ ds" "\<not> HasPrefix (''0.'' @ ds) ''-''"
    by (simp_all add: unsignedPart_def HasPrefix_def)
  moreover have "basePrefix (''0.'' @ ds) = None" by (simp add: basePrefix_def lowerByte_def)
  moreover have "CHR ''_'' \<notin> set (''0.'' @ ds)" using decimal_less [OF assms] by simp
  ultimately show ?thesis
    by (simp add: ParseFloat_def Let_def floatTail_def power_int_minus field_simps option.map_ident del: append.simps)
qed

section \<open>The properties\<close>

text \<open>C37. The pool never grows by the cap, and a pool the cap reduces fits: its workers together stay within
  the memory the platform reports, unless not even one does, and then it is the single worker that
  lets the run make progress.\<close>

theorem workers_fit:
  assumes "CapWorkers tot (memFraction v) per requested = Some (c, capped)" "uint tot < 2 ^ 53"
  shows "c \<le> requested \<and> (capped = (c < requested)) \<and>
    (\<not> capped \<or> c = 1 \<or> (1 < c \<and> c * uint per \<le> uint tot))"
proof -
  let ?b = "memBudget tot (memFraction v)"
  have b: "uint ?b \<le> uint tot" using memBudget_le [OF assms(2)] memFraction_range by blast
  have q: "uint (?b div per) = uint ?b div uint per" by (simp add: uint_div)
  also have "\<dots> \<le> uint ?b" by (rule div_le_self)
  also have "\<dots> < 2 ^ 63" using b assms(2) by simp
  finally have "sint (?b div per) = uint ?b div uint per" unfolding q [symmetric] by (rule sint_small)
  moreover have "uint ?b div uint per * uint per \<le> uint tot"
    using b div_mult_down [OF uint_ge_0 uint_ge_0, of ?b per] by linarith
  ultimately show ?thesis
    using assms(1) by (auto simp: CapWorkers_def MemSafeWorkers_def max_def split: if_splits)
qed

theorem workers_fit_witness: "(2::int) * uint (perWorkerMemBytes []) \<le> uint (25769803776 :: 64 word)"
proof -
  have "CapWorkers 25769803776 (memFraction []) (perWorkerMemBytes []) 22 = Some (2, True)"
    unfolding default_settings by (subst CapWorkers_half [where z = 12884901888]) simp_all
  from workers_fit [OF this] show ?thesis by simp
qed

text \<open>The memory override can make the cap panic: shifting the megabytes to bytes drops the high bits, so
  exactly the values that are a multiple of \<open>2 ^ 44\<close> leave a zero divisor.\<close>

theorem override_panics:
  assumes "tot \<noteq> 0"
  shows "CapWorkers tot f (perWorkerMemBytes v) requested = None \<longleftrightarrow> 2 ^ 44 dvd uint (perWorkerMB v)"
proof -
  have "perWorkerMemBytes v = 0 \<longleftrightarrow> uint (perWorkerMemBytes v) = 0" by (simp add: uint_0_iff)
  also have "uint (perWorkerMemBytes v) = (uint (perWorkerMB v) * 2 ^ 20) mod 2 ^ 64"
    by (simp add: perWorkerMemBytes_def push_bit_eq_mult uint_word_ariths)
  also have "\<dots> = 0 \<longleftrightarrow> 2 ^ 44 * 2 ^ 20 dvd uint (perWorkerMB v) * 2 ^ 20" by (simp add: mod_eq_0_iff_dvd)
  also have "\<dots> \<longleftrightarrow> 2 ^ 44 dvd uint (perWorkerMB v)" by (subst dvd_times_right_cancel_iff) simp_all
  finally show ?thesis
    using assms by (auto simp: CapWorkers_def MemSafeWorkers_def)
qed

theorem override_panics_witness: "CapWorkers 1 (1 / 2) (perWorkerMemBytes ''17592186044416'') 4 = None"
proof (subst override_panics)
  have "perWorkerMB ''17592186044416'' = 17592186044416"
    by (simp add: perWorkerMB_def parseUint_def digitVal_def)
  then show "2 ^ 44 dvd uint (perWorkerMB ''17592186044416'')" by simp
qed simp

text \<open>The share of the memory is the one the user wrote: a decimal fraction is read to the nearest float64.\<close>

theorem fraction_read:
  assumes "decimal 0 ds = Some n" "2 powi (-1022) \<le> (of_nat n / 10 ^ length ds :: rat)"
  shows "\<bar>memFraction (''0.'' @ ds) - of_nat n / 10 ^ length ds\<bar> \<le> 2 powi (-54)"
proof -
  have "n < 10 ^ length ds" using decimal_less [OF assms(1)] by simp
  then have "(of_nat n :: rat) < of_nat (10 ^ length ds)" by (simp only: of_nat_less_iff)
  then have "(of_nat n / 10 ^ length ds :: rat) < 1" by simp
  from float64Of_near [OF assms(2) this] obtain f where f: "float64Of (of_nat n / 10 ^ length ds) = Some f" "0 < f" "f \<le> 1"
    "\<bar>f - of_nat n / 10 ^ length ds\<bar> \<le> 2 powi (-54)" .
  then show ?thesis
    using ParseFloat_fraction [OF assms(1)] by (simp add: memFraction_def)
qed

theorem fraction_read_witness: "\<bar>memFraction ''0.75'' - 75 / 100\<bar> \<le> 2 powi (-54)"
  using fraction_read [of "''75''" 75] by (simp add: digitVal_def power_int_minus)

text \<open>A reported size always has a unit letter, and the number before it is at least one and below 1024.\<close>

theorem human_bytes_range:
  "case humanBytes b of
     None \<Rightarrow> False
   | Some (Plain q) \<Rightarrow> q = b \<and> uint b < 1024
   | Some (Scaled q dv u) \<Rightarrow>
       q = b \<and> uint dv \<le> uint b \<and> uint b < 1024 * uint dv \<and>
       (\<exists>k. k < 6 \<and> uint dv = 1024 ^ (k + 1) \<and> u = ''KMGTPE'' ! k)"
proof (cases "b < 1024")
  case True
  then show ?thesis by (simp add: humanBytes_def word_less_def)
next
  case False
  then have b: "1024 \<le> uint b" by (simp add: word_less_def)
  obtain dv ex where u: "unitOf (b div 1024) 1024 0 = (dv, ex)" by (cases "unitOf (b div 1024) 1024 0")
  have "uint dv = 1024 ^ (ex + 1) \<and> uint dv \<le> uint b \<and> uint b < 1024 * uint dv \<and> ex < 6"
    by (rule unitOf_range [OF _ _ _ u]) (use b in \<open>simp_all add: uint_div\<close>)
  then show ?thesis using False u by (auto simp: humanBytes_def)
qed

text \<open>The sizes the code's comment calibrates for: two workers on 24 GB, one on 16 GB, five on 64 GB.\<close>

theorem documented_sizes:
  "map (\<lambda>gb. CapWorkers (gb * 1073741824) (memFraction []) (perWorkerMemBytes []) 22) [24, 16, 64]
     = [Some (2, True), Some (1, True), Some (5, True)]"
  unfolding default_settings list.map
  by (simp add: CapWorkers_half [where z = 12884901888] CapWorkers_half [where z = 8589934592]
        CapWorkers_half [where z = 34359738368])

end
