(* ===== verification/Duration.thy ===== *)
theory Duration
  imports SysinfoFacts
begin

text \<open>
  \<open>time.Duration\<close>'s \<open>String\<close> and \<open>time.ParseDuration\<close>, digit by digit: the 64-bit sums that can wrap, the
  overflow tests, and the float64 arithmetic of fractions. The run timeout goes to the workers as the
  first and comes back through the second.
\<close>

section \<open>Printing\<close>

definition digitChar :: "nat \<Rightarrow> char" where
  "digitChar d = char_of (48 + d)"

text \<open>\<open>fmtFrac\<close>: \<open>n\<close> more digits of \<open>v\<close> from the last, trailing zeros left out.\<close>

fun fracLoop :: "nat \<Rightarrow> nat \<Rightarrow> bool \<Rightarrow> string \<Rightarrow> bool \<times> string \<times> nat" where
  "fracLoop 0 v print acc = (print, acc, v)"
| "fracLoop (Suc n) v print acc =
     (let p = print \<or> v mod 10 \<noteq> 0 in
      fracLoop n (v div 10) p (if p then digitChar (v mod 10) # acc else acc))"

definition fmtFrac :: "nat \<Rightarrow> nat \<Rightarrow> string \<times> nat" where
  "fmtFrac v prec =
     (let (print, acc, w) = fracLoop prec v False [] in (if print then CHR ''.'' # acc else acc, w))"

definition microSign :: string where
  "microSign = [CHR 0xC2, CHR 0xB5]"

text \<open>The magnitude, below a second and from a second on.\<close>

definition formatSmall :: "nat \<Rightarrow> string" where
  "formatSmall u =
     (if u = 0 then ''0s''
      else
        (let (prec, unit) =
               (if u < 1000 then (0, ''n'') else if u < 1000000 then (3, microSign) else (6, ''m''));
             (fr, w) = fmtFrac u prec
         in itoa w @ fr @ unit @ ''s''))"

definition formatLarge :: "nat \<Rightarrow> string" where
  "formatLarge u =
     (let (fr, s) = fmtFrac u 9; m = s div 60; h = m div 60 in
      (if m > 0 then (if h > 0 then itoa h @ ''h'' else []) @ itoa (m mod 60) @ ''m'' else []) @
      itoa (s mod 60) @ fr @ ''s'')"

definition formatDuration :: "int \<Rightarrow> string" where
  "formatDuration d =
     (let u = nat \<bar>d\<bar> in
      (if d < 0 then ''-'' else []) @ (if u < 1000000000 then formatSmall u else formatLarge u))"

section \<open>Parsing\<close>

text \<open>\<open>leadingInt\<close>; \<open>None\<close> is its overflow error.\<close>

fun leadingInt :: "nat \<Rightarrow> string \<Rightarrow> (nat \<times> string) option" where
  "leadingInt x [] = Some (x, [])"
| "leadingInt x (c # s) =
     (case digitVal c of
        None \<Rightarrow> Some (x, c # s)
      | Some d \<Rightarrow>
          (if x > 2 ^ 63 div 10 then None
           else if x * 10 + d > 2 ^ 63 then None else leadingInt (x * 10 + d) s))"

text \<open>\<open>leadingFraction\<close>: digits past the overflow are skipped.\<close>

fun leadingFraction :: "nat \<Rightarrow> rat \<Rightarrow> bool \<Rightarrow> string \<Rightarrow> nat \<times> rat \<times> string" where
  "leadingFraction x scale over [] = (x, scale, [])"
| "leadingFraction x scale over (c # s) =
     (case digitVal c of
        None \<Rightarrow> (x, scale, c # s)
      | Some d \<Rightarrow>
          (if over \<or> x > (2 ^ 63 - 1) div 10 \<or> x * 10 + d > 2 ^ 63 then leadingFraction x scale True s
           else leadingFraction (x * 10 + d) (fl64 (scale * 10)) False s))"

definition unitMap :: "(string \<times> nat) list" where
  "unitMap =
     [(''ns'', 1), (''us'', 1000), (microSign @ ''s'', 1000), ([CHR 0xCE, CHR 0xBC] @ ''s'', 1000),
      (''ms'', 1000000), (''s'', 1000000000), (''m'', 60000000000), (''h'', 3600000000000)]"

definition unitChar :: "char \<Rightarrow> bool" where
  "unitChar c \<longleftrightarrow> c \<noteq> CHR ''.'' \<and> digitVal c = None"

text \<open>What can be wrong with a text: its shape or size, a number without a unit, or an unknown unit.\<close>

datatype duration_error = Invalid | MissingUnit | UnknownUnit string

text \<open>A number and its unit: the nanoseconds, and the rest.\<close>

definition durationPart :: "string \<Rightarrow> duration_error + nat \<times> string" where
  "durationPart s =
     (if s = [] \<or> (hd s \<noteq> CHR ''.'' \<and> digitVal (hd s) = None) then Inl Invalid
      else
        (case leadingInt 0 s of
           None \<Rightarrow> Inl Invalid
         | Some (v, s1) \<Rightarrow>
             (let pre = (length s1 \<noteq> length s);
                  (f, scale, s2) =
                    (if s1 \<noteq> [] \<and> hd s1 = CHR ''.'' then leadingFraction 0 1 False (tl s1) else (0, 1, s1));
                  post = (s1 \<noteq> [] \<and> hd s1 = CHR ''.'' \<and> length s2 \<noteq> length (tl s1));
                  u = takeWhile unitChar s2
              in if \<not> pre \<and> \<not> post then Inl Invalid
                 else if u = [] then Inl MissingUnit
                 else
                   (case map_of unitMap u of
                      None \<Rightarrow> Inl (UnknownUnit u)
                    | Some unit \<Rightarrow>
                        (if v > 2 ^ 63 div unit then Inl Invalid
                         else
                           (let w = v * unit +
                                (if f > 0 then nat \<lfloor>fl64 (fl64 (of_nat f) * fl64 (of_nat unit / scale))\<rfloor> else 0)
                            in if f > 0 \<and> w > 2 ^ 63 then Inl Invalid
                               else Inr (w, dropWhile unitChar s2)))))))"

lemma leadingInt_suffix: "leadingInt x s = Some (v, t) \<Longrightarrow> \<exists>a. s = a @ t"
proof (induction s arbitrary: x)
  case (Cons c s)
  show ?case
  proof (cases "digitVal c")
    case (Some d)
    with Cons.prems have "leadingInt (x * 10 + d) s = Some (v, t)" by (auto split: if_splits)
    with Cons.IH show ?thesis by (metis append_Cons)
  qed (use Cons.prems in auto)
qed auto

lemma leadingFraction_suffix: "leadingFraction x scale over s = (f, sc, t) \<Longrightarrow> \<exists>a. s = a @ t"
proof (induction s arbitrary: x scale over)
  case (Cons c s)
  show ?case
  proof (cases "digitVal c")
    case (Some d)
    with Cons.prems obtain x' sc' over' where "leadingFraction x' sc' over' s = (f, sc, t)"
      by (auto split: if_splits)
    with Cons.IH show ?thesis by (metis append_Cons)
  qed (use Cons.prems in auto)
qed auto

lemma durationPart_shorter: "durationPart s = Inr (w, t) \<Longrightarrow> length t < length s"
proof -
  assume p: "durationPart s = Inr (w, t)"
  then obtain v s1 where s1: "leadingInt 0 s = Some (v, s1)"
    by (auto simp: durationPart_def split: if_splits option.splits)
  obtain f sc s2 where s2: "(if s1 \<noteq> [] \<and> hd s1 = CHR ''.'' then leadingFraction 0 1 False (tl s1) else (0, 1, s1)) = (f, sc, s2)"
    by (metis prod_cases3)
  from p have t: "t = dropWhile unitChar s2" "takeWhile unitChar s2 \<noteq> []"
    by (auto simp: durationPart_def s1 s2 Let_def split: if_splits option.splits)
  from t have "length t < length s2"
    by (metis append_eq_conv_conj length_append length_greater_0_conv less_add_same_cancel2 takeWhile_dropWhile_id)
  also have "length s2 \<le> length s1"
  proof (cases "s1 \<noteq> [] \<and> hd s1 = CHR ''.''")
    case True
    with s2 leadingFraction_suffix [of 0 1 False "tl s1" f sc s2] obtain a where "tl s1 = a @ s2" by auto
    then have "length s2 \<le> length (tl s1)" by simp
    then show ?thesis by simp
  qed (use s2 in auto)
  also have "length s1 \<le> length s" using leadingInt_suffix [OF s1] by auto
  finally show ?thesis .
qed

text \<open>The loop over the parts; the sum is a 64-bit word before it is tested.\<close>

function durationSum :: "nat \<Rightarrow> string \<Rightarrow> duration_error + nat" where
  "durationSum d s =
     (if s = [] then Inr d
      else
        (case durationPart s of
           Inl e \<Rightarrow> Inl e
         | Inr (v, t) \<Rightarrow>
             (if (d + v) mod 2 ^ 64 > 2 ^ 63 then Inl Invalid else durationSum ((d + v) mod 2 ^ 64) t)))"
  by pat_completeness auto
termination
  by (relation "measure (\<lambda>(d, s). length s)") (auto dest: durationPart_shorter)

declare durationSum.simps [simp del]

definition durationValue :: "string \<Rightarrow> duration_error + int" where
  "durationValue s =
     (let neg = HasPrefix s ''-''; t = (if HasPrefix s ''-'' \<or> HasPrefix s ''+'' then tl s else s) in
      if t = ''0'' then Inr 0
      else if t = [] then Inl Invalid
      else
        (case durationSum 0 t of
           Inl e \<Rightarrow> Inl e
         | Inr d \<Rightarrow>
             (if neg then Inr (- int d) else if d > 2 ^ 63 - 1 then Inl Invalid else Inr (int d))))"

text \<open>The error texts; \<open>quote\<close> escapes by hand what is not printable ASCII.\<close>

definition hexDigitOf :: "nat \<Rightarrow> char" where
  "hexDigitOf n = ''0123456789abcdef'' ! n"

definition quoteByte :: "char \<Rightarrow> string" where
  "quoteByte c =
     (let n = (of_char c :: nat) in
      if n < 32 \<or> 128 \<le> n then BSLASH # ''x'' @ [hexDigitOf (n div 16), hexDigitOf (n mod 16)]
      else if c = DQUOTE \<or> c = BSLASH then [BSLASH, c] else [c])"

definition timeQuote :: "string \<Rightarrow> string" where
  "timeQuote s = DQUOTE # concat (map quoteByte s) @ [DQUOTE]"

definition durationErrorText :: "string \<Rightarrow> duration_error \<Rightarrow> string" where
  "durationErrorText s e =
     (case e of
        Invalid \<Rightarrow> ''time: invalid duration '' @ timeQuote s
      | MissingUnit \<Rightarrow> ''time: missing unit in duration '' @ timeQuote s
      | UnknownUnit u \<Rightarrow> ''time: unknown unit '' @ timeQuote u @ '' in duration '' @ timeQuote s)"

definition ParseDuration :: "string \<Rightarrow> goerror + int" where
  "ParseDuration s =
     (case durationValue s of Inl e \<Rightarrow> Inl (Msg (durationErrorText s e)) | Inr d \<Rightarrow> Inr d)"

end
