(* ===== verification/DurationFacts.thy ===== *)
theory DurationFacts
  imports Duration
begin

text \<open>
  \<open>ParseDuration\<close> reads back what \<open>String\<close> prints, for every 64-bit duration: the fractions are at most nine
  digits, so the float64 arithmetic in between is exact.
\<close>

section \<open>Digits\<close>

fun padDigits :: "nat \<Rightarrow> nat \<Rightarrow> string" where
  "padDigits 0 v = []"
| "padDigits (Suc n) v = padDigits n (v div 10) @ [digitChar (v mod 10)]"

lemma digitVal_digitChar: "d < 10 \<Longrightarrow> digitVal (digitChar d) = Some d"
  by (simp add: digitChar_def digitVal_digit)

lemma fracLoop_printing:
  "fracLoop n v True acc = (True, padDigits n v @ acc, v div 10 ^ n)"
  by (induction n arbitrary: v acc) (simp_all add: div_mult2_eq)

lemma fracLoop_trims:
  "if v mod 10 ^ n = 0 then fracLoop n v False [] = (False, [], v div 10 ^ n)
   else \<exists>k<n. 10 ^ k dvd v \<and> fracLoop n v False [] = (True, padDigits (n - k) (v div 10 ^ k), v div 10 ^ n)"
proof (induction n arbitrary: v)
  case (Suc n)
  have m: "v mod 10 ^ Suc n = v mod 10 + 10 * (v div 10 mod 10 ^ n)"
    by (simp add: mod_mult2_eq [of v 10 "10 ^ n"])
  show ?case
  proof (cases "v mod 10 = 0")
    case False
    with m have "v mod 10 ^ Suc n \<noteq> 0" by simp
    moreover have "fracLoop (Suc n) v False [] = (True, padDigits (Suc n - 0) (v div 10 ^ 0), v div 10 ^ Suc n)"
      using False by (simp add: fracLoop_printing div_mult2_eq)
    ultimately show ?thesis by (simp only: if_False) (intro exI [of _ 0], simp)
  next
    case True
    then have step: "fracLoop (Suc n) v False [] = fracLoop n (v div 10) False []" by simp
    have d: "v div 10 ^ Suc n = v div 10 div 10 ^ n" by (simp add: div_mult2_eq)
    show ?thesis
    proof (cases "v div 10 mod 10 ^ n = 0")
      case z: True
      with Suc.IH [of "v div 10"] have "fracLoop n (v div 10) False [] = (False, [], v div 10 ^ Suc n)"
        unfolding d by simp
      moreover have "v mod 10 ^ Suc n = 0" using m z True by simp
      ultimately show ?thesis using step by simp
    next
      case nz: False
      with Suc.IH [of "v div 10"] obtain k where k: "k < n" "10 ^ k dvd v div 10"
        "fracLoop n (v div 10) False [] = (True, padDigits (n - k) (v div 10 div 10 ^ k), v div 10 ^ Suc n)"
        unfolding d by auto
      have "v = 10 * (v div 10)" using True by presburger
      then have "10 ^ Suc k dvd v" using k(2) by (metis mult_dvd_mono dvd_refl power_Suc)
      moreover have "v div 10 div 10 ^ k = v div 10 ^ Suc k" by (simp add: div_mult2_eq)
      moreover have "v mod 10 ^ Suc n \<noteq> 0" using m nz by simp
      ultimately show ?thesis using k(1,3) step
        by (simp only: if_False) (intro exI [of _ "Suc k"], simp)
    qed
  qed
qed simp

lemma leadingInt_digits:
  assumes "rest = [] \<or> digitVal (hd rest) = None"
  shows "decimal x ds = Some v \<Longrightarrow> v \<le> 2 ^ 63 \<Longrightarrow> leadingInt x (ds @ rest) = Some (v, rest)"
proof (induction ds arbitrary: x)
  case Nil
  with assms show ?case by (cases rest) auto
next
  case (Cons c ds)
  then obtain d where d: "digitVal c = Some d" "decimal (10 * x + d) ds = Some v" by (auto split: option.splits)
  have "10 * x + d \<le> v" using d(2)
  proof (induction ds arbitrary: x d)
    case (Cons c ds)
    then obtain e where "decimal (10 * (10 * x + d) + e) ds = Some v" by (auto split: option.splits)
    from Cons.IH [OF this] show ?case by simp
  qed simp
  with Cons.prems(2) have b: "x * 10 + d \<le> 2 ^ 63" by simp
  then have "x \<le> 2 ^ 63 div 10" by simp
  with b Cons.IH [OF d(2) Cons.prems(2)] d(1) show ?case by (simp add: mult.commute)
qed

lemma leadingInt_itoa:
  "rest = [] \<or> digitVal (hd rest) = None \<Longrightarrow> v \<le> 2 ^ 63 \<Longrightarrow> leadingInt 0 (itoa v @ rest) = Some (v, rest)"
  using leadingInt_digits [of rest 0 "itoa v" v] decimal_itoa by simp

lemma leadingFraction_digits:
  "(x + 1) * 10 ^ n \<le> 10 ^ 9 \<Longrightarrow> s * 10 ^ n \<le> 10 ^ 9 \<Longrightarrow>
   leadingFraction x (of_nat s) False (padDigits n w @ rest) =
     leadingFraction (x * 10 ^ n + w mod 10 ^ n) (of_nat (s * 10 ^ n)) False rest"
proof (induction n arbitrary: w rest)
  case (Suc n)
  let ?y = "x * 10 ^ n + w div 10 mod 10 ^ n"
  have small: "(x + 1) * 10 ^ n \<le> 10 ^ 9" "s * 10 ^ n \<le> 10 ^ 9" using Suc.prems by simp_all
  have "leadingFraction x (of_nat s) False (padDigits (Suc n) w @ rest) =
      leadingFraction ?y (of_nat (s * 10 ^ n)) False (digitChar (w mod 10) # rest)"
    using Suc.IH [OF small, of "w div 10" "digitChar (w mod 10) # rest"] by simp
  also have "\<dots> = leadingFraction (?y * 10 + w mod 10) (fl64 (of_nat (s * 10 ^ n) * 10)) False rest"
  proof -
    have "w div 10 mod 10 ^ n < 10 ^ n" by simp
    then have "?y < (x + 1) * 10 ^ n" by (simp add: algebra_simps)
    with small(1) have "?y < 10 ^ 9" by linarith
    then have "\<not> (?y > (2 ^ 63 - 1) div 10 \<or> ?y * 10 + w mod 10 > 2 ^ 63)" by simp
    then show ?thesis by (simp add: digitVal_digitChar)
  qed
  also have "fl64 (of_nat (s * 10 ^ n) * 10) = of_nat (s * 10 ^ Suc n)"
  proof -
    define z where "z = s * 10 ^ Suc n"
    have "z \<le> 10 ^ 9" using Suc.prems(2) by (simp only: z_def)
    then have "int z < 2 ^ 53" by simp
    then have "fl64 (of_int (int z)) = of_int (int z)" by (intro fl64_int) simp_all
    then have "fl64 (of_nat z) = of_nat z" by simp
    moreover have "of_nat (s * 10 ^ n) * 10 = (of_nat z :: rat)" by (simp add: z_def)
    ultimately show ?thesis by (simp only: z_def)
  qed
  also have "?y * 10 + w mod 10 = x * 10 ^ Suc n + w mod 10 ^ Suc n"
    by (simp add: mod_mult2_eq [of w 10 "10 ^ n"] algebra_simps)
  finally show ?case .
qed simp

lemma fmtFrac_cases:
  obtains (whole) "v mod 10 ^ n = 0" "fmtFrac v n = ([], v div 10 ^ n)"
  | (frac) m w where "m \<le> n" "0 < w mod 10 ^ m" "w mod 10 ^ m * 10 ^ (n - m) = v mod 10 ^ n"
      "fmtFrac v n = (CHR ''.'' # padDigits m w, v div 10 ^ n)"
proof (cases "v mod 10 ^ n = 0")
  case True
  with fracLoop_trims [of v n] show thesis by (intro whole) (simp_all add: fmtFrac_def)
next
  case False
  with fracLoop_trims [of v n] obtain k where k: "k < n" "10 ^ k dvd v"
    "fracLoop n v False [] = (True, padDigits (n - k) (v div 10 ^ k), v div 10 ^ n)" by auto
  have "10 ^ n = (10 ^ k * 10 ^ (n - k) :: nat)" using k(1) by (simp flip: power_add)
  then have v: "v mod 10 ^ n = v div 10 ^ k mod 10 ^ (n - k) * 10 ^ k"
    using k(2) mod_mult2_eq [of v "10 ^ k" "10 ^ (n - k)"] by (simp add: mult.commute dvd_imp_mod_0)
  with False have "0 < v div 10 ^ k mod 10 ^ (n - k)" by (metis gr0I mult_0)
  with v k show thesis by (intro frac [of "n - k" "v div 10 ^ k"]) (simp_all add: fmtFrac_def)
qed

lemma itoa_0: "itoa 0 = ''0''"
  by code_simp

section \<open>Parts\<close>

text \<open>A unit of the map stands complete: what follows it is a digit or nothing.\<close>

definition wholeUnit :: "string \<Rightarrow> nat \<Rightarrow> bool" where
  "wholeUnit u n \<longleftrightarrow> u \<noteq> [] \<and> list_all unitChar u \<and> map_of unitMap u = Some n"

definition numberNext :: "string \<Rightarrow> bool" where
  "numberNext s \<longleftrightarrow> s = [] \<or> digitVal (hd s) \<noteq> None"

lemma wholeUnits:
  "wholeUnit ''ns'' (10 ^ 0)" "wholeUnit (microSign @ ''s'') (10 ^ 3)" "wholeUnit ''ms'' (10 ^ 6)"
  "wholeUnit ''s'' (10 ^ 9)" "wholeUnit ''m'' 60000000000" "wholeUnit ''h'' 3600000000000"
  by (simp_all add: wholeUnit_def unitMap_def microSign_def unitChar_def digitVal_def less_eq_char_def)

lemma unit_span:
  assumes "wholeUnit u n" "numberNext rest"
  shows "takeWhile unitChar (u @ rest) = u" "dropWhile unitChar (u @ rest) = rest"
proof -
  have "rest = [] \<or> \<not> unitChar (hd rest)" using assms(2) by (auto simp: numberNext_def unitChar_def)
  then have "takeWhile unitChar rest = []" "dropWhile unitChar rest = rest" by (cases rest; auto)+
  moreover have "\<forall>c \<in> set u. unitChar c" using assms(1) by (simp add: wholeUnit_def list_all_iff)
  ultimately show "takeWhile unitChar (u @ rest) = u" "dropWhile unitChar (u @ rest) = rest"
    by (simp_all add: takeWhile_append dropWhile_append)
qed

lemma unit_head: "wholeUnit u n \<Longrightarrow> u \<noteq> [] \<and> digitVal (hd u) = None \<and> hd u \<noteq> CHR ''.''"
  by (cases u) (auto simp: wholeUnit_def unitChar_def)

lemma itoa_head: "itoa w @ s \<noteq> [] \<and> digitVal (hd (itoa w @ s)) \<noteq> None"
proof -
  obtain c cs where "itoa w = c # cs" by (cases "itoa w") simp_all
  with itoa_digits [of c w] show ?thesis by simp
qed

lemma durationPart_whole:
  assumes "wholeUnit u n" "numberNext rest" "w * n \<le> 2 ^ 63" "0 < n"
  shows "durationPart (itoa w @ u @ rest) = Inr (w * n, rest)"
proof -
  have "w \<le> w * n" using assms(4) by simp
  then have "w \<le> 2 ^ 63" using assms(3) by linarith
  then have i: "leadingInt 0 (itoa w @ u @ rest) = Some (w, u @ rest)"
    using unit_head [OF assms(1)] by (intro leadingInt_itoa) auto
  have "w \<le> 2 ^ 63 div n" using assms(3,4) by (simp add: less_eq_div_iff_mult_less_eq)
  then show ?thesis
    using itoa_head [of w "u @ rest"] unit_head [OF assms(1)] unit_span [OF assms(1,2)] assms(1)
    by (simp add: durationPart_def i wholeUnit_def Let_def)
qed

text \<open>Up to nine digits the scaling of a fraction to nanoseconds is exact in float64.\<close>

lemma scaled_fraction:
  assumes "m \<le> n" "n \<le> 9" "r = y * 10 ^ (n - m)" "r < 10 ^ n"
  shows "nat \<lfloor>fl64 (fl64 (of_nat y) * fl64 (of_nat (10 ^ n) / of_nat (10 ^ m)))\<rfloor> = r"
proof -
  have g: "(of_nat (10 ^ n) :: rat) / of_nat (10 ^ m) = of_nat (10 ^ (n - m))"
  proof -
    have "(10 :: rat) ^ n = 10 ^ m * 10 ^ (n - m)" using assms(1) by (simp flip: power_add)
    then show ?thesis by simp
  qed
  have small: "fl64 (of_nat x) = of_nat x" if "x \<le> 10 ^ 9" for x :: nat
  proof -
    have "int x < 2 ^ 53" using that by simp
    then have "fl64 (of_int (int x)) = of_int (int x)" by (intro fl64_int) simp_all
    then show ?thesis by simp
  qed
  have "10 ^ n \<le> (10 ^ 9 :: nat)" "10 ^ (n - m) \<le> (10 ^ 9 :: nat)" using assms(2) by (intro power_increasing; simp)+
  moreover have "y \<le> r" by (simp add: assms(3))
  ultimately have b: "10 ^ (n - m) \<le> (10 ^ 9 :: nat)" "r \<le> 10 ^ 9" "y \<le> 10 ^ 9" using assms(4) by linarith+
  have "fl64 (fl64 (of_nat y) * fl64 (of_nat (10 ^ n) / of_nat (10 ^ m))) = of_nat r"
    unfolding g small [OF b(1)] small [OF b(3)] using small [OF b(2)] assms(3) by (metis of_nat_mult)
  then show ?thesis by (simp only: floor_of_nat nat_int)
qed

lemma durationPart_frac:
  assumes "wholeUnit u (10 ^ n)" "numberNext rest" "w * 10 ^ n + v mod 10 ^ n \<le> 2 ^ 63" "n \<le> 9"
    and "fmtFrac v n = (fr, w')"
  shows "durationPart (itoa w @ fr @ u @ rest) = Inr (w * 10 ^ n + v mod 10 ^ n, rest)"
proof (cases rule: fmtFrac_cases [of v n])
  case whole
  then have "v mod 10 ^ n = 0" "fr = []" using assms(5) by auto
  with durationPart_whole [OF assms(1,2), of w] assms(3) show ?thesis by simp
next
  case (frac m x)
  let ?f = "x mod 10 ^ m"
  have fr: "fr = CHR ''.'' # padDigits m x" using frac(4) assms(5) by auto
  have "w \<le> w * 10 ^ n" by simp
  then have "w \<le> 2 ^ 63" using assms(3) by linarith
  then have i: "leadingInt 0 (itoa w @ fr @ u @ rest) = Some (w, fr @ u @ rest)"
    using fr by (intro leadingInt_itoa) (simp_all add: digitVal_def less_eq_char_def)
  have "(0 + 1) * 10 ^ m \<le> (10 ^ 9 :: nat)" "1 * 10 ^ m \<le> (10 ^ 9 :: nat)"
  proof -
    have "10 ^ m \<le> (10 ^ 9 :: nat)" using frac(1) assms(4) by (intro power_increasing) simp_all
    then show "(0 + 1) * 10 ^ m \<le> (10 ^ 9 :: nat)" "1 * 10 ^ m \<le> (10 ^ 9 :: nat)" by simp_all
  qed
  from leadingFraction_digits [OF this, of x "u @ rest"] unit_head [OF assms(1)]
  have l: "leadingFraction 0 1 False (padDigits m x @ u @ rest) = (?f, of_nat (10 ^ m), u @ rest)"
    by (cases u) auto
  have s: "nat \<lfloor>fl64 (fl64 (of_nat ?f) * fl64 (of_nat (10 ^ n) / of_nat (10 ^ m)))\<rfloor> = v mod 10 ^ n"
    using frac(1,3) assms(4) by (intro scaled_fraction) simp_all
  have q: "w \<le> 2 ^ 63 div 10 ^ n" using assms(3) by (simp add: less_eq_div_iff_mult_less_eq)
  show ?thesis
    using itoa_head [of w "fr @ u @ rest"] unit_head [OF assms(1)] unit_span [OF assms(1,2)] assms(1,3) q frac(2) fr
    unfolding durationPart_def i
    by (simp add: l wholeUnit_def Let_def s del: of_nat_power)
qed

section \<open>The round trip\<close>

lemma durationSum_part:
  "durationPart s = Inr (v, t) \<Longrightarrow> d + v \<le> 2 ^ 63 \<Longrightarrow> durationSum d s = durationSum (d + v) t"
  by (subst durationSum.simps) (auto simp: durationPart_def)

lemma durationSum_Nil [simp]: "durationSum d [] = Inr d"
  by (simp add: durationSum.simps)

lemma sum_small:
  assumes "u < 1000000000"
  shows "durationSum 0 (formatSmall u) = Inr u"
proof (cases "u = 0")
  case True
  have "durationPart (itoa 0 @ ''s'' @ []) = Inr (0 * 10 ^ 9, [])"
    by (rule durationPart_whole [OF wholeUnits(4)]) (simp_all add: numberNext_def)
  from durationSum_part [OF this, of 0] True show ?thesis by (simp add: formatSmall_def itoa_0)
next
  case False
  have part: "durationSum 0 (itoa w @ fr @ x @ []) = Inr u"
    if "fmtFrac u n = (fr, w)" "wholeUnit x (10 ^ n)" "n \<le> 9" for n fr w x
  proof -
    have "w = u div 10 ^ n" using that(1) by (cases rule: fmtFrac_cases [of u n]) auto
    then have "w * 10 ^ n + u mod 10 ^ n = u" by (simp only: div_mult_mod_eq)
    with durationPart_frac [OF that(2) _ _ that(3,1), of "[]" w] assms
    have "durationPart (itoa w @ fr @ x @ []) = Inr (u, [])" by (simp add: numberNext_def)
    from durationSum_part [OF this, of 0] assms show ?thesis by simp
  qed
  show ?thesis
  proof -
    consider "u < 1000" | "1000 \<le> u" "u < 1000000" | "1000000 \<le> u" by linarith
    then show ?thesis
    proof cases
      case 1
      obtain fr w where f: "fmtFrac u 0 = (fr, w)" by (cases "fmtFrac u 0")
      from part [OF f wholeUnits(1)] 1 False show ?thesis by (simp add: formatSmall_def f)
    next
      case 2
      obtain fr w where f: "fmtFrac u 3 = (fr, w)" by (cases "fmtFrac u 3")
      from part [OF f wholeUnits(2)] 2 show ?thesis by (simp add: formatSmall_def f)
    next
      case 3
      obtain fr w where f: "fmtFrac u 6 = (fr, w)" by (cases "fmtFrac u 6")
      from part [OF f wholeUnits(3)] 3 show ?thesis by (simp add: formatSmall_def f)
    qed
  qed
qed

lemma numberNext_itoa: "numberNext (itoa w @ s)"
  using itoa_head by (simp add: numberNext_def)

text \<open>Hours, minutes and seconds of a number of nanoseconds.\<close>

lemma clock_split:
  fixes u :: nat
  assumes "s = u div 10 ^ 9" "m = s div 60" "h = m div 60"
  shows "u = h * 3600000000000 + m mod 60 * 60000000000 + (s mod 60 * 10 ^ 9 + u mod 10 ^ 9)"
proof -
  have "u = s * 10 ^ 9 + u mod 10 ^ 9" unfolding assms(1) by (rule div_mult_mod_eq [symmetric])
  moreover have "s = m * 60 + s mod 60" unfolding assms(2) by (rule div_mult_mod_eq [symmetric])
  moreover have "m = h * 60 + m mod 60" unfolding assms(3) by (rule div_mult_mod_eq [symmetric])
  ultimately have "u = ((h * 60 + m mod 60) * 60 + s mod 60) * 10 ^ 9 + u mod 10 ^ 9" by metis
  then show ?thesis by (simp add: add_mult_distrib)
qed

lemma sum_seconds:
  assumes "fmtFrac u 9 = (fr, w)" "d + (x * 10 ^ 9 + u mod 10 ^ 9) \<le> 2 ^ 63"
  shows "durationSum d (itoa x @ fr @ ''s'') = Inr (d + (x * 10 ^ 9 + u mod 10 ^ 9))"
proof -
  have "x * 10 ^ 9 + u mod 10 ^ 9 \<le> 2 ^ 63" using assms(2) by linarith
  from durationPart_frac [OF wholeUnits(4) _ this _ assms(1), of "[]"]
  have "durationPart (itoa x @ fr @ ''s'') = Inr (x * 10 ^ 9 + u mod 10 ^ 9, [])" by (simp add: numberNext_def)
  from durationSum_part [OF this assms(2)] show ?thesis by simp
qed

text \<open>A whole part in front of a sum that follows.\<close>

lemma sum_whole:
  assumes "wholeUnit x n" "d + w * n \<le> 2 ^ 63" "0 < n" "numberNext rest" "durationSum (d + w * n) rest = r"
  shows "durationSum d (itoa w @ x @ rest) = r"
proof -
  have "w * n \<le> 2 ^ 63" using assms(2) by linarith
  from durationPart_whole [OF assms(1,4) this assms(3)] have "durationPart (itoa w @ x @ rest) = Inr (w * n, rest)" .
  from durationSum_part [OF this assms(2)] assms(5) show ?thesis by simp
qed

lemma sum_large:
  assumes "u \<le> 2 ^ 63"
  shows "durationSum 0 (formatLarge u) = Inr u"
proof -
  obtain fr s where f: "fmtFrac u 9 = (fr, s)" by (cases "fmtFrac u 9")
  then have s: "s = u div 10 ^ 9" by (cases rule: fmtFrac_cases [of u 9]) auto
  define m h where "m = s div 60" and "h = m div 60"
  note u = clock_split [OF s m_def h_def]
  have min: "durationSum d (itoa (m mod 60) @ ''m'' @ itoa (s mod 60) @ fr @ ''s'') =
      Inr (d + m mod 60 * 60000000000 + (s mod 60 * 10 ^ 9 + u mod 10 ^ 9))"
    if "d + m mod 60 * 60000000000 + (s mod 60 * 10 ^ 9 + u mod 10 ^ 9) \<le> 2 ^ 63" for d
    using that by (intro sum_whole [OF wholeUnits(5) _ _ numberNext_itoa] sum_seconds [OF f]) simp_all
  have bound: "h * 3600000000000 + m mod 60 * 60000000000 + (s mod 60 * 10 ^ 9 + u mod 10 ^ 9) \<le> 2 ^ 63"
    using assms u by simp
  consider "m = 0" | "0 < m" "h = 0" | "0 < h" by blast
  then show ?thesis
  proof cases
    case 1
    then have "formatLarge u = itoa (s mod 60) @ fr @ ''s''"
      by (simp add: formatLarge_def f Let_def flip: m_def)
    with sum_seconds [OF f, of 0 "s mod 60"] 1 u assms show ?thesis by (simp add: h_def)
  next
    case 2
    then have "formatLarge u = itoa (m mod 60) @ ''m'' @ itoa (s mod 60) @ fr @ ''s''"
      by (simp add: formatLarge_def f Let_def flip: m_def h_def)
    with min [of 0] 2 u assms show ?thesis by simp
  next
    case 3
    then have "0 < m" by (simp add: h_def)
    with 3 have large: "formatLarge u = itoa h @ ''h'' @ itoa (m mod 60) @ ''m'' @ itoa (s mod 60) @ fr @ ''s''"
      by (simp add: formatLarge_def f Let_def flip: m_def h_def)
    have "durationSum (0 + h * 3600000000000) (itoa (m mod 60) @ ''m'' @ itoa (s mod 60) @ fr @ ''s'') = Inr u"
      unfolding add_0 min [OF bound] u [symmetric] ..
    from sum_whole [OF wholeUnits(6) _ _ numberNext_itoa this] bound show ?thesis by (simp add: large)
  qed
qed

lemma format_shape:
  obtains w s where "(if u < 1000000000 then formatSmall u else formatLarge u) = itoa w @ s" "s \<noteq> []"
proof (cases "u < 1000000000")
  case True
  show thesis
  proof (cases "u = 0")
    case z: True
    with that [of 0 "''s''"] show thesis by (simp add: formatSmall_def itoa_0)
  next
    case False
    obtain p :: nat and x where px: "(if u < 1000 then (0, ''n'') else if u < 1000000 then (3, microSign) else (6, ''m'')) = (p, x)"
      by fastforce
    obtain fr w where "fmtFrac u p = (fr, w)" by fastforce
    with False px True have "(if u < 1000000000 then formatSmall u else formatLarge u) = itoa w @ fr @ x @ ''s''"
      by (simp add: formatSmall_def)
    with that show thesis by simp
  qed
next
  case False
  obtain fr s where f: "fmtFrac u 9 = (fr, s)" by (cases "fmtFrac u 9")
  consider "s div 60 = 0" | "0 < s div 60" "s div 60 div 60 = 0" | "0 < s div 60 div 60" "0 < s div 60" by fastforce
  then show thesis
  proof cases
    case 1
    with False that [of "s mod 60" "fr @ ''s''"] show thesis by (simp add: formatLarge_def f Let_def)
  next
    case 2
    with False that [of "s div 60 mod 60" "''m'' @ itoa (s mod 60) @ fr @ ''s''"] show thesis
      by (simp add: formatLarge_def f Let_def)
  next
    case 3
    with False that [of "s div 60 div 60" "''h'' @ itoa (s div 60 mod 60) @ ''m'' @ itoa (s mod 60) @ fr @ ''s''"]
    show thesis by (simp add: formatLarge_def f Let_def)
  qed
qed

lemma formatDuration_nonempty: "formatDuration d \<noteq> []"
  by (rule format_shape [of "nat \<bar>d\<bar>"]) (simp add: formatDuration_def)

lemma durations_return:
  assumes "- (2 ^ 63) \<le> d" "d < 2 ^ 63"
  shows "ParseDuration (formatDuration d) = Inr d"
proof -
  let ?u = "nat \<bar>d\<bar>"
  let ?t = "if ?u < 1000000000 then formatSmall ?u else formatLarge ?u"
  have b: "?u \<le> 2 ^ 63" using assms by simp
  have sum: "durationSum 0 ?t = Inr ?u" using sum_small [of ?u] sum_large [OF b] by simp
  obtain w s where t: "?t = itoa w @ s" "s \<noteq> []" by (rule format_shape)
  from itoa_head [of w s] t(1) have head: "?t \<noteq> []" "digitVal (hd ?t) \<noteq> None" by simp_all
  then have "hd ?t \<noteq> CHR ''-''" "hd ?t \<noteq> CHR ''+''" by (auto simp: digitVal_def)
  with head(1) have plain: "\<not> HasPrefix ?t ''-''" "\<not> HasPrefix ?t ''+''" by (cases ?t; simp add: HasPrefix_def)+
  have "itoa w @ s \<noteq> [x]" for x using t(2) by (cases "itoa w") simp_all
  then have "?t \<noteq> ''0''" unfolding t(1) by blast
  with plain head(1) sum b assms show ?thesis
    unfolding formatDuration_def ParseDuration_def durationValue_def Let_def
    by (cases "d < 0") (simp_all add: HasPrefix_def)
qed

text \<open>A duration passed on as text comes back unchanged, to the nanosecond, whatever 64-bit value it is.\<close>

theorem duration_roundtrip:
  assumes "- (2 ^ 63) \<le> d" "d < 2 ^ 63"
  shows "ParseDuration (formatDuration d) = Inr d"
  using assms by (rule durations_return)

theorem duration_roundtrip_witness: "ParseDuration (formatDuration 90000000000) = Inr 90000000000"
  by (rule duration_roundtrip) simp_all

end
