(* ===== verification/Worker.thy ===== *)
theory Worker
  imports AotFacts DurationFacts
begin

text \<open>
  \<open>pkg/tc39/worker.go\<close>'s \<open>WorkerMain\<close>: the subprocess that reads one JSON job per line and writes one
  JSON result per line. Its settings come from the environment (an unset variable is the empty
  string). Parameters are the text of a JSON error, which only goes to the console, how the writes to the
  orchestrator turn out, and \<open>world\<close>, what each job meets, given the run timeout and the job's position.
\<close>

section \<open>Settings\<close>

record workerEnv =
  weMemLimit :: string
  weModuleRoot :: string
  weRunTimeout :: string
  weRuntimeHash :: string
  weTailCache :: string

text \<open>The heap limit to set, if any.\<close>

definition memLimitSetting :: "string \<Rightarrow> int option" where
  "memLimitSetting v =
     (if v \<noteq> [] then (case parseInt 64 v of Some n \<Rightarrow> if n > 0 then Some n else None | None \<Rightarrow> None)
      else None)"

record settings =
  stRoot :: string
  stTimeout :: int
  stTail :: "cache option"
  stHash :: string

definition workerSettings :: "filesystem \<Rightarrow> workerEnv \<Rightarrow> goerror + settings" where
  "workerSettings fs we =
     (if weModuleRoot we = [] then Inl (Msg ''worker: BENTO_MODULE_ROOT is not set'')
      else
        case (if weRunTimeout we = [] then Inr (10 * 1000000000)
              else ParseDuration (weRunTimeout we)) of
          Inl e \<Rightarrow> Inl (Wrapped ''worker: BENTO262_RUN_TIMEOUT'' e)
        | Inr timeout \<Rightarrow>
            let s = \<lparr>stRoot = weModuleRoot we, stTimeout = timeout, stTail = None, stHash = weRuntimeHash we\<rparr> in
            if weTailCache we \<noteq> [] \<and> weRuntimeHash we \<noteq> [] then
              (case LoadCache unmarshalEntry fs (weTailCache we) of
                 (t, Some e) \<Rightarrow> Inl (Wrapped ''worker: load tail cache'' e)
               | (t, None) \<Rightarrow> Inr (s\<lparr>stTail := t\<rparr>))
            else Inr s)"

section \<open>Serving\<close>

definition workerLineLimit :: nat where "workerLineLimit = 64 * 1024 * 1024"

definition executeJob ::
  "(string \<Rightarrow> string) \<Rightarrow> settings \<Rightarrow> (int \<Rightarrow> nat \<Rightarrow> aotEnv) \<Rightarrow> nat \<Rightarrow> job \<Rightarrow> result" where
  "executeJob sha s world n j =
     fst (ExecuteAOT sha (world (stTimeout s) n) (stRoot s) (stTail s) (stHash s) j {})"

text \<open>
  The loop over the lines: the results written, and the error that ended it. \<open>emit\<close> is how encoding
  and writing the \<open>n\<close>th result turns out, \<open>bad\<close> the text of the error about a line.
\<close>

fun serve ::
  "(string \<Rightarrow> string) \<Rightarrow> (nat \<Rightarrow> job \<Rightarrow> result) \<Rightarrow> (nat \<Rightarrow> goerror option) \<Rightarrow> nat \<Rightarrow> string list \<Rightarrow>
   result list \<times> goerror option" where
  "serve bad execute emit n [] = ([], None)"
| "serve bad execute emit n (line # lines) =
     (case unmarshalJob line of
        None \<Rightarrow> ([], Some (Wrapped ''worker: bad job line'' (Msg (bad line))))
      | Some j \<Rightarrow>
          (let r = execute n j in
           case emit n of
             Some e \<Rightarrow> ([], Some e)
           | None \<Rightarrow>
               (let (rs, err) = serve bad execute emit (n + 1) lines in (r # rs, err))))"

text \<open>The heap limit set, the results written, and the error returned.\<close>

definition WorkerMain ::
  "(string \<Rightarrow> string) \<Rightarrow> (string \<Rightarrow> string) \<Rightarrow> (nat \<Rightarrow> goerror option) \<Rightarrow> (int \<Rightarrow> nat \<Rightarrow> aotEnv) \<Rightarrow>
   filesystem \<Rightarrow> workerEnv \<Rightarrow> string \<Rightarrow> int option \<times> result list \<times> goerror option" where
  "WorkerMain sha bad emit world fs we input =
     (memLimitSetting (weMemLimit we),
      (case workerSettings fs we of
         Inl e \<Rightarrow> ([], Some e)
       | Inr s \<Rightarrow>
           (let (lines, tooLong) = scanLines workerLineLimit input;
                (rs, err) = serve bad (executeJob sha s world) emit 0 lines
            in (rs, if err = None \<and> tooLong then Some (Msg ''bufio.Scanner: token too long'') else err))))"

text \<open>What goes over the pipe: a job, written by the orchestrator, and the results a worker wrote.\<close>

definition jobLineText :: "job \<Rightarrow> string" where
  "jobLineText j = marshalJob j @ [NL]"

definition resultsText :: "result list \<Rightarrow> string" where
  "resultsText rs = concat (map (\<lambda>r. marshalResult r @ [NL]) rs)"

section \<open>Facts\<close>

lemma executeJob_runs:
  "aotRuns sha (stRoot s) (stTail s) (stHash s) j (executeJob sha s world n j)"
  by (auto simp: aotRuns_def executeJob_def)

text \<open>A served prefix: as many results as lines, each for the job of its line.\<close>

lemma serve_prefix:
  assumes "\<And>n j. runs j (execute n j)" "serve bad execute emit n lines = (rs, err)"
  shows "length rs \<le> length lines \<and>
    list_all2 (\<lambda>line r. \<exists>j. unmarshalJob line = Some j \<and> runs j r) (take (length rs) lines) rs \<and>
    (err = None) = (length rs = length lines)"
  using assms(2)
proof (induction lines arbitrary: n rs err)
  case (Cons line lines)
  show ?case
  proof (cases "unmarshalJob line")
    case None
    with Cons.prems show ?thesis by auto
  next
    case (Some j)
    show ?thesis
    proof (cases "emit n")
      case None
      obtain rs' err' where s: "serve bad execute emit (n + 1) lines = (rs', err')"
        by (cases "serve bad execute emit (n + 1) lines")
      from Cons.IH [OF s] assms(1) [of j n] Cons.prems Some None s show ?thesis by auto
    next
      case (Some e)
      with \<open>unmarshalJob line = Some j\<close> Cons.prems have "rs = []" "err = Some e" by simp_all
      then show ?thesis by simp
    qed
  qed
qed simp

lemma serve_all:
  "list_all2 (\<lambda>line j. unmarshalJob line = Some j) lines js \<Longrightarrow> (\<And>n. emit n = None) \<Longrightarrow>
   serve bad execute emit n lines = (map (\<lambda>(i, j). execute i j) (enumerate n js), None)"
  by (induction lines js arbitrary: n rule: list_all2_induct) simp_all

text \<open>The lines the orchestrator writes are the lines a worker scans.\<close>

lemma scan_jobs:
  assumes "list_all (\<lambda>j. length (marshalJob j) < workerLineLimit) js"
  shows "scanLines workerLineLimit (concat (map jobLineText js)) = (map marshalJob js, False)"
proof -
  have "concat (map jobLineText js) = concat (map (\<lambda>j. marshalJob j @ [NL]) js)"
    by (simp add: jobLineText_def [abs_def])
  then have "rawLines (concat (map jobLineText js)) = map marshalJob js" by (simp only: jobLine.raw)
  with assms scanLines_all [of "concat (map jobLineText js)" workerLineLimit] show ?thesis
    by (simp add: list_all_iff dropCR_id jobLine.one_line(2))
qed

section \<open>The properties\<close>

text \<open>A worker never answers out of turn: what it has written at any moment it may die answers the first
  lines it read, in order, each with what running the decoded job gives; and it ends without an error
  only once every line is answered.\<close>

theorem worker_answers:
  assumes "workerSettings fs we = Inr s"
    and "WorkerMain sha bad emit world fs we input = (limit, rs, err)"
    and "scanLines workerLineLimit input = (lines, tooLong)"
  shows "list_all2 (\<lambda>line r. \<exists>j. unmarshalJob line = Some j \<and> aotRuns sha (stRoot s) (stTail s) (stHash s) j r)
      (take (length rs) lines) rs \<and>
    (err = None) = (length rs = length lines \<and> \<not> tooLong)"
proof -
  obtain rs' err' where v: "serve bad (executeJob sha s world) emit 0 lines = (rs', err')"
    by (cases "serve bad (executeJob sha s world) emit 0 lines")
  from assms have r: "rs = rs'" "err = (if err' = None \<and> tooLong then Some (Msg ''bufio.Scanner: token too long'') else err')"
    by (simp_all add: WorkerMain_def v)
  from serve_prefix [where runs = "aotRuns sha (stRoot s) (stTail s) (stHash s)", OF executeJob_runs v] r
  show ?thesis by auto
qed

definition plainEnv :: workerEnv where
  "plainEnv = \<lparr>weMemLimit = [], weModuleRoot = ''/m'', weRunTimeout = [], weRuntimeHash = ''rt'', weTailCache = []\<rparr>"

lemma plainEnv_settings:
  "workerSettings [] plainEnv = Inr \<lparr>stRoot = ''/m'', stTimeout = 10000000000, stTail = None, stHash = ''rt''\<rparr>"
  by (simp add: workerSettings_def plainEnv_def)

lemma exampleJob_length: "length (marshalJob exampleJob) < workerLineLimit"
proof -
  have "length (marshalJob exampleJob) \<le> 6 * 40 + 100"
    using escape_length [of "''id''"] escape_length [of "''name''"] escape_length [of "''source''"]
      escape_length [of "''a.js#strict''"] escape_length [of "''/a.js''"] escape_length [of "''x''"]
    by (simp add: marshalJob_def jobJson_def omitEmpty_def exampleJob_def quoted_def)
  also have "\<dots> < workerLineLimit" by (simp add: workerLineLimit_def)
  finally show ?thesis .
qed

lemma exampleJob_scan: "scanLines workerLineLimit (concat (map jobLineText [exampleJob])) = ([marshalJob exampleJob], False)"
  using scan_jobs [of "[exampleJob]"] exampleJob_length by simp

theorem worker_answers_witness:
  "\<exists>limit rs err. WorkerMain (\<lambda>s. s) (\<lambda>l. []) (\<lambda>n. None) (\<lambda>t n. exampleEnv) [] plainEnv
       (concat (map jobLineText [exampleJob])) = (limit, rs, err) \<and> (err = None) = (length rs = 1)"
proof -
  let ?w = "WorkerMain (\<lambda>s. s) (\<lambda>l. []) (\<lambda>n. None) (\<lambda>t n. exampleEnv) [] plainEnv (concat (map jobLineText [exampleJob]))"
  obtain limit rs err where w: "?w = (limit, rs, err)" by (cases ?w)
  from worker_answers [OF plainEnv_settings w exampleJob_scan] w show ?thesis by auto
qed

text \<open>C26. The two ends of the pipe agree: a worker given the jobs an orchestrator writes, one JSON line each,
  answers every one of them, in order and under its ID, with what running it gives; the texts of a job
  arrive as valid UTF-8. All it takes is that no line reaches the scanner's limit.\<close>

theorem worker_protocol:
  assumes "workerSettings fs we = Inr s"
    and "list_all (\<lambda>j. length (marshalJob j) < workerLineLimit) js"
    and "\<And>n. emit n = None"
  shows "\<exists>rs. snd (WorkerMain sha bad emit world fs we (concat (map jobLineText js))) = (rs, None) \<and>
           list_all2 (aotRuns sha (stRoot s) (stTail s) (stHash s)) (map validJob js) rs \<and>
           map rID rs = map (toValid \<circ> jID) js"
proof -
  have dec: "list_all2 (\<lambda>line j. unmarshalJob line = Some j) (map marshalJob js) (map validJob js)"
    by (simp add: list_all2_map1 list_all2_map2 list_all2_same unmarshal_marshalJob)
  define rs where "rs = map (\<lambda>(i, j). executeJob sha s world i j) (enumerate 0 (map validJob js))"
  have runs: "list_all2 (aotRuns sha (stRoot s) (stTail s) (stHash s)) (map validJob js) rs"
    by (simp add: rs_def list_all2_conv_all_nth nth_enumerate_eq executeJob_runs)
  have "snd (WorkerMain sha bad emit world fs we (concat (map jobLineText js))) = (rs, None)"
    by (simp add: WorkerMain_def assms(1) scan_jobs [OF assms(2)] serve_all [OF dec assms(3)] rs_def)
  moreover have "map rID rs = map (toValid \<circ> jID) js"
    using process.answers_ids [OF runs] by (simp add: comp_def validJob_def)
  ultimately show ?thesis using runs by blast
qed

theorem worker_protocol_witness:
  "\<exists>rs. snd (WorkerMain (\<lambda>s. s) (\<lambda>l. []) (\<lambda>n. None) (\<lambda>t n. exampleEnv) [] plainEnv
       (concat (map jobLineText [exampleJob]))) = (rs, None) \<and> map rID rs = [toValid ''a.js#strict'']"
  using worker_protocol [OF plainEnv_settings, where js = "[exampleJob]" and emit = "\<lambda>n. None" and sha = "\<lambda>s. s"
      and world = "\<lambda>t n. exampleEnv" and bad = "\<lambda>l. []"] exampleJob_length
  by (auto simp: exampleJob_def)

end
