(* ===== verification/Pipe.thy ===== *)
theory Pipe
  imports Worker Orchestrator
begin

text \<open>
  The pipe between the orchestrator and a worker process: \<open>worker.send\<close> of \<open>orchestrator.go\<close> byte by byte
  on one end, \<open>WorkerMain\<close> on the other. Both sides frame JSON by newlines and read it with a line
  scanner of the same limit.
\<close>

section \<open>Sending\<close>

text \<open>What the goroutine that scans the worker's output finds before the deadline, if anything.\<close>

datatype scanned = ScannedLine string | ScanEnded "string option" | NothingYet

text \<open>\<open>writeErr\<close> is the error of writing \<open>jobLineText\<close> to the worker's input, \<open>bad\<close> the text of the error about a
  line. (Marshalling a job, whose fields are strings, booleans and lists of them, never fails.)\<close>

definition sendReply :: "(string \<Rightarrow> string) \<Rightarrow> string option \<Rightarrow> scanned \<Rightarrow> reply" where
  "sendReply bad writeErr out =
     (case writeErr of
        Some e \<Rightarrow> WriteFails e
      | None \<Rightarrow>
          (case out of
             ScanEnded err \<Rightarrow> Dies (case err of None \<Rightarrow> ''EOF'' | Some e \<Rightarrow> e)
           | ScannedLine l \<Rightarrow> (case unmarshalResult l of None \<Rightarrow> Dies (bad l) | Some r \<Rightarrow> Answers r)
           | NothingYet \<Rightarrow> NoAnswer))"

text \<open>The scanner's \<open>n\<close>th \<open>Scan\<close> of all the bytes a process wrote before it ended.\<close>

definition nthScan :: "nat \<Rightarrow> string \<Rightarrow> scanned" where
  "nthScan n out =
     (let (lines, tooLong) = scanLines workerLineLimit out in
      if n < length lines then ScannedLine (lines ! n)
      else ScanEnded (if tooLong then Some ''bufio.Scanner: token too long'' else None))"

section \<open>Facts\<close>

lemma nthScan_torn:
  assumes "list_all (\<lambda>r. length (marshalResult r) < workerLineLimit) (r # rs)" "p = [] \<or> (\<exists>q. p @ q = marshalResult r)"
  shows "nthScan n (resultsText rs @ p) =
    (if n < length rs then ScannedLine (marshalResult (rs ! n))
     else if n = length rs \<and> p \<noteq> [] then ScannedLine p else ScanEnded None)"
proof -
  let ?all = "map marshalResult rs @ (if p = [] then [] else [p])"
  have raw: "rawLines (resultsText rs @ p) = ?all"
    unfolding resultsText_def using assms(2) by (intro resultLine.raw_torn) auto
  have p: "NL \<notin> set p \<and> CR \<notin> set p \<and> length p \<le> length (marshalResult r)"
    using assms(2) resultLine.torn_line [of p _ r] by auto
  then have "\<forall>l \<in> set ?all. length l < workerLineLimit" using assms(1) by (auto simp: list_all_iff)
  then have "scanLines workerLineLimit (resultsText rs @ p) = (map dropCR ?all, False)"
    using scanLines_all [of "resultsText rs @ p" workerLineLimit] raw by simp
  moreover have "map dropCR ?all = ?all" using p by (simp add: dropCR_id resultLine.one_line(2))
  ultimately show ?thesis by (auto simp: nthScan_def nth_append)
qed

lemma resultsText_take: "m < length rs \<Longrightarrow>
    length (resultsText (take (Suc m) rs)) = length (resultsText (take m rs)) + length (marshalResult (rs ! m)) + 1"
  by (simp add: resultsText_def take_Suc_conv_app_nth)

lemma resultsText_mono: "length (resultsText (take m rs)) \<le> length (resultsText (take (m + k) rs))"
  by (simp add: resultsText_def take_add)

lemma resultsText_all: "length (resultsText (take m rs)) \<le> length (resultsText rs)"
proof -
  have "resultsText rs = resultsText (take m rs) @ resultsText (drop m rs)"
    unfolding resultsText_def concat_append [symmetric] map_append [symmetric] append_take_drop_id ..
  then show ?thesis by simp
qed

lemma worker_runs_wire:
  "validUtf8 (jID j) \<Longrightarrow> aotRuns sha dir tail rt (validJob j) r \<Longrightarrow> workerRuns sha dir rt j (validResult r)"
  by (auto simp: workerRuns_def)

text \<open>Each result a worker wrote answers the job in its place.\<close>

lemma served_answer:
  assumes "workerSettings fs we = Inr s"
    and "WorkerMain sha bad emit world fs we (concat (map jobLineText js)) = (limit, rs, err)"
    and "list_all (\<lambda>j. length (marshalJob j) < workerLineLimit \<and> validUtf8 (jID j)) js"
    and "n < length js" "n < length rs"
  shows "workerRuns sha (stRoot s) (stHash s) (js ! n) (validResult (rs ! n)) \<and> rID (validResult (rs ! n)) = jID (js ! n)"
proof -
  have scan: "scanLines workerLineLimit (concat (map jobLineText js)) = (map marshalJob js, False)"
    using assms(3) by (intro scan_jobs) (auto simp: list_all_iff)
  obtain err' where v: "serve bad (executeJob sha s world) emit 0 (map marshalJob js) = (rs, err')"
    using assms(2) by (auto simp: WorkerMain_def assms(1) scan split: prod.splits)
  have served: "list_all2 (\<lambda>line r. \<exists>j. unmarshalJob line = Some j \<and>
      aotRuns sha (stRoot s) (stTail s) (stHash s) j r) (take (length rs) (map marshalJob js)) rs"
    using serve_prefix [where runs = "aotRuns sha (stRoot s) (stTail s) (stHash s)", OF executeJob_runs v] by simp
  from list_all2_nthD2 [OF served assms(5)] assms(4,5)
  have "aotRuns sha (stRoot s) (stTail s) (stHash s) (validJob (js ! n)) (rs ! n)"
    by (auto simp: unmarshal_marshalJob)
  moreover have "validUtf8 (jID (js ! n))" using assms(3,4) by (simp add: list_all_length)
  ultimately have w: "workerRuns sha (stRoot s) (stHash s) (js ! n) (validResult (rs ! n))"
    using worker_runs_wire by blast
  with aot.runs_id [OF w] show ?thesis by simp
qed

text \<open>What each scan of a cut stream finds: the whole results before the cut, then the torn one.\<close>

lemma nthScan_cut:
  assumes "list_all (\<lambda>r. length (marshalResult r) < workerLineLimit) rs"
  obtains m p where "m \<le> length rs" "p = [] \<or> m < length rs \<and> (\<exists>q. p @ q = marshalResult (rs ! m))"
    "take k (resultsText rs) = resultsText (take m rs) @ p"
    "nthScan n (take k (resultsText rs)) =
      (if n < m then ScannedLine (marshalResult (rs ! n))
       else if n = m \<and> p \<noteq> [] then ScannedLine p else ScanEnded None)"
proof -
  obtain m p where m: "m \<le> length rs" "p = [] \<or> m < length rs \<and> (\<exists>q. p @ q = marshalResult (rs ! m))"
    "take k (resultsText rs) = resultsText (take m rs) @ p"
    unfolding resultsText_def by (rule resultLine.cut)
  have "nthScan n (take k (resultsText rs)) =
      (if n < m then ScannedLine (marshalResult (rs ! n))
       else if n = m \<and> p \<noteq> [] then ScannedLine p else ScanEnded None)"
  proof (cases "m < length rs")
    case True
    have l: "list_all (\<lambda>r. length (marshalResult r) < workerLineLimit) (rs ! m # take m rs)"
      using assms True by (auto simp: list_all_iff dest: in_set_takeD)
    have "p = [] \<or> (\<exists>q. p @ q = marshalResult (rs ! m))" using m(2) by blast
    from nthScan_torn [OF l this, of n] m(1) True show ?thesis by (simp add: m(3) min_absorb2)
  next
    case False
    then have p: "p = []" "take m rs = rs" "m = length rs" using m by auto
    show ?thesis
    proof (cases rs)
      case Nil
      with m(1) p(1) show ?thesis by (simp add: m(3) nthScan_def resultsText_def scanLines_def Let_def)
    next
      case (Cons x xs)
      then have "list_all (\<lambda>r. length (marshalResult r) < workerLineLimit) (x # rs)" using assms by simp
      from nthScan_torn [OF this, of "[]" n] show ?thesis by (simp add: m(3) p)
    qed
  qed
  with m show thesis by (intro that) auto
qed

text \<open>The answer is within the first \<open>k\<close> bytes, its newline aside.\<close>

definition writtenBy :: "result list \<Rightarrow> nat \<Rightarrow> nat \<Rightarrow> bool" where
  "writtenBy rs n k \<longleftrightarrow>
     n < length rs \<and> length (concat (map (\<lambda>r. marshalResult r @ [NL]) (take n rs))) + length (marshalResult (rs ! n)) \<le> k"

lemma writtenBy_text:
  "writtenBy rs n k \<longleftrightarrow> n < length rs \<and> length (resultsText (take n rs)) + length (marshalResult (rs ! n)) \<le> k"
  by (simp add: writtenBy_def resultsText_def)

text \<open>Where the cut falls says which answers were written.\<close>

lemma cut_written:
  assumes "take k (resultsText rs) = resultsText (take m rs) @ p" "m \<le> length rs"
    and "p = [] \<or> m < length rs \<and> (\<exists>q. p @ q = marshalResult (rs ! m))"
  shows "writtenBy rs n k \<longleftrightarrow> n < m \<or> n = m \<and> m < length rs \<and> p = marshalResult (rs ! m)"
proof -
  have short: "min (length (resultsText rs)) k = length (resultsText (take m rs)) + length p"
    using arg_cong [OF assms(1), of length] by (simp add: min.commute)
  have later: "length (resultsText (take n rs)) + length (marshalResult (rs ! n)) + 1 \<le> length (resultsText rs)"
    if "n < length rs" for n
    using resultsText_take [OF that] resultsText_all [of "Suc n" rs] by simp
  consider "n < m" | "n = m" | "m < n" by linarith
  then show ?thesis
  proof cases
    case 1
    with assms(2) have n: "n < length rs" by simp
    have "length (resultsText (take (Suc n) rs)) \<le> length (resultsText (take m rs))"
      using resultsText_mono [of "Suc n" rs "m - Suc n"] 1 by simp
    with resultsText_take [OF n] short 1 n show ?thesis by (simp add: writtenBy_text)
  next
    case 2
    have "writtenBy rs n k \<longleftrightarrow> m < length rs \<and> length (marshalResult (rs ! m)) \<le> length p"
      using 2 short later [of m] by (auto simp: writtenBy_text)
    moreover have "length (marshalResult (rs ! m)) \<le> length p \<longleftrightarrow> p = marshalResult (rs ! m)" if "m < length rs"
    proof -
      from assms(3) obtain q where "p @ q = marshalResult (rs ! m)" by auto
      then have "length p + length q = length (marshalResult (rs ! m))" by (metis length_append)
      with \<open>p @ q = marshalResult (rs ! m)\<close> show ?thesis by (cases q) auto
    qed
    ultimately show ?thesis using 2 by auto
  next
    case 3
    have "\<not> writtenBy rs n k"
    proof
      assume w: "writtenBy rs n k"
      then have m: "m < length rs" using 3 by (simp add: writtenBy_text)
      have "length (resultsText (take (Suc m) rs)) \<le> length (resultsText (take n rs))"
        using resultsText_mono [of "Suc m" rs "n - Suc m"] 3 by simp
      with w short resultsText_take [OF m] later [of n] have "length (marshalResult (rs ! m)) < length p"
        by (auto simp: writtenBy_text min_def split: if_splits)
      moreover have "length p \<le> length (marshalResult (rs ! m))" using assms(3) resultLine.torn_line by auto
      ultimately show False by simp
    qed
    with 3 show ?thesis by simp
  qed
qed

section \<open>The properties\<close>

text \<open>C25. The two ends agree even about a worker that dies. Wherever the bytes it wrote are cut, the orchestrator,
  reading the answer to its \<open>n\<close>th job, takes it as answered exactly when the whole text of the \<open>n\<close>th answer,
  its newline aside, is before the cut; the answer it takes is that one, the result of running that job, its
  texts as valid UTF-8, under its ID; and otherwise, when the answer is torn anywhere or was never begun, it
  takes the worker for dead. (The jobs' IDs are UTF-8 text, and no line is over the scanners' limit.)\<close>

theorem pipe_prefix:
  assumes "workerSettings fs we = Inr s"
    and "WorkerMain sha bad emit world fs we (concat (map jobLineText js)) = (limit, rs, err)"
    and "list_all (\<lambda>j. length (marshalJob j) < workerLineLimit \<and> validUtf8 (jID j)) js"
    and "list_all (\<lambda>r. length (marshalResult r) < workerLineLimit) rs"
    and "n < length js"
  shows "case sendReply bad' None (nthScan n (take k (resultsText rs))) of
      Answers r \<Rightarrow> writtenBy rs n k \<and> r = validResult (rs ! n) \<and> rID r = jID (js ! n) \<and>
        workerRuns sha (stRoot s) (stHash s) (js ! n) r
    | Dies e \<Rightarrow> \<not> writtenBy rs n k
    | _ \<Rightarrow> False"
proof -
  note answer = served_answer [OF assms(1,2,3,5)]
  obtain m p where m: "m \<le> length rs" "p = [] \<or> m < length rs \<and> (\<exists>q. p @ q = marshalResult (rs ! m))"
    "take k (resultsText rs) = resultsText (take m rs) @ p"
    and out: "nthScan n (take k (resultsText rs)) =
      (if n < m then ScannedLine (marshalResult (rs ! n))
       else if n = m \<and> p \<noteq> [] then ScannedLine p else ScanEnded None)"
    by (rule nthScan_cut [OF assms(4), where k = k and n = n])
  note written = cut_written [OF m(3,1,2), of n]
  show ?thesis
  proof (cases "n < m")
    case True
    with m(1) answer written show ?thesis by (simp add: sendReply_def out unmarshal_marshalResult)
  next
    case False
    show ?thesis
    proof (cases "n = m \<and> m < length rs \<and> p = marshalResult (rs ! m)")
      case True
      then have "p \<noteq> []" by (simp add: resultLine.filled)
      with True have "nthScan n (take k (resultsText rs)) = ScannedLine (marshalResult (rs ! m))" using out by simp
      with True answer written show ?thesis by (simp add: sendReply_def unmarshal_marshalResult)
    next
      case torn: False
      have "unmarshalResult p = None" if "n = m" "p \<noteq> []"
      proof -
        from that m(2) obtain q where q: "m < length rs" "p @ q = marshalResult (rs ! m)" by blast
        with torn that(1) have "q \<noteq> []" by auto
        with resultLine.torn [OF q(2)] show ?thesis by blast
      qed
      with torn False written show ?thesis by (auto simp: sendReply_def out)
    qed
  qed
qed

text \<open>The worker's one answer, cut before its last byte.\<close>

definition passResult :: result where
  "passResult = \<lparr>rID = ''a.js#strict'', rStatus = ''pass'', rError = [], rTailKey = []\<rparr>"

lemma passResult_run:
  "executeJob (\<lambda>s. []) \<lparr>stRoot = ''/m'', stTimeout = 10000000000, stTail = None, stHash = ''rt''\<rparr>
     (\<lambda>t n. exampleEnv) 0 exampleJob = passResult"
  by code_simp

lemma passResult_length: "length (marshalResult passResult) < workerLineLimit"
proof -
  have "length (marshalResult passResult) \<le> 6 * 40 + 100"
    using escape_length [of "''id''"] escape_length [of "''status''"] escape_length [of "''pass''"]
      escape_length [of "''a.js#strict''"]
    by (simp add: marshalResult_def resultJson_def omitEmpty_def passResult_def quoted_def)
  also have "\<dots> < workerLineLimit" by (simp add: workerLineLimit_def)
  finally show ?thesis .
qed

lemma passResult_written:
  "WorkerMain (\<lambda>s. []) (\<lambda>l. []) (\<lambda>n. None) (\<lambda>t n. exampleEnv) [] plainEnv (concat (map jobLineText [exampleJob])) =
     (None, [passResult], None)"
proof -
  have v: "validJob exampleJob = exampleJob" by (simp add: validJob_def exampleJob_def ascii_toValid ascii_Cons byteOf_def)
  have l: "memLimitSetting (weMemLimit plainEnv) = None" by (simp add: memLimitSetting_def plainEnv_def)
  show ?thesis
    unfolding WorkerMain_def l plainEnv_settings exampleJob_scan
    by (simp add: unmarshal_marshalJob v passResult_run)
qed

theorem pipe_prefix_witness:
  "case sendReply (\<lambda>l. []) None (nthScan 0 (take (length (marshalResult passResult) - 1) (resultsText [passResult]))) of
      Answers r \<Rightarrow> writtenBy [passResult] 0 (length (marshalResult passResult) - 1) \<and> r = validResult ([passResult] ! 0) \<and>
        rID r = jID ([exampleJob] ! 0) \<and> workerRuns (\<lambda>s. []) ''/m'' ''rt'' ([exampleJob] ! 0) r
    | Dies e \<Rightarrow> \<not> writtenBy [passResult] 0 (length (marshalResult passResult) - 1)
    | _ \<Rightarrow> False"
proof (rule pipe_prefix [OF plainEnv_settings passResult_written, unfolded settings.select_convs])
  show "list_all (\<lambda>j. length (marshalJob j) < workerLineLimit \<and> validUtf8 (jID j)) [exampleJob]"
    using exampleJob_length by (simp add: exampleJob_def ascii_valid ascii_Cons byteOf_def)
qed (simp_all add: passResult_length)

end
