(* ===== verification/Durable.thy ===== *)
theory Durable
  imports WireFacts
begin

text \<open>
  The cache files under their real text: which entries survive being written, and what a stream leaves
  for the next run when any of its writes is cut short.
\<close>

section \<open>Entries that survive\<close>

definition storable :: "cacheEntry \<Rightarrow> bool" where
  "storable e \<longleftrightarrow> ceKey e \<noteq> [] \<and> validEntry e = e \<and> length (marshalEntry e) < cacheLineLimit"

lemma carried_storable: "carried entryText unmarshalEntry e \<longleftrightarrow> storable e"
  using entryLine.one_line [of e] by (auto simp: carried_def storable_def entryText_def unmarshal_marshalEntry)

lemma validEntry_iff:
  "validEntry e = e \<longleftrightarrow> validUtf8 (ceKey e) \<and> validUtf8 (ceStatus e) \<and> validUtf8 (ceError e)"
  by (cases e) (auto simp: validEntry_def toValid_id_iff)

text \<open>Two and a half megabytes of valid text always fit a line.\<close>

lemma storable_small:
  assumes "ceKey e \<noteq> []" "validUtf8 (ceKey e)" "validUtf8 (ceStatus e)" "validUtf8 (ceError e)"
    and "length (ceKey e) + length (ceStatus e) + length (ceError e) \<le> 2500000"
  shows "storable e"
proof -
  have "length (marshalEntry e) < cacheLineLimit"
    using entry_length [of e] assms(5) unfolding cacheLineLimit_def by simp
  then show ?thesis using assms by (simp add: storable_def validEntry_iff)
qed

section \<open>A stream cut short\<close>

lemma rawLines_open:
  assumes "wholeLines b" "NL \<notin> set p" "p \<noteq> []"
  shows "rawLines (b @ p) = rawLines b @ [p]"
proof (cases "b = []")
  case True
  with assms show ?thesis by (simp add: rawLines_def splitOn_absent)
next
  case False
  with assms(1) obtain a where b: "b = a @ [NL]" unfolding wholeLines_def by (metis append_butlast_last_id)
  with assms(2,3) show ?thesis by (simp add: rawLines_def splitOn_sep splitOn_absent)
qed

text \<open>What a short write adds: nothing, or the whole entry.\<close>

lemma stored_short:
  assumes "wholeLines b" "shortLines b" "storable e"
  shows "shortLines (b @ take n (marshalEntry e @ [NL]))"
    and "stored unmarshalEntry (b @ take n (marshalEntry e @ [NL])) =
      (if n < length (marshalEntry e) then stored unmarshalEntry b else (stored unmarshalEntry b)(ceKey e \<mapsto> e))"
proof -
  let ?p = "take n (marshalEntry e @ [NL])"
  have "shortLines (b @ ?p) \<and> stored unmarshalEntry (b @ ?p) =
      (if n < length (marshalEntry e) then stored unmarshalEntry b else (stored unmarshalEntry b)(ceKey e \<mapsto> e))"
  proof (cases "length (marshalEntry e) < n")
    case True
    then have p: "?p = marshalEntry e @ [NL]" by simp
    have "carried entryText unmarshalEntry e" using assms(3) by (simp add: carried_storable)
    from stored_snoc [OF this _ assms(1), of "marshalEntry e"] True assms(2) show ?thesis
      by (simp add: p entryText_def)
  next
    case False
    then have p: "?p = take n (marshalEntry e)" by simp
    have "?p @ drop n (marshalEntry e) = marshalEntry e" unfolding p by simp
    from entryLine.torn_line [OF this] have t: "NL \<notin> set ?p" "CR \<notin> set ?p" "length ?p \<le> length (marshalEntry e)"
      by simp_all
    show ?thesis
    proof (cases "?p = []")
      case True
      then have "n = 0" using structs_filled(3) [of e] by auto
      with structs_filled(3) [of e] assms(2) show ?thesis by simp
    next
      case ne: False
      have "length ?p < cacheLineLimit"
        using t(3) assms(3) unfolding storable_def by (blast intro: le_less_trans)
      moreover have "unmarshalEntry ?p = (if n < length (marshalEntry e) then None else Some e)"
        using False assms(3) entryLine.torn_take [of n e] unmarshal_marshalEntry [of e] by (auto simp: p storable_def)
      ultimately show ?thesis
        using rawLines_open [OF assms(1) t(1) ne] assms(2,3) t(2)
        by (auto simp: shortLines_def stored_def dropCR_id addLine_def storable_def simp del: take_append)
    qed
  qed
  then show "shortLines (b @ ?p)" "stored unmarshalEntry (b @ ?p) =
      (if n < length (marshalEntry e) then stored unmarshalEntry b else (stored unmarshalEntry b)(ceKey e \<mapsto> e))" by blast+
qed

text \<open>The file holds part of what memory holds, and all of it while the stream has not failed.\<close>

definition behind :: "cache \<times> filesystem \<Rightarrow> bool" where
  "behind st \<longleftrightarrow>
     onDisk unmarshalEntry st \<or>
     (\<exists>e b. ccStream (fst st) = Failed e \<and> readFile (snd st) (ccPath (fst st)) = FileData b \<and> shortLines b \<and>
        stored unmarshalEntry b \<subseteq>\<^sub>m ccEntries (fst st))"

lemma onDisk_open: "onDisk unmarshalEntry st \<Longrightarrow> ccStream (fst st) = Open"
  by (simp add: onDisk_def)

lemma Put_behind:
  assumes "behind st" "volatileStatus (rStatus r) \<or> storable (entryOf k r)"
  shows "behind (Put entryText w k r st)"
proof (cases "volatileStatus (rStatus r) \<or> ccEntries (fst st) k \<noteq> None")
  case True
  with assms(1) show ?thesis by (auto simp: Put_def split: prod.splits)
next
  case False
  then have s: "storable (entryOf k r)" "ccEntries (fst st) k = None" using assms(2) by auto
  obtain c fs where st: "st = (c, fs)" by fastforce
  from assms(1) show ?thesis unfolding behind_def [of st]
  proof
    assume d: "onDisk unmarshalEntry st"
    show ?thesis
    proof (cases w)
      case WroteAll
      with Put_onDisk [OF d, of entryText k r] s(1) show ?thesis by (simp add: behind_def carried_storable)
    next
      case (WroteShort n e)
      from d st obtain b where b: "readFile fs (ccPath c) = FileData b" "wholeLines b" "shortLines b"
          "stored unmarshalEntry b = ccEntries c" "ccStream c = Open"
        by (auto simp: onDisk_def split: file_read.splits)
      let ?b = "b @ take n (marshalEntry (entryOf k r) @ [NL])"
      have p: "Put entryText w k r st = (c\<lparr>ccEntries := (ccEntries c)(k \<mapsto> entryOf k r), ccAdded := ccAdded c + 1,
          ccStream := Failed e\<rparr>, appendFile fs (ccPath c) (take n (marshalEntry (entryOf k r) @ [NL])))"
        using False b by (simp add: Put_def st WroteShort entryText_def Let_def)
      have "stored unmarshalEntry ?b \<subseteq>\<^sub>m (ccEntries c)(k \<mapsto> entryOf k r)"
        using stored_short(2) [OF b(2,3) s(1), of n] s(2) st
        by (auto simp: b(4) entryOf_def map_le_def dom_def)
      with stored_short(1) [OF b(2,3) s(1), of n] show ?thesis
        by (simp add: behind_def p b(1) contentsOf_data)
    qed
  next
    assume "\<exists>e b. ccStream (fst st) = Failed e \<and> readFile (snd st) (ccPath (fst st)) = FileData b \<and> shortLines b \<and>
        stored unmarshalEntry b \<subseteq>\<^sub>m ccEntries (fst st)"
    then obtain e b where b: "ccStream c = Failed e" "readFile fs (ccPath c) = FileData b" "shortLines b"
        "stored unmarshalEntry b \<subseteq>\<^sub>m ccEntries c" by (auto simp: st)
    have "stored unmarshalEntry b \<subseteq>\<^sub>m (ccEntries c)(k \<mapsto> entryOf k r)"
      using b(4) s(2) by (auto simp: map_le_def st dom_def)
    with b False show ?thesis by (simp add: behind_def Put_def st Let_def)
  qed
qed

lemma putAll_behind:
  "behind st \<Longrightarrow> list_all (\<lambda>(w, k, r). volatileStatus (rStatus r) \<or> storable (entryOf k r)) hist \<Longrightarrow>
   behind (fold (\<lambda>(w, k, r). Put entryText w k r) hist st)"
proof (induction hist arbitrary: st)
  case (Cons x hist)
  obtain w k r where x: "x = (w, k, r)" by (cases x)
  with Cons Put_behind [of st r k w] show ?case by auto
qed simp

section \<open>The property\<close>

lemma behind_loads:
  assumes "behind st"
  shows "\<exists>c. LoadCache unmarshalEntry (snd st) (ccPath (fst st)) = (Some c, None) \<and> ccEntries c \<subseteq>\<^sub>m ccEntries (fst st)"
  using assms unfolding behind_def
  by (auto simp: onDisk_def LoadCache_stored split: file_read.splits)

text \<open>C10. However the writes of a stream turn out, cut short anywhere included, the file loads at every moment and
  holds no entry that memory does not: a torn line is never read as an entry. The entries are texts that
  fit a line.\<close>

theorem torn_stream_safe:
  assumes "LoadCache unmarshalEntry fs path = (Some c, None)" "wholeLines (contentsOf fs path)"
    and "BeginStream None (c, fs) = (None, st)"
    and "list_all (\<lambda>(w, k, r). volatileStatus (rStatus r) \<or> storable (entryOf k r)) hist"
    and "st' = fold (\<lambda>(w, k, r). Put entryText w k r) hist st"
  shows "\<exists>c'. LoadCache unmarshalEntry (snd st') path = (Some c', None) \<and>
    ccEntries c' \<subseteq>\<^sub>m ccEntries (fst st')"
proof -
  have "behind st" using BeginStream_onDisk [OF assms(1,2,3)] by (simp add: behind_def)
  from putAll_behind [OF this assms(4)] have "behind st'" by (simp add: assms(5))
  moreover have "ccPath c = path"
    using assms(1) by (auto simp: LoadCache_def emptyCache_def split: file_read.splits prod.splits)
  then have "ccPath (fst st') = path" using assms(3) by (auto simp: assms(5) putAll_path BeginStream_def)
  ultimately show ?thesis using behind_loads [of st'] by simp
qed

definition cutHistory :: "(write_outcome \<times> string \<times> result) list" where
  "cutHistory = [(WroteAll, ''k1'', okResult ''pass''), (WroteShort 9 (Msg ''disk full''), ''k2'', okResult ''pass''),
     (WroteAll, ''k3'', okResult ''fail'')]"

theorem torn_stream_safe_witness:
  "\<exists>c'. LoadCache unmarshalEntry (snd (fold (\<lambda>(w, k, r). Put entryText w k r) cutHistory
      ((emptyCache ''c'')\<lparr>ccStream := Open\<rparr>, appendFile [] ''c'' []))) ''c'' = (Some c', None) \<and>
    ccEntries c' \<subseteq>\<^sub>m ccEntries (fst (fold (\<lambda>(w, k, r). Put entryText w k r) cutHistory
      ((emptyCache ''c'')\<lparr>ccStream := Open\<rparr>, appendFile [] ''c'' [])))"
proof (rule torn_stream_safe [OF _ _ _ _ refl])
  show "LoadCache unmarshalEntry [] ''c'' = (Some (emptyCache ''c''), None)" by (simp add: LoadCache_def readFile_def)
  show "wholeLines (contentsOf [] ''c'')" by (simp add: wholeLines_def contentsOf_def readFile_def)
  show "BeginStream None (emptyCache ''c'', []) = (None, (emptyCache ''c'')\<lparr>ccStream := Open\<rparr>, appendFile [] ''c'' [])"
    by (simp add: BeginStream_def emptyCache_def)
  show "list_all (\<lambda>(w, k, r). volatileStatus (rStatus r) \<or> storable (entryOf k r)) cutHistory"
    by (simp add: cutHistory_def entryOf_def okResult_def storable_small ascii_valid ascii_Cons byteOf_def)
qed

end
