(* ===== verification/Sha256.thy ===== *)
theory Sha256
  imports Utf8 "HOL-Library.Word"
begin

text \<open>
  \<open>crypto/sha256\<close> and \<open>encoding/hex\<close>: the digest behind the results keys, the tail keys and the
  fingerprints, on 32-bit words, as 64 hexadecimal digits.
\<close>

unbundle bit_operations_syntax

section \<open>The compression function\<close>

text \<open>The round constants and the initial state, in decimal; lemma \<open>sha_constants\<close> says where they come from.\<close>

definition shaK :: "32 word list" where
  "shaK =
     [1116352408, 1899447441, 3049323471, 3921009573, 961987163, 1508970993, 2453635748, 2870763221,
      3624381080, 310598401, 607225278, 1426881987, 1925078388, 2162078206, 2614888103, 3248222580,
      3835390401, 4022224774, 264347078, 604807628, 770255983, 1249150122, 1555081692, 1996064986,
      2554220882, 2821834349, 2952996808, 3210313671, 3336571891, 3584528711, 113926993, 338241895,
      666307205, 773529912, 1294757372, 1396182291, 1695183700, 1986661051, 2177026350, 2456956037,
      2730485921, 2820302411, 3259730800, 3345764771, 3516065817, 3600352804, 4094571909, 275423344,
      430227734, 506948616, 659060556, 883997877, 958139571, 1322822218, 1537002063, 1747873779,
      1955562222, 2024104815, 2227730452, 2361852424, 2428436474, 2756734187, 3204031479, 3329325298]"

definition shaInit :: "32 word list" where
  "shaInit =
     [1779033703, 3144134277, 1013904242, 2773480762, 1359893119, 2600822924, 528734635, 1541459225]"

definition sigma0 :: "32 word \<Rightarrow> 32 word" where
  "sigma0 x = word_rotr 7 x XOR word_rotr 18 x XOR drop_bit 3 x"

definition sigma1 :: "32 word \<Rightarrow> 32 word" where
  "sigma1 x = word_rotr 17 x XOR word_rotr 19 x XOR drop_bit 10 x"

text \<open>The message schedule, the last sixteen words kept in reverse.\<close>

fun shaExtend :: "nat \<Rightarrow> 32 word list \<Rightarrow> 32 word list" where
  "shaExtend 0 w = rev w"
| "shaExtend (Suc n) w = shaExtend n ((sigma1 (w ! 1) + w ! 6 + sigma0 (w ! 14) + w ! 15) # w)"

definition shaRound :: "32 word list \<Rightarrow> 32 word \<times> 32 word \<Rightarrow> 32 word list" where
  "shaRound st kw =
     (case st of
        [a, b, c, d, e, f, g, h] \<Rightarrow>
          (let t1 = h + (word_rotr 6 e XOR word_rotr 11 e XOR word_rotr 25 e) +
                    ((e AND f) XOR (NOT e AND g)) + fst kw + snd kw;
               t2 = (word_rotr 2 a XOR word_rotr 13 a XOR word_rotr 22 a) +
                    ((a AND b) XOR (a AND c) XOR (b AND c))
           in [t1 + t2, a, b, c, d + t1, e, f, g])
      | _ \<Rightarrow> st)"

definition shaBlock :: "32 word list \<Rightarrow> 32 word list \<Rightarrow> 32 word list" where
  "shaBlock st block =
     map2 (+) st (fold (\<lambda>kw st. shaRound st kw) (zip shaK (shaExtend 48 (rev block))) st)"

section \<open>Messages\<close>

definition byteVal :: "char \<Rightarrow> int" where
  "byteVal c = of_char c"

fun shaWords :: "int list \<Rightarrow> 32 word list" where
  "shaWords (a # b # c # d # bs) = of_int (((a * 256 + b) * 256 + c) * 256 + d) # shaWords bs"
| "shaWords _ = []"

text \<open>\<open>n\<close> bytes of a number, most significant first.\<close>

fun bigEndian :: "nat \<Rightarrow> int \<Rightarrow> int list" where
  "bigEndian 0 x = []"
| "bigEndian (Suc n) x = bigEndian n (x div 256) @ [x mod 256]"

definition shaPad :: "int list \<Rightarrow> int list" where
  "shaPad bs = bs @ [128] @ replicate ((119 - length bs mod 64) mod 64) 0 @ bigEndian 8 (8 * int (length bs))"

function shaBlocks :: "32 word list \<Rightarrow> 32 word list \<Rightarrow> 32 word list" where
  "shaBlocks st ws = (if length ws < 16 then st else shaBlocks (shaBlock st (take 16 ws)) (drop 16 ws))"
  by pat_completeness auto
termination by (relation "measure (\<lambda>(st, ws). length ws)") auto

declare shaBlocks.simps [simp del]

definition hexNibble :: "int \<Rightarrow> char" where
  "hexNibble n = ''0123456789abcdef'' ! nat n"

definition hexByte :: "int \<Rightarrow> string" where
  "hexByte b = [hexNibble (b div 16 mod 16), hexNibble (b mod 16)]"

definition Sum256 :: "string \<Rightarrow> int list" where
  "Sum256 s =
     concat (map (\<lambda>w. bigEndian 4 (uint w)) (shaBlocks shaInit (shaWords (shaPad (map byteVal s)))))"

definition sha256Hex :: "string \<Rightarrow> string" where
  "sha256Hex s = concat (map hexByte (Sum256 s))"

section \<open>Facts\<close>

lemma length_bigEndian [simp]: "length (bigEndian n x) = n"
  by (induction n arbitrary: x) simp_all

lemma length_shaRound [simp]: "length (shaRound st kw) = length st"
  by (auto simp: shaRound_def Let_def split: list.split)

lemma length_shaBlock [simp]: "length (shaBlock st block) = length st"
proof -
  have "length (fold (\<lambda>kw st. shaRound st kw) kws s) = length s" for kws s
    by (induction kws arbitrary: s) simp_all
  then show ?thesis by (simp add: shaBlock_def)
qed

lemma length_shaBlocks [simp]: "length (shaBlocks st ws) = length st"
  by (induction st ws rule: shaBlocks.induct) (subst shaBlocks.simps, simp)

text \<open>The constants are the leading 32 bits of the fractional parts of the cube roots of the first 64 primes, the
  initial state those of the square roots of the first eight.\<close>

definition shaPrimes :: "int list" where
  "shaPrimes = filter (\<lambda>n. list_all (\<lambda>d. n \<le> d \<or> n mod d \<noteq> 0) [2..17]) [2..311]"

definition isRoot :: "nat \<Rightarrow> int \<Rightarrow> int \<Rightarrow> bool" where
  "isRoot k x r \<longleftrightarrow> r ^ k \<le> x * 2 ^ (32 * k) \<and> x * 2 ^ (32 * k) < (r + 1) ^ k"

definition fractionOf :: "nat \<Rightarrow> int \<Rightarrow> int \<Rightarrow> bool" where
  "fractionOf k x f \<longleftrightarrow> list_ex (\<lambda>w. isRoot k x (w * 4294967296 + f)) [1..6]"

lemma sha_constants:
  "list_all2 (fractionOf 3) shaPrimes (map uint shaK)"
  "list_all2 (fractionOf 2) (take 8 shaPrimes) (map uint shaInit)"
  by code_simp+

text \<open>A digest is 64 hexadecimal digits, whatever was digested.\<close>

lemma length_Sum256: "length (Sum256 s) = 32"
  by (simp add: Sum256_def length_concat comp_def sum_list_triv shaInit_def)

lemma length_sha256Hex: "length (sha256Hex s) = 64"
  by (simp add: sha256Hex_def length_concat comp_def hexByte_def sum_list_triv length_Sum256)

lemma hexNibble_digits: "0 \<le> n \<Longrightarrow> n < 16 \<Longrightarrow> hexNibble n \<in> set ''0123456789abcdef''"
  unfolding hexNibble_def by (intro nth_mem) (simp add: nat_less_iff)

lemma sha256Hex_digits: "set (sha256Hex s) \<subseteq> set ''0123456789abcdef''"
proof -
  have "set (hexByte b) \<subseteq> set ''0123456789abcdef''" for b
    using hexNibble_digits [of "b div 16 mod 16"] hexNibble_digits [of "b mod 16"] by (simp add: hexByte_def)
  then show ?thesis unfolding sha256Hex_def set_concat set_map by blast
qed

text \<open>The padded message is whole blocks that start with the message.\<close>

lemma shaPad_blocks: "64 dvd length (shaPad bs) \<and> take (length bs) (shaPad bs) = bs"
proof -
  define r where "r = length bs mod 64"
  have "r < 64" by (simp add: r_def)
  then have "(119 - r) mod 64 = (if r \<le> 55 then 55 - r else 119 - r)"
    by (simp add: mod_if)
  then have "(r + (9 + (119 - r) mod 64)) mod 64 = 0" using \<open>r < 64\<close> by (simp split: if_split)
  then have "(length bs + (9 + (119 - r) mod 64)) mod 64 = 0" unfolding r_def by (simp only: mod_add_left_eq)
  moreover have "length (shaPad bs) = length bs + (9 + (119 - r) mod 64)" by (simp add: shaPad_def r_def)
  ultimately have "64 dvd length (shaPad bs)" by (simp only: dvd_eq_mod_eq_0)
  moreover have "take (length bs) (shaPad bs) = bs" by (simp add: shaPad_def)
  ultimately show ?thesis ..
qed

lemma sha256Hex_ascii: "ascii (sha256Hex s)"
proof -
  have "c \<in> set ''0123456789abcdef'' \<Longrightarrow> byteOf c < 128" for c :: char
    by (auto simp: byteOf_def)
  with sha256Hex_digits [of s] show ?thesis unfolding ascii_def list_all_iff by blast
qed

text \<open>The digest of the standard's example.\<close>

lemma sha256_abc: "sha256Hex ''abc'' = ''ba7816bf8f01cfea414140de5dae2223b00361a396177a9cb410ff61f20015ad''"
  by code_simp

end
