(* ===== verification/RunFiles.thy ===== *)
theory RunFiles
  imports OrchestratorFacts Durable Sha256
begin

text \<open>
  The texts of a run: every result that crosses the pipe is valid UTF-8, so the caches store it exactly;
  and what the results file of a run holds at any moment, whatever its writes do.
\<close>

section \<open>Results are text\<close>

text \<open>A runner whose answers have crossed the pipe.\<close>

locale wire_runner = job_runner +
  assumes runs_valid: "runs j r \<Longrightarrow> validResult r = r"

definition soundResult :: "result \<Rightarrow> bool" where
  "soundResult r \<longleftrightarrow> volatileStatus (rStatus r) \<or> validResult r = r"

definition soundWorker :: "wstate \<Rightarrow> bool" where
  "soundWorker w \<longleftrightarrow>
     (case wsPhase w of WReplied j r ok \<Rightarrow> soundResult r | WSend r \<Rightarrow> soundResult r | _ \<Rightarrow> True)"

lemma soundWorker_update: "list_all soundWorker ws \<Longrightarrow> soundWorker w \<Longrightarrow> list_all soundWorker (ws[i := w])"
  by (auto simp: list_all_iff dest: set_update_subset_insert [THEN subsetD])

lemma soundWorker_nth: "list_all soundWorker ws \<Longrightarrow> i < length ws \<Longrightarrow> soundWorker (ws ! i)"
  by (simp add: list_all_length)

context wire_runner begin

lemma reply_sound:
  assumes "answerOf runs (Replies i reply) s" "wsPhase (ruWorkers s ! i) = WBusy j"
  shows "soundResult (fst (sendResult j reply))"
  using assms runs_valid by (cases reply) (auto simp: soundResult_def verdict_def volatileStatus_def)

lemma step_sound:
  assumes "step runs cfg a s s'" "list_all soundWorker (ruWorkers s)" "list_all soundResult (ruDone s)"
  shows "list_all soundWorker (ruWorkers s') \<and> list_all soundResult (ruDone s')"
  using assms(1)
proof (rule stepE)
  assume an: "answerOf runs a s" and p: "perform cfg a s = Some s'"
  show ?thesis using p
  proof (cases rule: performE)
    case (spawn_fails i e j)
    with assms show ?thesis
      by (auto intro!: soundWorker_update simp: soundWorker_def soundResult_def verdict_def volatileStatus_def)
  next
    case (replies i reply j)
    with an have "soundResult (fst (sendResult j reply))" by (intro reply_sound) auto
    with replies assms show ?thesis by (auto intro!: soundWorker_update simp: soundWorker_def)
  next
    case (settles i j r ok)
    with soundWorker_nth [OF assms(2), of i] have "soundResult r" by (simp add: soundWorker_def)
    with settles assms show ?thesis by (auto intro!: soundWorker_update simp: soundWorker_def)
  next
    case (collects i w1 w2 r)
    with soundWorker_nth [OF assms(2), of i] have "soundResult r" by (simp add: soundWorker_def)
    with collects assms show ?thesis by (auto intro!: soundWorker_update simp: soundWorker_def)
  qed (use assms in \<open>auto intro!: soundWorker_update simp: soundWorker_def\<close>)
qed

lemma run_sound:
  assumes "execution runs cfg (startRun cfg p cache tail) as t"
  shows "list_all soundResult (ruDone t)"
proof -
  have "list_all soundWorker (ruWorkers t) \<and> list_all soundResult (ruDone t)"
    using assms
  proof (rule execution_invariant)
    show "list_all soundWorker (ruWorkers (startRun cfg p cache tail)) \<and>
        list_all soundResult (ruDone (startRun cfg p cache tail))"
      by (auto simp: soundWorker_def list_all_iff dest: startRun_workers)
  qed (use step_sound in blast)
  then show ?thesis ..
qed

text \<open>Every collected result is of a job the run had to do.\<close>

lemma done_planned:
  assumes "execution runs cfg (startRun cfg p cache tail) as t" "r \<in> set (ruDone t)"
  shows "rID r \<in> jID ` set (plTodo p)"
proof -
  have "rID r \<in># accounted t" using assms(2) by (simp add: accounted_def)
  then show ?thesis by (simp add: run_good(3) [OF assms(1)])
qed

end

interpretation wire: wire_runner "workerRuns sha dir rt" for sha dir rt
proof
  fix j r assume "workerRuns sha dir rt j r"
  then show "validResult r = r" by (auto simp: workerRuns_def valid_idem)
qed

section \<open>The results file\<close>

text \<open>Where the stream stands after a run in which every recorded entry survives being written.\<close>

lemma execution_behind:
  assumes "execution runs cfg (startRun cfg p (Some st) tail) as t" "cgMarshal cfg = entryText" "behind st"
    and "list_all (\<lambda>r. volatileStatus (rStatus r) \<or> storable (entryOf (cacheKeyOf cfg r) r)) (ruDone t)"
  shows "\<exists>st'. ruCache t = Some st' \<and> behind st' \<and> ccPath (fst st') = ccPath (fst st)"
proof -
  from execution_results [OF assms(1)] obtain ws where ws: "length ws = length (ruDone t)"
    "ruCache t = Some (fold (\<lambda>(w, k, r). Put entryText w k r) (zip ws (map (\<lambda>r. (cacheKeyOf cfg r, r)) (ruDone t))) st)"
    by (auto simp: assms(2))
  have "list_all (\<lambda>(w, k, r). volatileStatus (rStatus r) \<or> storable (entryOf k r))
      (zip ws (map (\<lambda>r. (cacheKeyOf cfg r, r)) (ruDone t)))"
    using assms(4) by (fastforce simp: list_all_iff dest: set_zip_rightD)
  from putAll_behind [OF assms(3) this] ws(2) show ?thesis by (auto simp: putAll_path)
qed

end
