(* ===== verification/JsonGlued.thy ===== *)
theory JsonGlued
  imports WireFacts
begin

text \<open>
  What becomes of a torn line when the next write goes on right after it. The pieces of entries that a
  stream leaves between two newlines, one or more of them cut anywhere, read as an entry only when there is
  a single piece and it is whole: a cut inside a string swallows the brace of the next piece, a cut
  elsewhere leaves an object open.
\<close>

section \<open>A string cut short\<close>

text \<open>The text of a string, cut, with only opening braces before the next quote: if it reads at all it ends there.\<close>

definition braces :: "nat \<Rightarrow> string" where
  "braces n = replicate n (CHR ''{'')"

definition endsAtQuote :: "string \<Rightarrow> bool" where
  "endsAtQuote u \<longleftrightarrow>
     (\<forall>n z v t. readString (u @ braces (Suc n) @ DQUOTE # z) = Some (v, t) \<longrightarrow> t = z)"

lemma braces_Suc: "braces (Suc n) = CHR ''{'' # braces n"
  by (simp add: braces_def)

lemma braces_snoc: "braces n @ CHR ''{'' # s = braces (Suc n) @ s"
  by (simp add: braces_def replicate_app_Cons_same)

lemma readString_braces: "readString (braces n @ DQUOTE # z) = Some (braces n, z)"
proof (induction n)
  case 0
  then show ?case by (simp add: braces_def readString.simps(2))
next
  case (Suc n)
  have "runeLen (CHR ''{'' # braces n @ DQUOTE # z) = Some 1" by (simp add: leadLen_def byteOf_def)
  with Suc show ?case by (simp add: braces_Suc readString.simps(2) byteOf_def del: runeLen.simps)
qed

text \<open>The bytes of a cut rune read as errors or as other runes, none beyond the brace.\<close>

lemma readString_high:
  "list_all (\<lambda>c. 128 \<le> byteOf c) h \<Longrightarrow> \<exists>v. readString (h @ braces (Suc n) @ DQUOTE # z) = Some (v, z)"
proof (induction h rule: measure_induct_rule [of length])
  case (less h)
  let ?rest = "braces (Suc n) @ DQUOTE # z"
  show ?case
  proof (cases h)
    case Nil
    then show ?thesis using readString_braces by simp
  next
    case (Cons c h')
    with less.prems have c: "128 \<le> byteOf c" "list_all (\<lambda>c. 128 \<le> byteOf c) h'" by simp_all
    then have ne: "c \<noteq> DQUOTE" "c \<noteq> BSLASH" "\<not> byteOf c < 32" by auto
    show ?thesis
    proof (cases "runeLen (c # h' @ ?rest)")
      case None
      from less.IH [of h'] c(2) Cons obtain v where "readString (h' @ ?rest) = Some (v, z)" by auto
      with None ne show ?thesis by (simp add: Cons readString.simps(2) del: runeLen.simps)
    next
      case (Some k)
      let ?r = "take k (c # h' @ ?rest)"
      from runeLen_bounds [OF Some] have k: "1 \<le> k" "k \<le> length (c # h' @ ?rest)" by simp_all
      have r: "isRune ?r" using runeLen_take [OF Some, of "[]"] k by (simp add: isRune_def min_absorb2 del: runeLen.simps)
      have "k \<le> length (c # h')"
      proof (rule ccontr)
        assume long: "\<not> k \<le> length (c # h')"
        then have "CHR ''{'' \<in> set ?r" by (auto simp: take_Cons' braces_Suc)
        moreover have "length ?r \<noteq> 1" using long k by simp
        ultimately have "128 \<le> byteOf (CHR ''{'')" using isRune_multi [OF r] by blast
        then show False by (simp add: byteOf_def)
      qed
      then have d: "drop k (c # h' @ ?rest) = drop k h @ ?rest"
        using drop_append [of k h ?rest] by (simp add: Cons)
      have "list_all (\<lambda>c. 128 \<le> byteOf c) (drop k h)" using less.prems by (auto simp: list_all_iff dest: in_set_dropD)
      moreover have "length (drop k h) < length h" using k(1) Cons by simp
      ultimately obtain v where "readString (drop k h @ ?rest) = Some (v, z)" using less.IH by blast
      with Some ne d show ?thesis by (simp add: Cons readString.simps(2) del: runeLen.simps)
    qed
  qed
qed

lemma endsAtQuote_high: "list_all (\<lambda>c. 128 \<le> byteOf c) h \<Longrightarrow> endsAtQuote h"
  unfolding endsAtQuote_def by (metis Pair_inject option.inject readString_high)

lemma endsAtQuote_Nil: "endsAtQuote []"
  by (rule endsAtQuote_high) simp

lemma hex4_brace: "length ds \<le> 3 \<Longrightarrow> hex4 (ds @ CHR ''{'' # r) = None"
proof -
  assume l: "length ds \<le> 3"
  have h: "hexVal (CHR ''{'') = None" by (simp add: hexVal_def byteOf_def)
  consider "ds = []" | a where "ds = [a]" | a b where "ds = [a, b]" | a b c where "ds = [a, b, c]"
    using l by (metis (no_types) One_nat_def Suc_1 Suc_le_mono le_zero_eq length_0_conv length_Suc_conv
        list.exhaust list.size(4) numeral_3_eq_3 plus_1_eq_Suc add.commute)
  then show ?thesis
  proof cases
    case 1
    then show ?thesis by (cases "CHR ''{'' # r" rule: hex4.cases) (auto simp: h)
  next
    case (2 a)
    then show ?thesis by (cases "a # CHR ''{'' # r" rule: hex4.cases) (auto simp: h split: option.split)
  next
    case (3 a b)
    then show ?thesis by (cases "a # b # CHR ''{'' # r" rule: hex4.cases) (auto simp: h split: option.split)
  next
    case (4 a b c)
    then show ?thesis by (simp add: h split: option.split)
  qed
qed

text \<open>A cut escape is no escape.\<close>

lemma endsAtQuote_unicode:
  assumes "u @ w = BSLASH # CHR ''u'' # ds" "length ds = 4" "w \<noteq> []"
  shows "endsAtQuote u"
proof -
  consider "u = []" | "u = [BSLASH]" | es where "u = BSLASH # CHR ''u'' # es" "es @ w = ds"
    using assms(1) by (auto simp: append_eq_Cons_conv)
  then show ?thesis
  proof cases
    case 1
    then show ?thesis by (simp add: endsAtQuote_Nil)
  next
    case 2
    then show ?thesis
      by (simp add: endsAtQuote_def braces_Suc readString.simps(2) readEscape_def simpleEscapes_def)
  next
    case (3 es)
    then have "length es \<le> 3" using assms(2,3) by (cases w) auto
    from hex4_brace [OF this] 3 show ?thesis
      by (simp add: endsAtQuote_def braces_Suc readString.simps(2) readEscape_def del: hex4.simps)
  qed
qed

lemma endsAtQuote_escRune:
  assumes "x \<in> set (runes s)" "u @ w = escRune x" "w \<noteq> []"
  shows "endsAtQuote u"
proof (cases x)
  case None
  with assms(2) have "u @ w = BSLASH # CHR ''u'' # ''fffd''" by (simp add: escRune_simps)
  from endsAtQuote_unicode [OF this _ assms(3)] show ?thesis by simp
next
  case (Some r)
  with assms(1) have "isRune r" using runes_isRune by simp
  then show ?thesis
  proof (cases rule: isRune_cases)
    case (ascii c)
    with assms(2) Some have e: "u @ w = escByte c" by (simp add: escRune_simps)
    show ?thesis
    proof (cases c rule: escByte_cases)
      case (short d)
      with e assms(3) have "u = [] \<or> u = [BSLASH]" by (auto simp: append_eq_Cons_conv)
      then show ?thesis
        using endsAtQuote_Nil
        by (auto simp: endsAtQuote_def braces_Suc readString.simps(2) readEscape_def simpleEscapes_def)
    next
      case hex
      with e endsAtQuote_unicode [of u w, OF _ _ assms(3)] show ?thesis by simp
    next
      case raw
      with e assms(3) have "u = []" by (auto simp: append_eq_Cons_conv)
      then show ?thesis by (simp add: endsAtQuote_Nil)
    qed
  next
    case multi
    consider "u @ w = BSLASH # CHR ''u'' # ''2028''" | "u @ w = BSLASH # CHR ''u'' # ''2029''" | "u @ w = r"
      using assms(2) Some escRune_simps(3) [OF multi(1)] by (auto split: if_splits)
    then show ?thesis
    proof cases
      case 3
      with multi(2) show ?thesis by (intro endsAtQuote_high) (auto simp: list_all_iff)
    qed (use endsAtQuote_unicode [of u w, OF _ _ assms(3)] in auto)
  qed
qed

lemma endsAtQuote_escape:
  assumes "u @ w = escape s"
  shows "endsAtQuote u"
proof -
  have "set xs \<subseteq> set (runes s) \<Longrightarrow> u @ w = concat (map escRune xs) \<Longrightarrow> endsAtQuote u" for xs
  proof (induction xs arbitrary: u w)
    case Nil
    then show ?case by (simp add: endsAtQuote_Nil)
  next
    case (Cons x xs)
    from Cons.prems(2) obtain us where "u = escRune x @ us \<and> us @ w = concat (map escRune xs) \<or>
        u @ us = escRune x \<and> w = us @ concat (map escRune xs)"
      by (auto simp: append_eq_append_conv2)
    then consider us where "u = escRune x @ us" "us @ w = concat (map escRune xs)"
      | ws where "u @ ws = escRune x" "ws \<noteq> []"
      by (cases "us = []") auto
    then show ?case
    proof cases
      case (1 us)
      then have "endsAtQuote us" using Cons by auto
      with 1(1) Cons.prems(1) show ?thesis
        by (auto simp: endsAtQuote_def readString_escRune [of _ s])
    next
      case (2 ws)
      with Cons.prems(1) show ?thesis by (intro endsAtQuote_escRune) auto
    qed
  qed
  from this [of "runes s"] assms show ?thesis by (simp add: escape_def)
qed

text \<open>Without a quote it does not end.\<close>

lemma endsAtQuote_open:
  assumes "endsAtQuote u"
  shows "readString (u @ braces n) = None"
proof (rule ccontr)
  assume "readString (u @ braces n) \<noteq> None"
  then obtain v t where "readString (u @ braces n) = Some (v, t)" by auto
  from readString_extend [OF this, of "CHR ''{'' # [DQUOTE]"]
  have "readString (u @ braces (Suc n) @ DQUOTE # []) = Some (v, t @ CHR ''{'' # [DQUOTE])"
    using braces_snoc [of n "[DQUOTE]"] by simp
  with assms show False unfolding endsAtQuote_def by blast
qed

text \<open>As tokens: the string, and what follows its quote.\<close>

lemma cut_string_lexes:
  assumes "endsAtQuote u"
  shows "lexJson (DQUOTE # u @ braces n) = None"
    and "lexJson (DQUOTE # u @ braces (Suc n) @ DQUOTE # z) = Some xs \<Longrightarrow>
      \<exists>v ys. lexJson z = Some ys \<and> xs = TVal (JStr v) # ys"
proof -
  have q: "lexJson (DQUOTE # s) = Option.bind (readString s) (\<lambda>(v, t). map_option ((#) (TVal (JStr v))) (lexJson t))" for s
    by (simp add: lexJson.simps(2) jsonSpace_def lexToken_def split: option.split)
  show "lexJson (DQUOTE # u @ braces n) = None" by (simp add: q endsAtQuote_open [OF assms])
  assume x: "lexJson (DQUOTE # u @ braces (Suc n) @ DQUOTE # z) = Some xs"
  then obtain v t where r: "readString (u @ braces (Suc n) @ DQUOTE # z) = Some (v, t)"
    by (auto simp: q bind_eq_Some_conv)
  with assms have "t = z" unfolding endsAtQuote_def by blast
  with x r show "\<exists>v ys. lexJson z = Some ys \<and> xs = TVal (JStr v) # ys" by (auto simp: q)
qed

lemma lexJson_word: "lexJson (CHR ''k'' # s) = None"
  by (simp add: lexJson.simps(2) jsonSpace_def lexToken_def HasPrefix_def lexNumber_def lexInteger_def someDigits_def
      jsonDigit_def byteOf_def)

section \<open>The pieces of an entry\<close>

text \<open>The text of an entry is a sequence of symbols and quoted strings.\<close>

fun chunkText :: "char + string \<Rightarrow> string" where
  "chunkText (Inl c) = [c]"
| "chunkText (Inr s) = quoted s"

fun chunkToken :: "char + string \<Rightarrow> token" where
  "chunkToken (Inl c) = TSym c"
| "chunkToken (Inr s) = TVal (JStr (toValid s))"

definition entryMiddle :: "cacheEntry \<Rightarrow> (char + string) list" where
  "entryMiddle e =
     [Inr ''key'', Inl (CHR '':''), Inr (ceKey e), Inl (CHR '',''), Inr ''status'', Inl (CHR '':''), Inr (ceStatus e)] @
     (if ceError e = [] then [] else [Inl (CHR '',''), Inr ''error'', Inl (CHR '':''), Inr (ceError e)])"

definition entryChunks :: "cacheEntry \<Rightarrow> (char + string) list" where
  "entryChunks e = Inl (CHR ''{'') # entryMiddle e @ [Inl (CHR ''}'')]"

lemma marshalEntry_chunks: "marshalEntry e = concat (map chunkText (entryChunks e))"
  by (simp add: marshalEntry_def entryJson_def omitEmpty_def entryChunks_def entryMiddle_def)

lemma entryMiddle_inner: "c \<in> set (entryMiddle e) \<Longrightarrow> c \<noteq> Inl (CHR ''{'') \<and> c \<noteq> Inl (CHR ''}'')"
  by (auto simp: entryMiddle_def split: if_splits)

lemma entryChunks_symbols: "Inl c \<in> set (entryChunks e) \<Longrightarrow> c \<in> set ''{}[],:''"
  by (auto simp: entryChunks_def entryMiddle_def split: if_splits)

lemma lexes_chunks:
  assumes "\<And>c. Inl c \<in> set cs \<Longrightarrow> c \<in> set ''{}[],:''"
  shows "lexes (concat (map chunkText cs)) (map chunkToken cs)"
  using assms
proof (induction cs)
  case (Cons x cs)
  have "lexes (concat (map chunkText cs)) (map chunkToken cs)" using Cons by (meson list.set_intros(2))
  moreover have "lexes (chunkText x) [chunkToken x]"
    using Cons.prems lexes_sym lexes_string by (cases x) auto
  ultimately show ?case using lexes_append [of "chunkText x" "[chunkToken x]"] by simp
qed (simp add: lexes_Nil)

text \<open>A cut falls between two chunks or inside a string.\<close>

lemma cut_chunks:
  assumes "p @ q = concat (map chunkText cs)"
  obtains (between) cs1 cs2 where "cs = cs1 @ cs2" "p = concat (map chunkText cs1)"
  | (inside) cs1 s cs2 u w where "cs = cs1 @ Inr s # cs2" "p = concat (map chunkText cs1) @ DQUOTE # u" "u @ w = escape s"
  using assms
proof (induction cs arbitrary: p thesis)
  case Nil
  then show ?case by simp
next
  case (Cons c cs)
  from Cons.prems(3) obtain us where "p = chunkText c @ us \<and> us @ q = concat (map chunkText cs) \<or> p @ us = chunkText c"
    by (auto simp: append_eq_append_conv2)
  then consider us where "p = chunkText c @ us" "us @ q = concat (map chunkText cs)"
    | us where "p @ us = chunkText c" by blast
  then show ?case
  proof cases
    case (1 us)
    show ?thesis
    proof (rule Cons.IH [OF _ _ 1(2)])
      show "cs = cs1 @ cs2 \<Longrightarrow> us = concat (map chunkText cs1) \<Longrightarrow> thesis" for cs1 cs2
        using Cons.prems(1) [of "c # cs1" cs2] 1(1) by simp
      show "cs = cs1 @ Inr s # cs2 \<Longrightarrow> us = concat (map chunkText cs1) @ DQUOTE # u \<Longrightarrow> u @ w = escape s \<Longrightarrow> thesis"
        for cs1 s cs2 u w using Cons.prems(2) [of "c # cs1" s cs2 u w] 1(1) by simp
    qed
  next
    case (2 us)
    consider "p = []" | "us = []" | s u where "c = Inr s" "p = DQUOTE # u" "us \<noteq> []" "u @ us = escape s @ [DQUOTE]"
      using 2 by (cases c) (auto simp: append_eq_Cons_conv quoted_def)
    then show ?thesis
    proof cases
      case 1
      then show ?thesis using Cons.prems(1) [of "[]" "c # cs"] by simp
    next
      case 2
      with \<open>p @ us = chunkText c\<close> show ?thesis using Cons.prems(1) [of "[c]" cs] by simp
    next
      case (3 s u)
      then have "u @ butlast us = escape s" by (metis butlast_append butlast_snoc)
      with 3 show ?thesis using Cons.prems(2) [of "[]" s cs u "butlast us"] by simp
    qed
  qed
qed

section \<open>Open and closed objects\<close>

definition openings :: "token list \<Rightarrow> nat" where
  "openings xs = length (filter ((=) (TSym (CHR ''{''))) xs)"

definition closings :: "token list \<Rightarrow> nat" where
  "closings xs = length (filter ((=) (TSym (CHR ''}''))) xs)"

lemma counts_simps [simp]:
  "openings [] = 0" "closings [] = 0"
  "openings (x # xs) = (if x = TSym (CHR ''{'') then 1 else 0) + openings xs"
  "closings (x # xs) = (if x = TSym (CHR ''}'') then 1 else 0) + closings xs"
  "openings (xs @ ys) = openings xs + openings ys" "closings (xs @ ys) = closings xs + closings ys"
  by (auto simp: openings_def closings_def)

definition openObjects :: "frame list \<Rightarrow> nat" where
  "openObjects st = length (filter (\<lambda>f. case f of FArr _ \<Rightarrow> False | _ \<Rightarrow> True) st)"

lemma openObjects_simps [simp]:
  "openObjects [] = 0" "openObjects (FArr vs # st) = openObjects st"
  "openObjects (FObj kvs # st) = Suc (openObjects st)" "openObjects (FKey k kvs # st) = Suc (openObjects st)"
  by (simp_all add: openObjects_def)

text \<open>Right after an opening bracket its frame is on top.\<close>

definition frameOnTop :: "mode \<Rightarrow> frame list \<Rightarrow> bool" where
  "frameOnTop m st \<longleftrightarrow>
     (m = MFirst \<longrightarrow> (\<exists>vs st'. st = FArr vs # st')) \<and> (m = MFirstKey \<longrightarrow> (\<exists>kvs st'. st = FObj kvs # st'))"

lemma stepToken_balance:
  assumes "stepToken m st x = Some (m', st')" "frameOnTop m st"
  shows "frameOnTop m' st' \<and> openObjects st' + closings [x] = openObjects st + openings [x]"
proof -
  have start: "frameOnTop m' st' \<and> openObjects st' + closings [x] = openObjects st + openings [x]"
    if "startValue st x = Some (m', st')"
    using that by (auto simp: startValue_def frameOnTop_def split: token.splits if_splits)
  have key: "frameOnTop m' st' \<and> openObjects st' + closings [x] = openObjects st + openings [x]"
    if "startKey st x = Some (m', st')"
    using that by (auto simp: startKey_def frameOnTop_def split: token.splits json.splits list.splits frame.splits)
  have after: "frameOnTop m' st' \<and> openObjects st' + closings [x] = openObjects st + openings [x]"
    if "afterValue v st x = Some (m', st')" for v
    using that by (auto simp: afterValue_def frameOnTop_def split: list.splits frame.splits if_splits)
  show ?thesis
    using assms start key after by (cases m) (auto simp: frameOnTop_def split: if_splits)
qed

lemma parseTokens_balance:
  "parseTokens m st xs = Some v \<Longrightarrow> frameOnTop m st \<Longrightarrow> closings xs = openObjects st + openings xs"
proof (induction xs arbitrary: m st)
  case Nil
  then show ?case by (auto split: mode.splits list.splits)
next
  case (Cons x xs)
  then obtain m' st' where s: "stepToken m st x = Some (m', st')" "parseTokens m' st' xs = Some v"
    by (auto split: option.splits)
  from stepToken_balance [OF s(1) Cons.prems(2)] Cons.IH [OF s(2)] show ?case by (auto split: if_splits)
qed

section \<open>Glued lines\<close>

definition entryPiece :: "string \<Rightarrow> bool" where
  "entryPiece p \<longleftrightarrow> p \<noteq> [] \<and> (\<exists>e q. p @ q = marshalEntry e)"

lemma entryPiece_start:
  assumes "entryPiece p"
  obtains (brace) "p = ''{''" | (quote) "p = [CHR ''{'', DQUOTE]" | (word) r where "p = CHR ''{'' # DQUOTE # CHR ''k'' # r"
proof -
  have "quoted ''key'' = DQUOTE # CHR ''k'' # CHR ''e'' # CHR ''y'' # [DQUOTE]" by code_simp
  then have "\<exists>r. marshalEntry e = CHR ''{'' # DQUOTE # CHR ''k'' # r" for e
    by (simp add: marshalEntry_chunks entryChunks_def entryMiddle_def)
  moreover from assms obtain e q where "p @ q = marshalEntry e" "p \<noteq> []" by (auto simp: entryPiece_def)
  ultimately obtain r where e: "p @ q = CHR ''{'' # DQUOTE # CHR ''k'' # r" and "p \<noteq> []" by metis
  then obtain a where a: "p = CHR ''{'' # a" "a @ q = DQUOTE # CHR ''k'' # r" by (cases p) auto
  show thesis
  proof (cases a)
    case Nil
    with a brace show thesis by simp
  next
    case (Cons b c)
    with a have b: "p = CHR ''{'' # DQUOTE # c" "c @ q = CHR ''k'' # r" by simp_all
    then show thesis using quote word by (cases c) auto
  qed
qed

text \<open>The tokens of a cut entry open one more object than they close, unless what follows closes more.\<close>

lemma torn_lex:
  assumes "p @ q = marshalEntry e" "p \<noteq> []" "q \<noteq> []" "lexJson (p @ s) = Some xs"
    and rest: "\<And>ys. lexJson s = Some ys \<Longrightarrow> closings ys \<le> openings ys"
    and inside: "\<And>u ys. endsAtQuote u \<Longrightarrow> lexJson (DQUOTE # u @ s) = Some ys \<Longrightarrow> closings ys \<le> openings ys"
  shows "closings xs < openings xs"
proof -
  have counts: "closings (map chunkToken cs1) = 0 \<and> openings (map chunkToken cs1) = 1"
    if "entryChunks e = cs1 @ c # cs2" "cs1 \<noteq> []" for cs1 c cs2
  proof -
    from that obtain ds where d: "cs1 = Inl (CHR ''{'') # ds" by (cases cs1) (auto simp: entryChunks_def)
    with that(1) have "ds @ c # cs2 = entryMiddle e @ [Inl (CHR ''}'')]" by (simp add: entryChunks_def)
    then have "ds @ butlast (c # cs2) = entryMiddle e" by (metis butlast_append butlast_snoc list.discI)
    then have "set ds \<subseteq> set (entryMiddle e)" by (metis set_append sup_ge1)
    then have "TSym (CHR ''{'') \<noteq> chunkToken x \<and> TSym (CHR ''}'') \<noteq> chunkToken x" if "x \<in> set ds" for x
      using that entryMiddle_inner [of x e] by (cases x) auto
    then have "closings (map chunkToken ds) = 0" "openings (map chunkToken ds) = 0"
      by (simp_all add: closings_def openings_def filter_empty_conv)
    then show ?thesis by (simp add: d)
  qed
  have lex: "lexes (concat (map chunkText cs1)) (map chunkToken cs1)" if "entryChunks e = cs1 @ cs2" for cs1 cs2
    using that entryChunks_symbols [of _ e] by (intro lexes_chunks) auto
  from assms(1) have "p @ q = concat (map chunkText (entryChunks e))" by (simp add: marshalEntry_chunks)
  then show ?thesis
  proof (cases rule: cut_chunks)
    case (between cs1 cs2)
    from assms(1,3) between have "cs2 \<noteq> []" by (auto simp: marshalEntry_chunks)
    then obtain c cs3 where c: "cs2 = c # cs3" by (cases cs2) auto
    have "cs1 \<noteq> []" using between(2) assms(2) by auto
    with counts [of cs1 c cs3] between(1) c have k: "closings (map chunkToken cs1) = 0" "openings (map chunkToken cs1) = 1"
      by auto
    from lex [OF between(1)] assms(4) between(2) obtain ys where "lexJson s = Some ys" "xs = map chunkToken cs1 @ ys"
      by (auto simp: lexes_def split: option.splits)
    with rest k show ?thesis by fastforce
  next
    case (inside cs1 t cs2 u w)
    have "cs1 \<noteq> []" using inside(1) by (auto simp: entryChunks_def)
    with counts inside(1) have k: "closings (map chunkToken cs1) = 0" "openings (map chunkToken cs1) = 1" by auto
    from lex [OF inside(1)] assms(4) inside(2) obtain ys where y: "lexJson (DQUOTE # u @ s) = Some ys" "xs = map chunkToken cs1 @ ys"
      by (auto simp: lexes_def split: option.splits)
    from assms(6) [OF endsAtQuote_escape [OF inside(3)] y(1)] k y(2) show ?thesis by simp
  qed
qed

lemma whole_lex: "lexes (marshalEntry e) (map chunkToken (entryChunks e))"
  using entryChunks_symbols [of _ e] by (auto simp: marshalEntry_chunks intro: lexes_chunks)

lemma whole_counts: "closings (map chunkToken (entryChunks e)) = openings (map chunkToken (entryChunks e))"
  by (simp add: entryChunks_def entryMiddle_def)

text \<open>Pieces in a row never close more than they open, be it from inside a string.\<close>

lemma glued_lex:
  assumes "list_all entryPiece ps"
  shows "lexJson (concat ps) = Some xs \<Longrightarrow> closings xs \<le> openings xs"
    and "endsAtQuote u \<Longrightarrow> lexJson (DQUOTE # u @ braces n @ concat ps) = Some xs \<Longrightarrow> closings xs \<le> openings xs"
  using assms
proof (induction ps arbitrary: xs u n)
  case Nil
  { case 1 then show ?case by simp }
  { case 2 then show ?case by (simp add: cut_string_lexes(1)) }
next
  case (Cons p ps)
  { case 1
    then have ps: "list_all entryPiece ps" by simp
    from 1 obtain e q where e: "p @ q = marshalEntry e" "p \<noteq> []" by (auto simp: entryPiece_def)
    show ?case
    proof (cases "q = []")
      case True
      with e(1) 1(1) whole_lex [of e] obtain ys where "lexJson (concat ps) = Some ys" "xs = map chunkToken (entryChunks e) @ ys"
        by (auto simp: lexes_def split: option.splits)
      with Cons.IH(1) [OF _ ps] whole_counts [of e] show ?thesis by simp
    next
      case False
      have "closings xs < openings xs"
        using Cons.IH(2) [where n = 0, OF _ _ ps] 1(1)
        by (intro torn_lex [OF e False _ Cons.IH(1) [OF _ ps], of "concat ps"]) (auto simp: braces_def)
      then show ?thesis by simp
    qed }
  { case 2
    then have ps: "list_all entryPiece ps" and p: "entryPiece p" by simp_all
    from p show ?case
    proof (cases rule: entryPiece_start)
      case brace
      with 2(2) braces_snoc [of n "concat ps"] have "lexJson (DQUOTE # u @ braces (Suc n) @ concat ps) = Some xs" by simp
      from Cons.IH(2) [OF 2(1) this ps] show ?thesis .
    next
      case quote
      with 2(2) braces_snoc [of n "DQUOTE # concat ps"]
      have "lexJson (DQUOTE # u @ braces (Suc n) @ DQUOTE # concat ps) = Some xs" by simp
      from cut_string_lexes(2) [OF 2(1) this] Cons.IH(1) [OF _ ps] show ?thesis by auto
    next
      case (word r)
      with 2(2) braces_snoc [of n "DQUOTE # CHR ''k'' # r @ concat ps"]
      have "lexJson (DQUOTE # u @ braces (Suc n) @ DQUOTE # CHR ''k'' # r @ concat ps) = Some xs" by simp
      from cut_string_lexes(2) [OF 2(1) this] show ?thesis by (auto simp: lexJson_word)
    qed }
qed

text \<open>So two pieces or more are no JSON, whatever was cut.\<close>

theorem glued_unread:
  assumes "list_all entryPiece ps" "2 \<le> length ps"
  shows "parseJson (concat ps) = None"
proof (rule ccontr)
  assume "parseJson (concat ps) \<noteq> None"
  then obtain xs v where xs: "lexJson (concat ps) = Some xs" "parseTokens MVal [] xs = Some v"
    by (auto simp: parseJson_def split: Option.bind_splits)
  have balance: "closings xs = openings xs" using parseTokens_balance [OF xs(2)] by (simp add: frameOnTop_def)
  obtain p qs where ps: "ps = p # qs" "qs \<noteq> []" using assms(2) by (cases ps; cases "tl ps") auto
  with assms(1) have pieces: "entryPiece p" "list_all entryPiece qs" by simp_all
  then obtain e q where e: "p @ q = marshalEntry e" "p \<noteq> []" by (auto simp: entryPiece_def)
  show False
  proof (cases "q = []")
    case True
    with e(1) xs(1) whole_lex [of e] obtain ys where y: "lexJson (concat qs) = Some ys" "xs = map chunkToken (entryChunks e) @ ys"
      by (auto simp: ps(1) lexes_def split: option.splits)
    from ps(2) pieces(2) obtain r where "concat qs = CHR ''{'' # r"
      by (cases qs) (auto elim: entryPiece_start)
    then have "ys \<noteq> []" using y(1) lexJson_sym [of "CHR ''{''" r] by auto
    moreover have "parseTokens MVal [] (map chunkToken (entryChunks e)) \<noteq> None"
    proof -
      have "lexJson (marshalEntry e) = Some (map chunkToken (entryChunks e))"
        using whole_lex [of e] by (simp add: lexes_def) (metis append_Nil2 lexJson.simps(1) option.simps(5))
      then show ?thesis using parseJson_structs(3) [of e] by (simp add: parseJson_def)
    qed
    ultimately show False using xs(2) y(2) parseTokens_more by fastforce
  next
    case False
    from glued_lex(2) [OF pieces(2), where n = 0] glued_lex(1) [OF pieces(2)] xs(1)
    have "closings xs < openings xs"
      by (intro torn_lex [OF e False, of "concat qs"]) (auto simp: ps(1) braces_def)
    with balance show False by simp
  qed
qed

end
