(* ===== verification/Ledger.thy ===== *)
theory Ledger
  imports RunFiles JsonGlued
begin

text \<open>
  Where a verdict comes from. The results file is written by every run that names it, may be torn by each of
  them and is read by the next: whatever the history of runs, kills, short writes and saves, an entry that
  loads is an answer a worker gave to a job of the same key, and so is every verdict a run reports that is
  neither a timeout nor a crash.
\<close>

section \<open>The text of a results file\<close>

text \<open>A file every write appended to: whole lines of entries, or what was left of them.\<close>

definition ledgerText :: "(cacheEntry \<Rightarrow> bool) \<Rightarrow> string \<Rightarrow> bool" where
  "ledgerText good b \<longleftrightarrow> (\<exists>ps. b = concat ps \<and> (\<forall>p \<in> set ps. \<exists>e q. good e \<and> p @ q = marshalEntry e @ [NL]))"

lemma ledgerText_Nil: "ledgerText good []"
  unfolding ledgerText_def by (rule exI [of _ "[]"]) simp

lemma ledgerText_append: "ledgerText good a \<Longrightarrow> ledgerText good b \<Longrightarrow> ledgerText good (a @ b)"
  unfolding ledgerText_def
proof (elim exE conjE)
  fix ps qs
  assume "a = concat ps" "b = concat qs"
    "\<forall>p \<in> set ps. \<exists>e q. good e \<and> p @ q = marshalEntry e @ [NL]" "\<forall>p \<in> set qs. \<exists>e q. good e \<and> p @ q = marshalEntry e @ [NL]"
  then show "\<exists>rs. a @ b = concat rs \<and> (\<forall>p \<in> set rs. \<exists>e q. good e \<and> p @ q = marshalEntry e @ [NL])"
    by (intro exI [of _ "ps @ qs"]) auto
qed

lemma ledgerText_piece: "good e \<Longrightarrow> p @ q = marshalEntry e @ [NL] \<Longrightarrow> ledgerText good p"
  unfolding ledgerText_def by (rule exI [of _ "[p]"]) auto

lemma ledgerText_concat: "\<forall>e \<in> set es. good e \<Longrightarrow> ledgerText good (concat (map (\<lambda>e. marshalEntry e @ [NL]) es))"
proof (induction es)
  case (Cons e es)
  then have "ledgerText good (marshalEntry e @ [NL])" by (intro ledgerText_piece [of good e _ "[]"]) auto
  from ledgerText_append [OF this] Cons show ?case by simp
qed (simp add: ledgerText_Nil)

text \<open>A line of it is pieces of entries, one after the other.\<close>

definition gluedOf :: "(cacheEntry \<Rightarrow> bool) \<Rightarrow> string list \<Rightarrow> bool" where
  "gluedOf good ps \<longleftrightarrow> list_all (\<lambda>p. p \<noteq> [] \<and> (\<exists>e q. good e \<and> p @ q = marshalEntry e)) ps"

lemma glued_oneline: "gluedOf good ps \<Longrightarrow> NL \<notin> set (concat ps) \<and> CR \<notin> set (concat ps)"
  using entryLine.torn_line by (fastforce simp: gluedOf_def list_all_iff)

lemma ledger_lines:
  assumes "\<forall>p \<in> set ps. \<exists>e q. good e \<and> p @ q = marshalEntry e @ [NL]" "gluedOf good gs"
    and "l \<in> set (rawLines (concat gs @ concat ps))"
  shows "\<exists>ls. l = concat ls \<and> gluedOf good ls"
  using assms
proof (induction ps arbitrary: gs)
  case Nil
  from glued_oneline [OF Nil.prems(2)] Nil.prems(3) have "l = concat gs"
    by (auto simp: rawLines_def splitOn_absent Let_def split: if_splits)
  with Nil.prems(2) show ?case by blast
next
  case (Cons p ps)
  then obtain e q where e: "good e" "p @ q = marshalEntry e @ [NL]" by auto
  consider "p = []" | r where "p \<noteq> []" "p @ r = marshalEntry e" | "p = marshalEntry e @ [NL]"
    using e(2) by (cases q rule: rev_cases) auto
  then show ?case
  proof cases
    case 1
    with Cons show ?thesis by auto
  next
    case (2 r)
    then have "gluedOf good (gs @ [p])" using Cons.prems(2) e(1) by (auto simp: gluedOf_def)
    from Cons.IH [OF _ this] Cons.prems(1,3) show ?thesis by simp
  next
    case 3
    have whole: "gluedOf good (gs @ [marshalEntry e])"
      using Cons.prems(2) e(1) structs_filled(3) by (auto simp: gluedOf_def)
    have "NL \<notin> set (concat (gs @ [marshalEntry e]))" using glued_oneline [OF whole] by blast
    from rawLines_cons [OF this, of "concat ps"] 3 Cons.prems(3)
    have "l = concat (gs @ [marshalEntry e]) \<or> l \<in> set (rawLines (concat ps))" by simp
    then show ?thesis
    proof
      assume "l = concat (gs @ [marshalEntry e])"
      with whole show ?thesis by blast
    next
      assume "l \<in> set (rawLines (concat ps))"
      with Cons.IH [of "[]"] Cons.prems(1) show ?thesis by (simp add: gluedOf_def)
    qed
  qed
qed

text \<open>What such a line reads as, if it reads at all, was written.\<close>

lemma glued_reads:
  assumes "gluedOf good ls" "unmarshalEntry (concat ls) = Some e"
  shows "\<exists>e'. good e' \<and> e = validEntry e'"
proof (cases ls)
  case Nil
  have "parseJson [] = None" by (simp add: parseJson_def)
  with assms(2) Nil show ?thesis by (simp add: unmarshalEntry_def)
next
  case (Cons p ps)
  with assms(1) obtain e' q where e: "good e'" "p @ q = marshalEntry e'" by (auto simp: gluedOf_def)
  show ?thesis
  proof (cases ps)
    case Nil
    with Cons assms(2) entryLine.torn [OF e(2)] have "q = []" by auto
    with e assms(2) Cons Nil show ?thesis by (auto simp: unmarshal_marshalEntry)
  next
    case (Cons p' ps')
    with \<open>ls = p # ps\<close> have "2 \<le> length ls" by simp
    moreover have "list_all entryPiece ls" using assms(1) by (fastforce simp: gluedOf_def entryPiece_def list_all_iff)
    ultimately have "parseJson (concat ls) = None" by (intro glued_unread)
    with assms(2) show ?thesis by (simp add: unmarshalEntry_def)
  qed
qed

lemma loaded_lines:
  "fold (addLine unmarshal) lines m k = Some e \<Longrightarrow>
   m k = Some e \<or> (\<exists>l \<in> set lines. unmarshal l = Some e \<and> ceKey e = k)"
proof (induction lines arbitrary: m)
  case (Cons l lines)
  from Cons.IH [of "addLine unmarshal l m"] Cons.prems show ?case
    by (auto simp: addLine_def split: option.splits if_splits)
qed simp

text \<open>Whatever of the file loads was written, a line over the limit or not.\<close>

lemma ledgerText_loads:
  assumes "readFile fs path = FileData b" "ledgerText good b"
    and "LoadCache unmarshalEntry fs path = (Some c, err)" "ccEntries c k = Some e"
  shows "ceKey e = k \<and> (\<exists>e'. good e' \<and> e = validEntry e')"
proof -
  let ?lines = "fst (scanLines cacheLineLimit b)"
  from assms(3) have "ccEntries c = fold (addLine unmarshalEntry) ?lines Map.empty"
    by (auto simp: LoadCache_def assms(1) split: prod.splits)
  with loaded_lines [of unmarshalEntry ?lines Map.empty k e] assms(4)
  obtain l where l: "l \<in> set ?lines" "unmarshalEntry l = Some e" "ceKey e = k" by auto
  then obtain l' where l': "l' \<in> set (rawLines b)" "l = dropCR l'"
    by (auto simp: scanLines_def Let_def dest: set_takeWhileD)
  from assms(2) obtain ps where "b = concat ps" "\<forall>p \<in> set ps. \<exists>e q. good e \<and> p @ q = marshalEntry e @ [NL]"
    by (auto simp: ledgerText_def)
  with ledger_lines [of ps good "[]" l'] l'(1) obtain ls where ls: "l' = concat ls" "gluedOf good ls"
    by (auto simp: gluedOf_def)
  from glued_oneline [OF ls(2)] l'(2) ls(1) have "l = concat ls" by (simp add: dropCR_id)
  with glued_reads [OF ls(2)] l(2,3) show ?thesis by simp
qed

section \<open>A cache and its file\<close>

definition goodStore :: "(cacheEntry \<Rightarrow> bool) \<Rightarrow> string \<Rightarrow> cache \<times> filesystem \<Rightarrow> bool" where
  "goodStore good path st \<longleftrightarrow>
     ccPath (fst st) = path \<and> (\<forall>k e. ccEntries (fst st) k = Some e \<longrightarrow> ceKey e = k \<and> good e) \<and>
     (case readFile (snd st) path of
        FileMissing \<Rightarrow> True | FileData b \<Rightarrow> ledgerText good b | FileError e \<Rightarrow> False)"

lemma goodStore_contents: "goodStore good path (c, fs) \<Longrightarrow> ledgerText good (contentsOf fs path)"
  by (auto simp: goodStore_def contentsOf_def ledgerText_Nil split: file_read.splits)

lemma goodStore_same:
  assumes "goodStore good path (c, fs)" "ccPath c' = ccPath c" "ccEntries c' = ccEntries c"
    "readFile fs' path = readFile fs path"
  shows "goodStore good path (c', fs')"
  using assms by (simp add: goodStore_def)

lemma goodStore_appended:
  assumes "goodStore good path (c, fs)" "ccPath c' = ccPath c" "ccEntries c' = ccEntries c" "ledgerText good b"
  shows "goodStore good path (c', appendFile fs path b)"
  using assms ledgerText_append [OF goodStore_contents [OF assms(1)] assms(4)] by (simp add: goodStore_def)

lemma goodStore_begin:
  assumes "goodStore good path st" "BeginStream out st = (err, st')"
  shows "goodStore good path st'"
proof -
  obtain c fs where st: "st = (c, fs)" by fastforce
  show ?thesis
  proof (cases out)
    case None
    with assms(2) have "st' = (c\<lparr>ccStream := Open\<rparr>, appendFile fs path [])"
      using assms(1) by (auto simp: BeginStream_def st goodStore_def)
    with goodStore_appended [of good path c fs "c\<lparr>ccStream := Open\<rparr>" "[]"] assms(1) show ?thesis
      by (simp add: st ledgerText_Nil)
  qed (use assms in \<open>simp add: BeginStream_def\<close>)
qed

lemma goodStore_put:
  assumes "goodStore good path st" "volatileStatus (rStatus r) \<or> good (entryOf k r)"
  shows "goodStore good path (Put entryText w k r st)"
proof (cases "volatileStatus (rStatus r) \<or> ccEntries (fst st) k \<noteq> None")
  case True
  with assms(1) show ?thesis by (auto simp: Put_def split: prod.splits)
next
  case False
  then have g: "good (entryOf k r)" "\<not> volatileStatus (rStatus r)" "ccEntries (fst st) k = None" using assms(2) by auto
  obtain c fs where st: "st = (c, fs)" by fastforce
  let ?c = "c\<lparr>ccEntries := (ccEntries c)(k \<mapsto> entryOf k r), ccAdded := ccAdded c + 1\<rparr>"
  have path: "ccPath c = path" using assms(1) by (simp add: goodStore_def st)
  have memory: "goodStore good path (?c, fs)"
    using assms(1) g(1) by (auto simp: goodStore_def st entryOf_def)
  have pieces: "ledgerText good (marshalEntry (entryOf k r) @ [NL])"
    "ledgerText good (take n (marshalEntry (entryOf k r) @ [NL]))" for n
    using ledgerText_piece [where good = good and e = "entryOf k r" and q = "[]"]
      ledgerText_piece [where good = good and e = "entryOf k r" and q = "drop n (marshalEntry (entryOf k r) @ [NL])"] g(1)
    by (simp_all only: append_take_drop_id append_Nil2)
  show ?thesis
  proof (cases "ccStream c")
    case Open
    show ?thesis
    proof (cases w)
      case WroteAll
      with Open g(2,3) goodStore_appended [OF memory _ _ pieces(1), of ?c] show ?thesis
        by (simp add: Put_def st entryText_def path Let_def)
    next
      case (WroteShort n err)
      with Open g(2,3) goodStore_appended [OF memory _ _ pieces(2) [of n], of "?c\<lparr>ccStream := Failed err\<rparr>"] show ?thesis
        by (simp add: Put_def st entryText_def path Let_def)
    qed
  qed (use memory g(2,3) in \<open>simp_all add: Put_def st Let_def\<close>)
qed

lemma goodStore_puts:
  "goodStore good path st \<Longrightarrow> list_all (\<lambda>(w, k, r). volatileStatus (rStatus r) \<or> good (entryOf k r)) hist \<Longrightarrow>
   goodStore good path (fold (\<lambda>(w, k, r). Put entryText w k r) hist st)"
proof (induction hist arbitrary: st)
  case (Cons x hist)
  obtain w k r where x: "x = (w, k, r)" by (cases x)
  with Cons goodStore_put [of good path st r k w] show ?case by auto
qed simp

lemma saved_text:
  assumes "goodStore good path st" "saveText entryText (ccEntries (fst st)) keys = Some b"
  shows "ledgerText good b"
proof -
  let ?es = "map (the \<circ> ccEntries (fst st)) keys"
  have keys: "ccEntries (fst st) k \<noteq> None" if "k \<in> set keys" for k
    using assms(2) that by (auto simp: saveText_def bind_eq_Some_conv split: if_splits)
  then have marshalled: "the (Option.bind (ccEntries (fst st) k) entryText) = marshalEntry (the (ccEntries (fst st) k))"
    if "k \<in> set keys" for k using keys [OF that] by (auto simp: entryText_def)
  from assms(2) have "b = concat (map (\<lambda>k. the (Option.bind (ccEntries (fst st) k) entryText) @ [NL]) keys)"
    by (auto simp: saveText_def split: if_splits)
  also have "\<dots> = concat (map (\<lambda>e. marshalEntry e @ [NL]) ?es)"
    by (rule arg_cong [of _ _ concat]) (simp add: marshalled)
  finally have "b = concat (map (\<lambda>e. marshalEntry e @ [NL]) ?es)" .
  moreover have "\<forall>e \<in> set ?es. good e" using assms(1) keys by (fastforce simp: goodStore_def)
  ultimately show ?thesis using ledgerText_concat [of ?es good] by (simp only:)
qed

lemma tmp_path: "path \<noteq> path @ ''.tmp''"
  by simp

lemma goodStore_save:
  assumes "goodStore good path st" "Save entryText out keys st = (err, st')"
  shows "goodStore good path st'"
proof -
  obtain c fs where st: "st = (c, fs)" by fastforce
  obtain e0 c0 where close: "CloseStream (soClosed out) c = (e0, c0)" by fastforce
  then have c0: "ccPath c0 = ccPath c" "ccEntries c0 = ccEntries c" by (auto simp: CloseStream_def split: stream.splits)
  have path: "ccPath c = path" using assms(1) by (simp add: goodStore_def st)
  have same: "goodStore good path (c0, fs')" if "readFile fs' path = readFile fs path" for fs'
    using goodStore_same [of good path c fs c0 fs'] assms(1) c0 that by (simp add: st)
  have "st' = (c0, fs) \<or> st' = (c0, leavePartial out (path @ ''.tmp'') fs) \<or>
      (\<exists>b. saveText entryText (ccEntries c) keys = Some b \<and>
        (st' = (c0, writeFile fs (path @ ''.tmp'') b) \<or> st' = (c0, removeFile (writeFile fs path b) (path @ ''.tmp''))))"
    using assms(2) by (auto simp: Save_def st close c0 path Let_def split: option.splits if_splits)
  then show ?thesis
  proof (elim disjE exE conjE)
    assume "st' = (c0, leavePartial out (path @ ''.tmp'') fs)"
    then show ?thesis using same by (simp add: leavePartial_def split: option.split)
  next
    fix b assume b: "saveText entryText (ccEntries c) keys = Some b"
      and st': "st' = (c0, removeFile (writeFile fs path b) (path @ ''.tmp''))"
    from saved_text [OF assms(1)] b have "ledgerText good b" by (simp add: st)
    with assms(1) st' c0 show ?thesis by (simp add: goodStore_def st)
  qed (use same in simp_all)
qed

lemma goodStore_load:
  assumes "goodStore good path (c, fs)" "readFile fs' path = readFile fs path"
    and "LoadCache unmarshalEntry fs' path = (Some c', err)" "\<And>e. good e \<Longrightarrow> validEntry e = e"
  shows "goodStore good path (c', fs')"
proof (cases "readFile fs path")
  case (FileData b)
  with assms(1) have b: "ledgerText good b" by (simp add: goodStore_def)
  have "ceKey e = k \<and> good e" if "ccEntries c' k = Some e" for k e
    using ledgerText_loads [OF _ b assms(3) that] assms(2,4) FileData by auto
  moreover have "ccPath c' = path" using assms(3) by (auto simp: LoadCache_def emptyCache_def split: file_read.splits prod.splits)
  ultimately show ?thesis using b FileData assms(2) by (simp add: goodStore_def)
next
  case FileMissing
  with assms(2,3) show ?thesis by (auto simp: LoadCache_def goodStore_def emptyCache_def)
qed (use assms(1) in \<open>simp add: goodStore_def\<close>)

section \<open>What the pool answers\<close>

text \<open>A result of one of the jobs: an answer, unless it is a timeout or a crash.\<close>

definition earned :: "(job \<Rightarrow> result \<Rightarrow> bool) \<Rightarrow> job set \<Rightarrow> result \<Rightarrow> bool" where
  "earned runs js r \<longleftrightarrow> (\<exists>j \<in> js. rID r = jID j \<and> (volatileStatus (rStatus r) \<or> runs j r))"

definition earnedWorker :: "(job \<Rightarrow> result \<Rightarrow> bool) \<Rightarrow> job set \<Rightarrow> wstate \<Rightarrow> bool" where
  "earnedWorker runs js w \<longleftrightarrow>
     (case wsPhase w of
        WGot j \<Rightarrow> j \<in> js
      | WBusy j \<Rightarrow> j \<in> js
      | WReplied j r ok \<Rightarrow> earned runs js r
      | WSend r \<Rightarrow> earned runs js r
      | _ \<Rightarrow> True)"

definition earnedRun :: "(job \<Rightarrow> result \<Rightarrow> bool) \<Rightarrow> job set \<Rightarrow> run \<Rightarrow> bool" where
  "earnedRun runs js s \<longleftrightarrow>
     set (unsent (ruFeeder s)) \<subseteq> js \<and> list_all (earnedWorker runs js) (ruWorkers s) \<and> list_all (earned runs js) (ruDone s)"

lemma earnedWorker_update:
  "list_all (earnedWorker runs js) ws \<Longrightarrow> earnedWorker runs js w \<Longrightarrow> list_all (earnedWorker runs js) (ws[i := w])"
  by (auto simp: list_all_iff dest: set_update_subset_insert [THEN subsetD])

lemma earnedWorker_nth: "list_all (earnedWorker runs js) ws \<Longrightarrow> i < length ws \<Longrightarrow> earnedWorker runs js (ws ! i)"
  by (simp add: list_all_length)

lemma earned_volatile: "j \<in> js \<Longrightarrow> s = ''timeout'' \<or> s = ''crash'' \<Longrightarrow> earned runs js (verdict j s e)"
  by (auto simp: earned_def volatileStatus_def)

context job_runner begin

lemma reply_earned:
  assumes "answerOf runs (Replies i reply) s" "wsPhase (ruWorkers s ! i) = WBusy j" "j \<in> js"
  shows "earned runs js (fst (sendResult j reply))"
proof (cases reply)
  case (Answers r)
  with assms runs_id [of j r] show ?thesis by (auto simp: earned_def)
qed (use assms(3) in \<open>simp_all add: earned_volatile\<close>)

lemma step_earned:
  assumes "step runs cfg a s s'" "earnedRun runs js s"
  shows "earnedRun runs js s'"
  using assms(1)
proof (rule stepE)
  assume an: "answerOf runs a s" and p: "perform cfg a s = Some s'"
  from assms(2) have s: "set (unsent (ruFeeder s)) \<subseteq> js" "list_all (earnedWorker runs js) (ruWorkers s)"
    "list_all (earned runs js) (ruDone s)" by (simp_all add: earnedRun_def)
  have turn: "earnedRun runs js s'"
    if "set (unsent (ruFeeder s')) \<subseteq> js" "ruWorkers s' = (ruWorkers s)[i := w]" "earnedWorker runs js w"
      "list_all (earned runs js) (ruDone s')" for i w
    using that s earnedWorker_update by (simp add: earnedRun_def)
  show ?thesis using p
  proof (cases rule: performE)
    case (hand i j js)
    with s show ?thesis by (intro turn) (auto simp: earnedWorker_def)
  next
    case (see_closed i js)
    with s show ?thesis by (intro turn) (auto simp: earnedWorker_def)
  next
    case (spawn_fails i e j)
    with earnedWorker_nth [OF s(2), of i] have "j \<in> js" by (simp add: earnedWorker_def)
    with spawn_fails s show ?thesis by (intro turn) (auto simp: earnedWorker_def earned_volatile)
  next
    case (spawns i j)
    with earnedWorker_nth [OF s(2), of i] s show ?thesis by (intro turn) (auto simp: earnedWorker_def)
  next
    case (starts i j)
    with earnedWorker_nth [OF s(2), of i] s show ?thesis by (intro turn) (auto simp: earnedWorker_def)
  next
    case (replies i reply j)
    with earnedWorker_nth [OF s(2), of i] have "j \<in> js" by (simp add: earnedWorker_def)
    with an replies have "earned runs js (fst (sendResult j reply))" by (intro reply_earned) auto
    with replies s show ?thesis by (intro turn) (auto simp: earnedWorker_def)
  next
    case (settles i j r ok)
    with earnedWorker_nth [OF s(2), of i] s show ?thesis by (intro turn) (auto simp: earnedWorker_def)
  next
    case (collects i w1 w2 r)
    with earnedWorker_nth [OF s(2), of i] s show ?thesis by (intro turn) (auto simp: earnedWorker_def)
  qed (use s in \<open>auto simp: earnedRun_def\<close>)
qed

lemma run_earned:
  assumes "execution runs cfg (startRun cfg p cache tail) as t"
  shows "list_all (earned runs (set (plTodo p))) (ruDone t)"
proof -
  have "earnedRun runs (set (plTodo p)) t"
    using assms
  proof (rule execution_invariant)
    show "earnedRun runs (set (plTodo p)) (startRun cfg p cache tail)"
      by (auto simp: earnedRun_def earnedWorker_def list_all_iff dest: startRun_workers)
  qed (use step_earned in blast)
  then show ?thesis by (simp add: earnedRun_def)
qed

lemma RunAll_earned: "RunAll runs cfg p cache tail t \<Longrightarrow> list_all (earned runs (set (plTodo p))) (ruDone t)"
  by (erule RunAllE) (auto dest: run_earned)

end

section \<open>The history of a results file\<close>

text \<open>An entry that an answer stands behind: \<open>runs v j r\<close> is that a worker of the version \<open>v\<close> answered the job
  \<open>j\<close> with \<open>r\<close>.\<close>

definition witnessed :: "(string \<Rightarrow> job \<Rightarrow> result \<Rightarrow> bool) \<Rightarrow> cacheEntry \<Rightarrow> bool" where
  "witnessed runs e \<longleftrightarrow>
     (\<exists>v j r. runs v j r \<and> \<not> volatileStatus (rStatus r) \<and> e = entryOf (JobKey sha256Hex j v) r)"

text \<open>
  The cache in memory and the files, through any number of runs that name the same results file: starting
  without one, loading it again after whatever ended the run before (other files may change in between),
  opening the stream, any moment of any run, and saving, whatever becomes of each.
\<close>

inductive ledger ::
  "(string \<Rightarrow> job \<Rightarrow> result \<Rightarrow> bool) \<Rightarrow> string \<Rightarrow> cache \<times> filesystem \<Rightarrow> bool" for runs path where
  fresh: "readFile fs path = FileMissing \<Longrightarrow> ledger runs path (emptyCache path, fs)"
| loaded: "ledger runs path (c, fs) \<Longrightarrow> readFile fs' path = readFile fs path \<Longrightarrow>
    LoadCache unmarshalEntry fs' path = (Some c', err) \<Longrightarrow> ledger runs path (c', fs')"
| streaming: "ledger runs path st \<Longrightarrow> BeginStream out st = (err, st') \<Longrightarrow> ledger runs path st'"
| ran: "ledger runs path st \<Longrightarrow> distinct (map jID jobs) \<Longrightarrow>
    p = planJobs sha256Hex (Some (fst st)) v jobs \<Longrightarrow> cgKeys cfg = plKeys p \<Longrightarrow> cgMarshal cfg = entryText \<Longrightarrow>
    execution (runs v) cfg (startRun cfg p (Some st) tail) as t \<Longrightarrow> ruCache t = Some st' \<Longrightarrow> ledger runs path st'"
| saved: "ledger runs path st \<Longrightarrow> Save entryText out keys st = (err, st') \<Longrightarrow> ledger runs path st'"

text \<open>A family of runners whose answers have crossed the pipe.\<close>

locale ledger_runner =
  fixes runs :: "string \<Rightarrow> job \<Rightarrow> result \<Rightarrow> bool"
  assumes wired: "wire_runner (runs v)"

sublocale ledger_runner \<subseteq> version: wire_runner "runs v" for v
  by (rule wired)

lemma planJobs_answered:
  assumes "plResults (planJobs sha (Some c) v jobs) k = Some r"
  shows "\<exists>j \<in> set jobs. jID j = k \<and> Get c (JobKey sha j v) k = Some r"
proof -
  have "plResults (fold (planJob sha (Some c) v) js p) k = Some r \<Longrightarrow>
      plResults p k = Some r \<or> (\<exists>j \<in> set js. jID j = k \<and> Get c (JobKey sha j v) k = Some r)" for js p
  proof (induction js arbitrary: p)
    case (Cons j js)
    from Cons.IH [of "planJob sha (Some c) v j p"] Cons.prems show ?case
      by (auto simp: planJob_def Let_def split: option.splits if_splits)
  qed simp
  from this [OF assms [unfolded planJobs_def]] show ?thesis by simp
qed

lemma collected_from: "collected rs m k = Some r \<Longrightarrow> m k = Some r \<or> r \<in> set rs \<and> rID r = k"
proof (induction rs arbitrary: m)
  case (Cons x rs)
  from Cons.prems have "collected rs (m(rID x \<mapsto> x)) k = Some r" by (simp add: collected_def)
  from Cons.IH [OF this] show ?case by (auto split: if_splits)
qed (simp add: collected_def)

context ledger_runner begin

lemma witnessed_valid: "witnessed runs e \<Longrightarrow> validEntry e = e"
proof -
  assume "witnessed runs e"
  then obtain v j r where e: "runs v j r" "e = entryOf (JobKey sha256Hex j v) r" by (auto simp: witnessed_def)
  from version.runs_valid [OF e(1)] have "validUtf8 (rStatus r)" "validUtf8 (rError r)"
    by (cases r, simp add: validResult_def toValid_id_iff)+
  moreover have "validUtf8 (JobKey sha256Hex j v)" by (auto simp: JobKey_def intro: ascii_valid sha256Hex_ascii)
  ultimately show ?thesis by (simp add: e(2) validEntry_iff entryOf_def)
qed

text \<open>What a run records is witnessed.\<close>

lemma recorded_witnessed:
  assumes "earned (runs v) (set (plTodo p)) r" "\<not> volatileStatus (rStatus r)"
    and "distinct (map jID jobs)" "p = planJobs sha256Hex (Some c) v jobs" "cgKeys cfg = plKeys p"
  shows "witnessed runs (entryOf (cacheKeyOf cfg r) r)"
proof -
  from assms(1,2) obtain j where j: "j \<in> set (plTodo p)" "rID r = jID j" "runs v j r" by (auto simp: earned_def)
  then have "j \<in> set jobs" by (auto simp: assms(4) planJobs_todo_filter)
  from planJobs_keys [OF assms(3) this] j(2) have "cacheKeyOf cfg r = JobKey sha256Hex j v"
    by (simp add: cacheKeyOf_def assms(4,5))
  with j(3) assms(2) show ?thesis by (auto simp: witnessed_def)
qed

lemma ledger_good: "ledger runs path st \<Longrightarrow> goodStore (witnessed runs) path st"
proof (induction rule: ledger.induct)
  case (fresh fs)
  then show ?case by (simp add: goodStore_def emptyCache_def)
next
  case (loaded c fs fs' c' err)
  from goodStore_load [OF loaded.IH loaded.hyps(2,3) witnessed_valid] show ?case .
next
  case (streaming st out err st')
  from goodStore_begin [OF streaming.IH streaming.hyps(2)] show ?case .
next
  case (ran st jobs p v cfg tail as t st')
  from execution_results [OF ran.hyps(6)] ran.hyps(5,7) obtain ws where w: "length ws = length (ruDone t)"
    "st' = fold (\<lambda>(w, k, r). Put entryText w k r) (zip ws (map (\<lambda>r. (cacheKeyOf cfg r, r)) (ruDone t))) st"
    by auto
  have "volatileStatus (rStatus r) \<or> witnessed runs (entryOf (cacheKeyOf cfg r) r)" if "r \<in> set (ruDone t)" for r
    using recorded_witnessed [OF _ _ ran.hyps(2,3,4)] version.run_earned [OF ran.hyps(6)] that by (auto simp: list_all_iff)
  then have "list_all (\<lambda>(w, k, r). volatileStatus (rStatus r) \<or> witnessed runs (entryOf k r))
      (zip ws (map (\<lambda>r. (cacheKeyOf cfg r, r)) (ruDone t)))"
    by (fastforce simp: list_all_iff dest: set_zip_rightD)
  from goodStore_puts [OF ran.IH this] show ?case by (simp only: w(2))
next
  case (saved st out keys err st')
  from goodStore_save [OF saved.IH saved.hyps(2)] show ?case .
qed

lemma reported_witnessed:
  assumes "ledger runs path st" "p = planJobs sha256Hex (Some (fst st)) v jobs"
    and "RunAll (runs v) cfg p (Some st) tail t" "ruResults t k = Some r" "\<not> volatileStatus (rStatus r)"
  shows "\<exists>j \<in> set jobs. jID j = k \<and> rID r = k \<and>
    (\<exists>v' j' r'. JobKey sha256Hex j' v' = JobKey sha256Hex j v \<and> runs v' j' r' \<and>
       rStatus r' = rStatus r \<and> rError r' = rError r)"
proof -
  from assms(4) RunAll_results [OF assms(3)] have "collected (ruDone t) (plResults p) k = Some r" by simp
  from collected_from [OF this] show ?thesis
  proof
    assume "plResults p k = Some r"
    from planJobs_answered [OF this [unfolded assms(2)]]
    obtain j where j: "j \<in> set jobs" "jID j = k" "Get (fst st) (JobKey sha256Hex j v) k = Some r" by blast
    then obtain e where e: "ccEntries (fst st) (JobKey sha256Hex j v) = Some e"
      "r = \<lparr>rID = k, rStatus = ceStatus e, rError = ceError e, rTailKey = []\<rparr>"
      by (auto simp: Get_def split: option.splits)
    with ledger_good [OF assms(1)] have "ceKey e = JobKey sha256Hex j v" "witnessed runs e" by (auto simp: goodStore_def)
    then obtain v' j' r' where "runs v' j' r'" "JobKey sha256Hex j' v' = JobKey sha256Hex j v"
      "rStatus r' = ceStatus e" "rError r' = ceError e"
      by (auto simp: witnessed_def entryOf_def)
    with j(1,2) e(2) show ?thesis by auto
  next
    assume r: "r \<in> set (ruDone t) \<and> rID r = k"
    with version.RunAll_earned [OF assms(3)] assms(5) obtain j where j: "j \<in> set (plTodo p)" "rID r = jID j" "runs v j r"
      by (auto simp: earned_def list_all_iff)
    then have "j \<in> set jobs" by (auto simp: assms(2) planJobs_todo_filter)
    with j r show ?thesis by auto
  qed
qed

end

interpretation served: ledger_runner "\<lambda>v. workerRuns sha256Hex (root v) (rt v)" for root rt
  by unfold_locales

section \<open>The property\<close>

text \<open>C3. No verdict is made up. Let any number of runs, of any versions and any jobs, have shared a results
  file, each killed at any moment, its writes cut at any byte, its save failed or not: a result that the next
  run reports, other than a timeout or a crash, is that of one of its jobs, under the ID of that job, and a
  worker gave that status and that message to a job with the same results key, in this run or in an earlier
  one. Of the workers it is only asked that they answer under the ID of the job and in valid text.\<close>

theorem report_earned:
  assumes "\<And>v j r. runs v j r \<Longrightarrow> rID r = jID j \<and> validResult r = r"
    and "ledger runs path st" "p = planJobs sha256Hex (Some (fst st)) v jobs"
    and "RunAll (runs v) cfg p (Some st) tail t" "ruResults t k = Some r" "\<not> volatileStatus (rStatus r)"
  shows "\<exists>j \<in> set jobs. jID j = k \<and> rID r = k \<and>
    (\<exists>v' j' r'. JobKey sha256Hex j' v' = JobKey sha256Hex j v \<and> runs v' j' r' \<and>
       rStatus r' = rStatus r \<and> rError r' = rError r)"
proof -
  have "ledger_runner runs" by unfold_locales (use assms(1) in blast)+
  from ledger_runner.reported_witnessed [OF this assms(2-6)] show ?thesis .
qed

text \<open>Two runs: a worker passes the job in the first, whose stream tears, and the second replays it.\<close>

definition passes :: "string \<Rightarrow> job \<Rightarrow> result \<Rightarrow> bool" where
  "passes v j r \<longleftrightarrow> validUtf8 (jID j) \<and> r = verdict j ''pass'' []"

definition firstStore :: "cache \<times> filesystem" where
  "firstStore = ((emptyCache ''c'')\<lparr>ccStream := Open\<rparr>, appendFile [] ''c'' [])"

definition firstPlan :: plan where
  "firstPlan = planJobs sha256Hex (Some (fst firstStore)) ''v'' [exampleJob]"

definition firstConfig :: config where
  "firstConfig = \<lparr>cgWorkers = 1, cgMaxJobs = 0, cgAbortable = True, cgKeys = plKeys firstPlan, cgMarshal = entryText\<rparr>"

definition secondStore :: "cache \<times> filesystem" where
  "secondStore = Put entryText (WroteShort 9 (Msg ''disk full'')) (JobKey sha256Hex exampleJob ''v'')
     (verdict exampleJob ''pass'' []) firstStore"

lemma firstPlan_fields:
  "plTodo firstPlan = [exampleJob]" "plResults firstPlan = Map.empty"
  "plKeys firstPlan = [jID exampleJob \<mapsto> JobKey sha256Hex exampleJob ''v'']"
  by (simp_all add: firstPlan_def planJobs_def planJob_def firstStore_def emptyCache_def Get_def)

definition busyRun :: run where
  "busyRun =
     \<lparr>ruFeeder = Feeding [], ruWorkers = [\<lparr>wsPhase = WBusy exampleJob, wsAlive = True, wsServed = 0\<rparr>],
      ruInflight = [jID exampleJob \<mapsto> 0], ruNow = 0, ruAborted = False, ruResults = Map.empty, ruDone = [],
      ruCache = Some firstStore, ruTail = None\<rparr>"

lemma first_run:
  "\<exists>as t. execution (passes ''v'') firstConfig (startRun firstConfig firstPlan (Some firstStore) None) as t \<and>
     ruCache t = Some secondStore"
proof -
  let ?start = "startRun firstConfig firstPlan (Some firstStore) None"
  have "performAll firstConfig [Hand 0, Spawns 0, Starts 0] ?start = Some busyRun"
    by (simp add: startRun_def firstPlan_fields firstConfig_def poolSize_def onWorker_def setWorker_def busyRun_def)
  then have start: "execution (passes ''v'') firstConfig ?start [Hand 0, Spawns 0, Starts 0] busyRun"
    by (rule execution_performAll) simp
  let ?replied = "busyRun\<lparr>ruWorkers :=
      [\<lparr>wsPhase = WReplied exampleJob (verdict exampleJob ''pass'' []) True, wsAlive = True, wsServed = 0\<rparr>]\<rparr>"
  have "validUtf8 (jID exampleJob)" by (rule ascii_valid) (simp add: exampleJob_def ascii_def byteOf_def)
  then have "step (passes ''v'') firstConfig (Replies 0 (Answers (verdict exampleJob ''pass'' []))) busyRun ?replied"
    by (intro step.step) (simp_all add: busyRun_def passes_def onWorker_def setWorker_def)
  from execution.extend [OF start this]
  have replied: "execution (passes ''v'') firstConfig ?start
      [Hand 0, Spawns 0, Starts 0, Replies 0 (Answers (verdict exampleJob ''pass'' []))] ?replied" by simp
  let ?collected = "collect firstConfig (WroteShort 9 (Msg ''disk full'')) WroteAll (verdict exampleJob ''pass'' [])
      (?replied\<lparr>ruInflight := Map.empty, ruWorkers := [\<lparr>wsPhase = WIdle, wsAlive = True, wsServed = 1\<rparr>]\<rparr>)"
  have "performAll firstConfig [Settles 0, Collects 0 (WroteShort 9 (Msg ''disk full'')) WroteAll] ?replied = Some ?collected"
    by (simp add: busyRun_def onWorker_def setWorker_def settle_def firstConfig_def Let_def)
  then have "execution (passes ''v'') firstConfig ?replied [Settles 0, Collects 0 (WroteShort 9 (Msg ''disk full'')) WroteAll] ?collected"
    by (rule execution_performAll) simp
  from execution_append [OF this replied] show ?thesis
    by (intro exI conjI, assumption) (simp add: collect_def firstConfig_def firstPlan_fields busyRun_def secondStore_def)
qed

lemma second_ledger: "ledger passes ''c'' secondStore"
proof -
  have "ledger passes ''c'' (emptyCache ''c'', [])" by (rule ledger.fresh) (simp add: readFile_def)
  moreover have "BeginStream None (emptyCache ''c'', []) = (None, firstStore)"
    by (simp add: BeginStream_def firstStore_def emptyCache_def)
  ultimately have first: "ledger passes ''c'' firstStore" by (rule ledger.streaming)
  obtain as t where "execution (passes ''v'') firstConfig (startRun firstConfig firstPlan (Some firstStore) None) as t"
    "ruCache t = Some secondStore" using first_run by blast
  with ledger.ran [OF first, of "[exampleJob]" firstPlan "''v''" firstConfig] show ?thesis
    by (simp add: firstPlan_def firstConfig_def)
qed

theorem report_earned_witness:
  "\<exists>t r. RunAll (passes ''v'') firstConfig (planJobs sha256Hex (Some (fst secondStore)) ''v'' [exampleJob]) (Some secondStore) None t \<and>
     ruResults t ''a.js#strict'' = Some r \<and> rStatus r = ''pass'' \<and>
     (\<exists>v' j' r'. JobKey sha256Hex j' v' = JobKey sha256Hex exampleJob ''v'' \<and> passes v' j' r' \<and> rStatus r' = ''pass'')"
proof -
  let ?p = "planJobs sha256Hex (Some (fst secondStore)) ''v'' [exampleJob]"
  have answers: "rID r = jID j \<and> validResult r = r" if "passes v j r" for v j r
    using that by (auto simp: passes_def validResult_def verdict_def toValid_id ascii_valid ascii_def byteOf_def)
  have p: "plTodo ?p = []" "plResults ?p = [''a.js#strict'' \<mapsto> verdict exampleJob ''pass'' []]"
    by (simp_all add: planJobs_def planJob_def secondStore_def firstStore_def emptyCache_def Put_def entryText_def Get_def
        entryOf_def verdict_def volatileStatus_def exampleJob_def Let_def)
  let ?t = "(startRun firstConfig ?p (Some secondStore) None)\<lparr>ruAborted := False\<rparr>"
  have t: "RunAll (passes ''v'') firstConfig ?p (Some secondStore) None ?t" by (rule RunAll.nothing_to_do [OF p(1)])
  have r: "ruResults ?t ''a.js#strict'' = Some (verdict exampleJob ''pass'' [])" by (simp add: startRun_def p(2))
  have "\<exists>j \<in> set [exampleJob]. jID j = ''a.js#strict'' \<and> rID (verdict exampleJob ''pass'' []) = ''a.js#strict'' \<and>
    (\<exists>v' j' r'. JobKey sha256Hex j' v' = JobKey sha256Hex j ''v'' \<and> passes v' j' r' \<and>
       rStatus r' = rStatus (verdict exampleJob ''pass'' []) \<and> rError r' = rError (verdict exampleJob ''pass'' []))"
    by (rule report_earned [OF answers second_ledger refl t r]) (simp_all add: volatileStatus_def)
  then have "\<exists>v' j' r'. JobKey sha256Hex j' v' = JobKey sha256Hex exampleJob ''v'' \<and> passes v' j' r' \<and> rStatus r' = ''pass''"
    by auto
  then show ?thesis by (intro exI [of _ ?t] exI [of _ "verdict exampleJob ''pass'' []"] conjI t r) simp_all
qed

end
