(* ===== verification/Measure.thy ===== *)
theory Measure
  imports AotFacts ExpectFacts WorkPool
begin

text \<open>
  \<open>pkg/tc39/measure.go\<close>: the lower-only pass, which stages and lowers every job in this process and
  counts what happened, and its report. The jobs run concurrently and update shared counters under
  a mutex, so the order in which they finish is a parameter (\<open>order\<close>, a schedule of theory
  \<open>WorkPool\<close>); how staging and the compiler turn out is the environment of theory \<open>Aot\<close>. A panic of
  the compiler is not recovered here and ends the process: the result \<open>None\<close>.
\<close>

record lowerReport =
  lrJobs :: nat
  lrLowered :: nat
  lrHandback :: nat
  lrFront :: nat
  lrReasons :: "string \<rightharpoonup> nat"

text \<open>What one goroutine finds; \<open>Unstaged\<close> is its early return when the job cannot be staged.\<close>

datatype lowering = LoweredTo string | Gap string | FrontEnd string | Unstaged | Panicked

definition lowerJob :: "aotEnv \<Rightarrow> string \<Rightarrow> nat \<Rightarrow> job \<Rightarrow> lowering" where
  "lowerJob env scratch i j =
     (let jobDir = joinPath [scratch, ''j'' @ itoa i] in
      case aeMkdir env jobDir of
        Some e \<Rightarrow> Unstaged
      | None \<Rightarrow>
          (case stageJob (aeMkdir env) (aeWrite env) jobDir (''t'' @ itoa i @ ''.ts'') j of
             (Inl e, _) \<Rightarrow> Unstaged
           | (Inr entry, files) \<Rightarrow>
               (case aeCompile env files entry of
                  Emitted g \<Rightarrow> LoweredTo g
                | NotYetLowerable reason \<Rightarrow> Gap reason
                | Rejected err \<Rightarrow> FrontEnd (firstLine (removeAll_sub (jobDir @ [SLASH]) err))
                | Panics p \<Rightarrow> Panicked)))"

definition noteReason :: "string \<Rightarrow> string \<Rightarrow> (string \<rightharpoonup> nat) \<Rightarrow> string \<rightharpoonup> nat" where
  "noteReason bucket reason counts =
     (let k = bucket @ '' '' @ reason in counts(k \<mapsto> lookupCount counts k + 1))"

fun countLowering :: "lowering \<Rightarrow> lowerReport \<Rightarrow> lowerReport" where
  "countLowering (LoweredTo g) rep = rep\<lparr>lrLowered := lrLowered rep + 1\<rparr>"
| "countLowering (Gap reason) rep =
     rep\<lparr>lrHandback := lrHandback rep + 1, lrReasons := noteReason ''LOWER'' reason (lrReasons rep)\<rparr>"
| "countLowering (FrontEnd msg) rep =
     rep\<lparr>lrFront := lrFront rep + 1, lrReasons := noteReason ''FRONT'' msg (lrReasons rep)\<rparr>"
| "countLowering Unstaged rep = rep"
| "countLowering Panicked rep = rep"

definition countPrecooked :: "result \<Rightarrow> lowerReport \<Rightarrow> lowerReport" where
  "countPrecooked r rep =
     rep\<lparr>lrHandback := lrHandback rep + 1, lrReasons := noteReason ''PRECOOK'' (rError r) (lrReasons rep)\<rparr>"

definition lowerings :: "aotEnv \<Rightarrow> string \<Rightarrow> job list \<Rightarrow> lowering list" where
  "lowerings env scratch jobs = map (\<lambda>(i, j). lowerJob env scratch i j) (enumerate 0 jobs)"

definition scratchRoot :: "aotEnv \<Rightarrow> string \<Rightarrow> string" where
  "scratchRoot env tmp = (case aeResolve env tmp of Some real \<Rightarrow> real | None \<Rightarrow> tmp)"

definition LowerOnly :: "nat list \<Rightarrow> aotEnv \<Rightarrow> job list \<Rightarrow> result list \<Rightarrow> lowerReport option" where
  "LowerOnly order env jobs precooked =
     (let rep = fold countPrecooked precooked
           \<lparr>lrJobs = length jobs + length precooked, lrLowered = 0, lrHandback = 0, lrFront = 0,
            lrReasons = Map.empty\<rparr>
      in case aeScratch env of
           Inl e \<Rightarrow> Some rep
         | Inr tmp \<Rightarrow>
             (let outs = lowerings env (scratchRoot env tmp) jobs in
              if Panicked \<in> set outs then None
              else Some (fold countLowering (map ((!) outs) order) rep)))"

text \<open>What the report prints; \<open>reasons\<close> is the order of the \<open>range\<close> over the counts.\<close>

definition PrintLowerReport :: "string list \<Rightarrow> lowerReport \<Rightarrow> int \<Rightarrow> string" where
  "PrintLowerReport reasons rep topN =
     (let sorted = sortSlice reasonLess
           (map (\<lambda>k. \<lparr>rcReason = k, rcCount = lookupCount (lrReasons rep) k\<rparr>) reasons)
      in ''jobs='' @ itoa (lrJobs rep) @ '' lowered='' @ itoa (lrLowered rep) @
         '' handback='' @ itoa (lrHandback rep) @ '' front='' @ itoa (lrFront rep) @ [NL] @
         concat (map (reasonLine 6) (if topN > 0 then take (nat topN) sorted else sorted)))"

section \<open>Counting\<close>

lemma countLowering_commute:
  "countLowering x (countLowering y rep) = countLowering y (countLowering x rep)"
proof -
  have "noteReason b r (noteReason b' r' m) = noteReason b' r' (noteReason b r m)" for b r b' r' m
    by (cases "b @ '' '' @ r = b' @ '' '' @ r'") (simp_all add: noteReason_def Let_def lookupCount_def fun_upd_twist)
  then show ?thesis by (cases x; cases y) simp_all
qed

lemma schedule_mset:
  assumes "schedule (length outs) order"
  shows "mset (map ((!) outs) order) = mset outs"
proof -
  from assms have "mset order = mset [0..<length outs]"
    by (metis schedule_def set_eq_iff_mset_eq_distinct distinct_upt atLeast_upt)
  then have "mset (map ((!) outs) order) = mset (map ((!) outs) [0..<length outs])" by (simp only: mset_map)
  then show ?thesis by (simp only: map_nth)
qed

lemma length_lowerings [simp]: "length (lowerings env scratch jobs) = length jobs"
  by (simp add: lowerings_def)

lemma count_schedule:
  "schedule (length outs) order \<Longrightarrow>
   fold countLowering (map ((!) outs) order) rep = fold countLowering outs rep"
  by (rule fold_multiset_equiv [THEN fun_cong])
    (simp_all only: fun_eq_iff comp_apply countLowering_commute schedule_mset, simp)

text \<open>The reason a job is counted under, if any.\<close>

fun reasonKey :: "lowering \<Rightarrow> string option" where
  "reasonKey (Gap reason) = Some (''LOWER '' @ reason)"
| "reasonKey (FrontEnd msg) = Some (''FRONT '' @ msg)"
| "reasonKey out = None"

definition tallies_of :: "lowering list \<Rightarrow> (lowering \<Rightarrow> bool) \<Rightarrow> nat" where
  "tallies_of outs P = length (filter P outs)"

lemma lookup_noteReason:
  "lookupCount (noteReason bucket reason m) k = lookupCount m k + (if bucket @ '' '' @ reason = k then 1 else 0)"
  by (simp add: noteReason_def lookupCount_def Let_def)

lemma countPrecooked_fields:
  "lrJobs (countPrecooked r rep) = lrJobs rep" "lrLowered (countPrecooked r rep) = lrLowered rep"
  "lrHandback (countPrecooked r rep) = lrHandback rep + 1" "lrFront (countPrecooked r rep) = lrFront rep"
  "lookupCount (lrReasons (countPrecooked r rep)) k =
     lookupCount (lrReasons rep) k + (if ''PRECOOK '' @ rError r = k then 1 else 0)"
  by (simp_all add: countPrecooked_def lookup_noteReason)

lemma fold_countLowering:
  "lrJobs (fold countLowering outs rep) = lrJobs rep"
  "lrLowered (fold countLowering outs rep) = lrLowered rep + tallies_of outs (\<lambda>out. \<exists>g. out = LoweredTo g)"
  "lrHandback (fold countLowering outs rep) = lrHandback rep + tallies_of outs (\<lambda>out. \<exists>r. out = Gap r)"
  "lrFront (fold countLowering outs rep) = lrFront rep + tallies_of outs (\<lambda>out. \<exists>r. out = FrontEnd r)"
  "lookupCount (lrReasons (fold countLowering outs rep)) k =
     lookupCount (lrReasons rep) k + tallies_of outs (\<lambda>out. reasonKey out = Some k)"
proof (induction outs arbitrary: rep)
  case (Cons out outs)
  {
    case 1 show ?case by (cases out) (simp_all add: Cons.IH)
    case 2 show ?case by (cases out) (simp_all add: Cons.IH tallies_of_def)
    case 3 show ?case by (cases out) (simp_all add: Cons.IH tallies_of_def)
    case 4 show ?case by (cases out) (simp_all add: Cons.IH tallies_of_def)
    case 5 show ?case by (cases out) (simp_all add: Cons.IH tallies_of_def lookup_noteReason)
  }
qed (simp_all add: tallies_of_def)

lemma fold_countPrecooked:
  "lrJobs (fold countPrecooked pre rep) = lrJobs rep"
  "lrLowered (fold countPrecooked pre rep) = lrLowered rep"
  "lrHandback (fold countPrecooked pre rep) = lrHandback rep + length pre"
  "lrFront (fold countPrecooked pre rep) = lrFront rep"
  "lookupCount (lrReasons (fold countPrecooked pre rep)) k =
     lookupCount (lrReasons rep) k + length (filter (\<lambda>r. ''PRECOOK '' @ rError r = k) pre)"
proof (induction pre arbitrary: rep)
  case (Cons r pre)
  {
    case 1 show ?case by (simp add: Cons.IH countPrecooked_fields)
    case 2 show ?case by (simp add: Cons.IH countPrecooked_fields)
    case 3 show ?case by (simp add: Cons.IH countPrecooked_fields)
    case 4 show ?case by (simp add: Cons.IH countPrecooked_fields)
    case 5 show ?case by (simp add: Cons.IH countPrecooked_fields)
  }
qed simp_all

lemma tallies_partition:
  "Panicked \<notin> set outs \<Longrightarrow>
   tallies_of outs (\<lambda>out. \<exists>g. out = LoweredTo g) + tallies_of outs (\<lambda>out. \<exists>r. out = Gap r) +
     tallies_of outs (\<lambda>out. \<exists>r. out = FrontEnd r) + tallies_of outs (\<lambda>out. out = Unstaged) = length outs"
proof (induction outs)
  case (Cons out outs)
  then show ?case by (cases out) (simp_all add: tallies_of_def)
qed (simp add: tallies_of_def)

section \<open>The properties\<close>

text \<open>C32. The report is exact, whatever order the jobs finish in: every count is the number of jobs (and
  precooked results) of its kind, each reason comes with the number of those that share it, and the
  three counts add up to the number of jobs except for the jobs that could not be staged, which are
  dropped without a trace.\<close>

theorem lower_report_exact:
  assumes "schedule (length jobs) order" "aeScratch env = Inr tmp"
    and "LowerOnly order env jobs pre = Some rep"
    and "outs = lowerings env (scratchRoot env tmp) jobs"
  shows "lrLowered rep = tallies_of outs (\<lambda>out. \<exists>g. out = LoweredTo g) \<and>
    lrHandback rep = length pre + tallies_of outs (\<lambda>out. \<exists>r. out = Gap r) \<and>
    lrFront rep = tallies_of outs (\<lambda>out. \<exists>r. out = FrontEnd r) \<and>
    lookupCount (lrReasons rep) k = length (filter (\<lambda>r. ''PRECOOK '' @ rError r = k) pre) +
      tallies_of outs (\<lambda>out. reasonKey out = Some k) \<and>
    lrLowered rep + lrHandback rep + lrFront rep + tallies_of outs (\<lambda>out. out = Unstaged) = lrJobs rep \<and>
    lrJobs rep = length jobs + length pre"
proof -
  let ?start = "\<lparr>lrJobs = length jobs + length pre, lrLowered = 0, lrHandback = 0, lrFront = 0,
    lrReasons = Map.empty\<rparr>"
  have sched: "schedule (length outs) order" using assms(1) by (simp add: assms(4))
  from assms(3) have p: "Panicked \<notin> set outs"
    and "rep = fold countLowering (map ((!) outs) order) (fold countPrecooked pre ?start)"
    unfolding LowerOnly_def Let_def assms(2,4) by (auto split: if_splits)
  then have rep: "rep = fold countLowering outs (fold countPrecooked pre ?start)"
    by (simp only: count_schedule [OF sched])
  have "lookupCount Map.empty k = 0" by (simp add: lookupCount_def)
  with tallies_partition [OF p] show ?thesis
    by (simp add: rep fold_countLowering fold_countPrecooked assms(4))
qed

definition mixedEnv :: aotEnv where
  "mixedEnv = exampleEnv\<lparr>
     aeCompile := (\<lambda>files entry. if entry = ''/tmp/b1/j1/t1.ts'' then Rejected ''bad'' else Emitted entry)\<rparr>"

lemma mixedEnv_lowerings:
  "lowerings mixedEnv ''/tmp/b1'' [exampleJob, exampleJob] = [LoweredTo ''/tmp/b1/j0/t0.ts'', FrontEnd ''bad'']"
  unfolding lowerings_def mixedEnv_def exampleEnv_def exampleJob_def
  by (simp add: lowerJob_def itoa.simps) code_simp

lemma mixedEnv_scratch: "aeScratch mixedEnv = Inr ''/tmp/b1''" "scratchRoot mixedEnv ''/tmp/b1'' = ''/tmp/b1''"
  by (simp_all add: mixedEnv_def exampleEnv_def scratchRoot_def)

lemma mixedEnv_report:
  "\<exists>rep. LowerOnly [1, 0] mixedEnv [exampleJob, exampleJob] [] = Some rep"
  by (simp add: LowerOnly_def mixedEnv_scratch mixedEnv_lowerings)

theorem lower_report_exact_witness:
  "\<exists>rep. LowerOnly [1, 0] mixedEnv [exampleJob, exampleJob] [] = Some rep \<and>
     lrLowered rep = 1 \<and> lookupCount (lrReasons rep) ''FRONT bad'' = 1 \<and> lrJobs rep = 2"
proof -
  from mixedEnv_report obtain rep where rep: "LowerOnly [1, 0] mixedEnv [exampleJob, exampleJob] [] = Some rep" ..
  have "schedule (length [exampleJob, exampleJob]) [1, 0]" by (auto simp: schedule_def)
  from lower_report_exact [OF this mixedEnv_scratch(1) rep refl, of "''FRONT bad''"] rep show ?thesis
    by (simp add: mixedEnv_scratch mixedEnv_lowerings tallies_of_def)
qed

text \<open>A lowered job is no upper bound on a passing one, as the comment has it: a test that demands an early
  error passes a run when the front end rejects it, and this pass counts it under \<open>front\<close>.\<close>

theorem rejected_job_passes:
  assumes "aeScratch env = Inr tmp" "compiled env (scratchRoot env tmp) j = Some (Rejected err)"
    and "lowerJob env (scratchRoot env tmp) 0 j = FrontEnd msg" "earlyError j"
  shows "rStatus (fst (ExecuteAOT sha env root tail rt j dirs)) = ''pass'' \<and>
    map_option lrLowered (LowerOnly [0] env [j] []) = Some 0"
proof
  show "rStatus (fst (ExecuteAOT sha env root tail rt j dirs)) = ''pass''"
    using assms by (auto simp: ExecuteAOT_def scratchRoot_def Let_def stagedVerdict_compiled judgeRejected_def
      earlyError_def split: option.splits)
  show "map_option lrLowered (LowerOnly [0] env [j] []) = Some 0"
    using assms(1,3) by (simp add: LowerOnly_def lowerings_def)
qed

definition rejectingEnv :: aotEnv where
  "rejectingEnv = exampleEnv\<lparr>aeCompile := (\<lambda>files entry. Rejected ''bad'')\<rparr>"

theorem rejected_job_passes_witness:
  "rStatus (fst (ExecuteAOT (\<lambda>s. s) rejectingEnv ''/m'' None ''rt''
     (exampleJob\<lparr>jNegType := ''SyntaxError'', jNegPhase := ''parse''\<rparr>) {})) = ''pass''"
proof (rule rejected_job_passes [THEN conjunct1])
  show "aeScratch rejectingEnv = Inr ''/tmp/b1''" by (simp add: rejectingEnv_def exampleEnv_def)
  have r: "scratchRoot rejectingEnv ''/tmp/b1'' = ''/tmp/b1''"
    by (simp add: rejectingEnv_def exampleEnv_def scratchRoot_def)
  show "compiled rejectingEnv (scratchRoot rejectingEnv ''/tmp/b1'')
      (exampleJob\<lparr>jNegType := ''SyntaxError'', jNegPhase := ''parse''\<rparr>) = Some (Rejected ''bad'')"
    unfolding r by code_simp
  show "lowerJob rejectingEnv (scratchRoot rejectingEnv ''/tmp/b1'') 0
      (exampleJob\<lparr>jNegType := ''SyntaxError'', jNegPhase := ''parse''\<rparr>) = FrontEnd ''bad''"
    unfolding r lowerJob_def rejectingEnv_def exampleEnv_def exampleJob_def by (simp add: itoa.simps) code_simp
  show "earlyError (exampleJob\<lparr>jNegType := ''SyntaxError'', jNegPhase := ''parse''\<rparr>)" by code_simp
qed

end
