(* ===== verification/Fingerprint.thy ===== *)
theory Fingerprint
  imports Discover
begin

text \<open>
  The three content fingerprints: \<open>tailcache.go\<close>'s \<open>RuntimeHash\<close> (what a binary links), \<open>harnessfp.go\<close>'s
  \<open>HarnessFingerprint\<close> (what composes and judges a test) and \<open>aot.go\<close>'s \<open>moduleFingerprint\<close> (what
  lowers it). Each digests the names and bytes of a selection of files, a NUL byte after each name
  and each content. The digest is an argument (theory \<open>Sha256\<close> gives the program's), and so are the files the
  build embeds in the binary.
\<close>

section \<open>Framing\<close>

definition frame_of :: "string \<times> string \<Rightarrow> string" where
  "frame_of = (\<lambda>(name, content). name @ [NUL] @ content @ [NUL])"

definition frames :: "(string \<times> string) list \<Rightarrow> string" where
  "frames files = concat (map frame_of files)"

lemma frames_Nil [simp]: "frames [] = []"
  by (simp add: frames_def)

lemma frames_Cons [simp]: "frames (f # fs) = frame_of f @ frames fs"
  by (simp add: frames_def)

lemma frames_append [simp]: "frames (fs @ gs) = frames fs @ frames gs"
  by (simp add: frames_def)

definition framable :: "(string \<times> string) list \<Rightarrow> bool" where
  "framable files \<longleftrightarrow> list_all (\<lambda>(name, content). NUL \<notin> set name \<and> NUL \<notin> set content) files"

text \<open>Without NUL bytes in names and contents the framing loses nothing.\<close>

lemma frames_inject:
  "framable fs \<Longrightarrow> framable gs \<Longrightarrow> frames fs = frames gs \<Longrightarrow> fs = gs"
proof (induction fs arbitrary: gs)
  case Nil
  then show ?case by (cases gs) (auto simp: frame_of_def split: prod.splits)
next
  case (Cons f fs)
  then obtain g gs' where gs: "gs = g # gs'" by (cases gs) (auto simp: frame_of_def split: prod.splits)
  obtain n c n' c' where f: "f = (n, c)" "g = (n', c')" by (cases f; cases g)
  from Cons.prems have free: "NUL \<notin> set n" "NUL \<notin> set c" "NUL \<notin> set n'" "NUL \<notin> set c'"
    by (simp_all add: framable_def gs f)
  from Cons.prems(3) have "n @ NUL # c @ NUL # frames fs = n' @ NUL # c' @ NUL # frames gs'"
    by (simp add: gs f frame_of_def)
  with free have "n = n'" "c = c'" "frames fs = frames gs'" by (simp_all add: first_sep_unique)
  with Cons.IH [of gs'] Cons.prems(1,2) show ?case by (simp add: gs f framable_def)
qed

text \<open>
  Reading the files of a selection in order, each at its \<open>path\<close> and under its \<open>name\<close>; the first error
  ends it. (The relative name of a path found below its root always exists, so whether the code
  asks for it before or after reading does not show.)
\<close>

fun readNamed ::
  "filesystem \<Rightarrow> (string \<Rightarrow> string) \<Rightarrow> (string \<Rightarrow> goerror + string) \<Rightarrow> string list \<Rightarrow> goerror + (string \<times> string) list" where
  "readNamed fs path name [] = Inr []"
| "readNamed fs path name (p # ps) =
     (case readFile fs (path p) of
        FileMissing \<Rightarrow> Inl (OsError (''open '' @ path p @ '': no such file or directory''))
      | FileError e \<Rightarrow> Inl (OsError e)
      | FileData b \<Rightarrow>
          (case name p of
             Inl e \<Rightarrow> Inl e
           | Inr n \<Rightarrow>
               (case readNamed fs path name ps of Inl e \<Rightarrow> Inl e | Inr files \<Rightarrow> Inr ((n, b) # files))))"

definition relTo :: "string \<Rightarrow> string \<Rightarrow> goerror + string" where
  "relTo root p =
     (case relPath root p of
        None \<Rightarrow> Inl (Msg (''Rel: can't make '' @ p @ '' relative to '' @ root))
      | Some rel \<Rightarrow> Inr rel)"

section \<open>The runtime a binary links\<close>

definition linkedPaths :: "filesystem \<Rightarrow> string \<Rightarrow> goerror + string list" where
  "linkedPaths fs root =
     (case walkDir fs (joinPath [root, ''pkg'', ''value'']) of
        Inl e \<Rightarrow> Inl e
      | Inr paths \<Rightarrow> Inr (sortStrings (filter (\<lambda>p. \<not> HasSuffix p ''_test.go'') paths)))"

definition moduleFiles :: "filesystem \<Rightarrow> string \<Rightarrow> goerror + (string \<times> string) list" where
  "moduleFiles fs root =
     readNamed fs (\<lambda>name. joinPath [root, name]) Inr [''go.mod'', ''go.sum'']"

definition linkedFiles :: "filesystem \<Rightarrow> string \<Rightarrow> goerror + (string \<times> string) list" where
  "linkedFiles fs root =
     (case linkedPaths fs root of
        Inl e \<Rightarrow> Inl e
      | Inr paths \<Rightarrow>
          (case readNamed fs (\<lambda>p. p) (relTo root) paths of
             Inl e \<Rightarrow> Inl e
           | Inr files \<Rightarrow>
               (case moduleFiles fs root of Inl e \<Rightarrow> Inl e | Inr mods \<Rightarrow> Inr (files @ mods))))"

definition RuntimeHash :: "(string \<Rightarrow> string) \<Rightarrow> filesystem \<Rightarrow> string \<Rightarrow> goerror + string" where
  "RuntimeHash sha fs root =
     (case linkedFiles fs root of Inl e \<Rightarrow> Inl e | Inr files \<Rightarrow> Inr (sha (frames files)))"

section \<open>The harness\<close>

text \<open>The embedded files in name order; \<open>ReadFile\<close> of a name \<open>ReadDir\<close> listed succeeds.\<close>

definition embeddedFiles :: "(string \<rightharpoonup> string) \<Rightarrow> string list \<Rightarrow> (string \<times> string) list" where
  "embeddedFiles source names =
     map (\<lambda>n. (n, case source n of None \<Rightarrow> [] | Some b \<Rightarrow> b)) (sortStrings names)"

text \<open>A port that cannot be made relative keeps its path; a read error names the port.\<close>

fun readPorts :: "filesystem \<Rightarrow> string \<Rightarrow> string list \<Rightarrow> goerror + (string \<times> string) list" where
  "readPorts fs portsDir [] = Inr []"
| "readPorts fs portsDir (p # ps) =
     (let rel = (case relPath portsDir p of None \<Rightarrow> p | Some r \<Rightarrow> r) in
      case readFile fs p of
        FileMissing \<Rightarrow> Inl (Wrapped (''read port '' @ p) (OsError (''open '' @ p @ '': no such file or directory'')))
      | FileError e \<Rightarrow> Inl (Wrapped (''read port '' @ p) (OsError e))
      | FileData b \<Rightarrow>
          (case readPorts fs portsDir ps of Inl e \<Rightarrow> Inl e | Inr files \<Rightarrow> Inr ((rel, b) # files)))"

definition portFiles :: "filesystem \<Rightarrow> string \<Rightarrow> goerror + (string \<times> string) list" where
  "portFiles fs portsDir =
     (case walkDir fs portsDir of
        Inl e \<Rightarrow> Inl (Wrapped (''walk ports dir '' @ portsDir) e)
      | Inr paths \<Rightarrow> readPorts fs portsDir (sortStrings (filter (\<lambda>p. HasSuffix (basePath p) ''.ts'') paths)))"

definition HarnessFingerprint ::
  "(string \<Rightarrow> string) \<Rightarrow> (string \<rightharpoonup> string) \<Rightarrow> string list \<Rightarrow> filesystem \<Rightarrow> string \<Rightarrow> goerror + string" where
  "HarnessFingerprint sha source names fs portsDir =
     (case portFiles fs portsDir of
        Inl e \<Rightarrow> Inl e
      | Inr ports \<Rightarrow> Inr (take 12 (sha (frames (embeddedFiles source names @ ports)))))"

section \<open>The compiler\<close>

definition skippedDir :: "string \<Rightarrow> bool" where
  "skippedDir name \<longleftrightarrow> name = ''.git'' \<or> name = ''testdata'' \<or> name = ''node_modules''"

text \<open>The directories between the root of a walk and a file below it, the root included.\<close>

definition dirsAbove :: "string \<Rightarrow> string \<Rightarrow> string list" where
  "dirsAbove root p =
     (if p = root then [] else basePath root # butlast (splitOn SLASH (drop (length root + 1) p)))"

definition fingerprinted :: "string \<Rightarrow> string \<Rightarrow> bool" where
  "fingerprinted root p \<longleftrightarrow>
     (let name = basePath p in
      \<not> list_ex skippedDir (dirsAbove root p) \<and>
      (name = ''go.mod'' \<or> (HasSuffix name ''.go'' \<and> \<not> HasSuffix name ''_test.go'')))"

definition moduleFingerprint :: "(string \<Rightarrow> string) \<Rightarrow> filesystem \<Rightarrow> string \<Rightarrow> goerror + string" where
  "moduleFingerprint sha fs src =
     (case walkDir fs src of
        Inl e \<Rightarrow> Inl e
      | Inr paths \<Rightarrow>
          (case readNamed fs (\<lambda>p. p) (relTo src) (filter (fingerprinted src) paths) of
             Inl e \<Rightarrow> Inl e
           | Inr files \<Rightarrow> Inr (take 12 (sha (frames files)))))"

end
