(* ===== verification/FingerprintFacts.thy ===== *)
theory FingerprintFacts
  imports Fingerprint DiscoverFacts
begin

text \<open>
  What a fingerprint tells apart: trees of text files, up to a collision of the digest; what it leaves
  out; and where its framing is ambiguous.
\<close>

section \<open>Reading a selection\<close>

lemma readNamed_contents:
  "readNamed fs path name ps = Inr files \<Longrightarrow>
   map Inr (map fst files) = map name ps \<and>
   list_all2 (\<lambda>p f. readFile fs (path p) = FileData (snd f)) ps files"
proof (induction ps arbitrary: files)
  case (Cons p ps)
  then obtain b n files' where "readFile fs (path p) = FileData b" "name p = Inr n"
      "readNamed fs path name ps = Inr files'" "files = (n, b) # files'"
    by (auto split: file_read.splits sum.splits)
  with Cons.IH show ?case by simp
qed simp

lemma readNamed_same:
  "(\<And>p. p \<in> set ps \<Longrightarrow> readFile fs' (path p) = readFile fs (path p)) \<Longrightarrow>
   readNamed fs' path name ps = readNamed fs path name ps"
proof (induction ps)
  case (Cons p ps)
  then have "readNamed fs' path name ps = readNamed fs path name ps" "readFile fs' (path p) = readFile fs (path p)"
    by simp_all
  then show ?case by (simp split: file_read.split sum.split)
qed simp

section \<open>What moves the runtime hash\<close>

definition linkedPath :: "string \<Rightarrow> string \<Rightarrow> bool" where
  "linkedPath root p \<longleftrightarrow>
     (under (joinPath [root, ''pkg'', ''value'']) p \<and> \<not> HasSuffix p ''_test.go'') \<or>
     p \<in> {joinPath [root, ''go.mod''], joinPath [root, ''go.sum'']}"

lemma walkDir_write:
  assumes "walkDir fs base = Inr paths" "\<not> under base p \<or> \<not> P p"
  obtains paths' where "walkDir (writeFile fs p b) base = Inr paths'"
    and "mset (filter P paths') = mset (filter P paths)"
proof -
  let ?fs = "writeFile fs p b"
  have names: "set (remdups (map fst ?fs)) = insert p (fst ` set fs)" by (auto simp: writeFile_def)
  from assms(1) have "filter (under base) (remdups (map fst fs)) \<noteq> []"
    by (simp add: walkDir_def Let_def split: if_splits)
  then have "set (filter (under base) (remdups (map fst ?fs))) \<noteq> {}"
    unfolding set_filter names by (auto simp: filter_empty_conv)
  then obtain paths' where w: "walkDir ?fs base = Inr paths'"
    by (simp add: walkDir_def Let_def del: set_filter)
  have "set (filter P paths') = set (filter P paths)" "distinct (filter P paths')" "distinct (filter P paths)"
    using walkDir_Inr(1,2) [OF w] walkDir_Inr(1,2) [OF assms(1)] assms(2) by (auto simp: writeFile_def)
  then have "mset (filter P paths') = mset (filter P paths)" by (metis set_eq_iff_mset_eq_distinct)
  with w show ?thesis by (rule that)
qed

lemma linkedPaths_set: "linkedPaths fs root = Inr ps \<Longrightarrow> set ps \<subseteq> {p. linkedPath root p}"
  by (auto simp: linkedPaths_def linkedPath_def set_sortStrings walkDir_Inr(1) split: sum.splits)

lemma linkedPaths_write:
  assumes "linkedPaths fs root = Inr ps" "\<not> linkedPath root p"
  shows "linkedPaths (writeFile fs p b) root = Inr ps"
proof -
  let ?P = "\<lambda>p. \<not> HasSuffix p ''_test.go''"
  from assms(1) obtain paths where w: "walkDir fs (joinPath [root, ''pkg'', ''value'']) = Inr paths"
    and ps: "ps = sortStrings (filter ?P paths)" by (auto simp: linkedPaths_def split: sum.splits)
  from assms(2) have "\<not> under (joinPath [root, ''pkg'', ''value'']) p \<or> \<not> ?P p" by (auto simp: linkedPath_def)
  from walkDir_write [where P = ?P, OF w this] obtain paths' where
    "walkDir (writeFile fs p b) (joinPath [root, ''pkg'', ''value'']) = Inr paths'"
    "mset (filter ?P paths') = mset (filter ?P paths)" .
  then show ?thesis by (simp add: linkedPaths_def ps sortStrings_order_free)
qed

section \<open>The properties\<close>

text \<open>The runtime hash pins what a binary links: module roots with the same hash hold the same relative
  paths with the same bytes under \<open>pkg/value\<close> (test files apart) and the same \<open>go.mod\<close> and \<open>go.sum\<close>,
  unless the digest collides, as long as no name and no file holds a NUL byte.\<close>

theorem runtime_hash_pins:
  assumes "linkedFiles fs root = Inr files" "linkedFiles fs' root' = Inr files'"
    and "framable files" "framable files'"
    and "RuntimeHash sha fs root = RuntimeHash sha fs' root'"
  shows "files = files' \<or> (\<exists>x y. x \<noteq> y \<and> sha x = sha y)"
  using assms frames_inject [OF assms(3,4)] by (auto simp: RuntimeHash_def)

text \<open>A file that no binary links does not perturb the hash: writing a test file, or any file outside
  \<open>pkg/value\<close> other than the two module files, leaves it as it was.\<close>

theorem runtime_hash_ignores:
  assumes "RuntimeHash sha fs root = Inr h" "\<not> linkedPath root p"
  shows "RuntimeHash sha (writeFile fs p b) root = Inr h"
proof -
  from assms(1) obtain ps where ps: "linkedPaths fs root = Inr ps"
    by (auto simp: RuntimeHash_def linkedFiles_def split: sum.splits)
  have other: "linkedPath root q \<Longrightarrow> readFile (writeFile fs p b) q = readFile fs q" for q
    using assms(2) by auto
  have "readNamed (writeFile fs p b) (\<lambda>p. p) (relTo root) ps = readNamed fs (\<lambda>p. p) (relTo root) ps"
    using linkedPaths_set [OF ps] by (intro readNamed_same other) auto
  moreover have "moduleFiles (writeFile fs p b) root = moduleFiles fs root"
    unfolding moduleFiles_def by (rule readNamed_same, rule other) (auto simp: linkedPath_def)
  ultimately have "linkedFiles (writeFile fs p b) root = linkedFiles fs root"
    by (simp add: linkedFiles_def ps linkedPaths_write [OF ps assms(2)] split: sum.split)
  then show ?thesis using assms(1) by (simp add: RuntimeHash_def)
qed

definition tinyRoot :: filesystem where
  "tinyRoot = [(''m/pkg/value/v.go'', FileData ''package value''), (''m/go.mod'', FileData ''module m''),
     (''m/pkg/value/v_test.go'', FileData ''test''), (''m/go.sum'', FileData [])]"

lemma tinyRoot_linked:
  "linkedFiles tinyRoot ''m'' =
     Inr [(''pkg/value/v.go'', ''package value''), (''go.mod'', ''module m''), (''go.sum'', [])]"
  by code_simp

theorem runtime_hash_ignores_witness:
  "RuntimeHash (\<lambda>s. s) (writeFile tinyRoot ''m/pkg/value/w_test.go'' ''other'') ''m'' =
   RuntimeHash (\<lambda>s. s) tinyRoot ''m''"
proof -
  have h: "RuntimeHash (\<lambda>s. s) tinyRoot ''m'' = Inr (frames
      [(''pkg/value/v.go'', ''package value''), (''go.mod'', ''module m''), (''go.sum'', [])])"
    by (simp add: RuntimeHash_def tinyRoot_linked)
  have "\<not> linkedPath ''m'' ''m/pkg/value/w_test.go''" unfolding linkedPath_def by code_simp
  from runtime_hash_ignores [OF h this] h show ?thesis by simp
qed

theorem runtime_hash_pins_witness:
  "[(''pkg/value/v.go'', ''package value''), (''go.mod'', ''module m''), (''go.sum'', [])] =
     [(''pkg/value/v.go'', ''package value''), (''go.mod'', ''module m''), (''go.sum'', [])] \<or>
   (\<exists>x y. x \<noteq> y \<and> (\<lambda>s :: string. s) x = (\<lambda>s. s) y)"
  by (rule runtime_hash_pins [OF tinyRoot_linked tinyRoot_linked]) (simp_all add: framable_def)

text \<open>The harness fingerprint moves with the harness: binaries and port directories with the same
  fingerprint embed and hold the same files, unless the twelve digits collide, as long as no name and
  no file holds a NUL byte.\<close>

theorem harness_fingerprint_pins:
  assumes "portFiles fs d = Inr ports" "portFiles fs' d' = Inr ports'"
    and "framable (embeddedFiles source names @ ports)" "framable (embeddedFiles source' names' @ ports')"
    and "HarnessFingerprint sha source names fs d = HarnessFingerprint sha source' names' fs' d'"
  shows "embeddedFiles source names @ ports = embeddedFiles source' names' @ ports' \<or>
    (\<exists>x y. x \<noteq> y \<and> take 12 (sha x) = take 12 (sha y))"
  using assms(1,2,5) frames_inject [OF assms(3,4)] by (auto simp: HarnessFingerprint_def simp del: frames_append)

theorem harness_fingerprint_pins_witness:
  "embeddedFiles Map.empty [''a.go''] @ [(''sta.ts'', ''x'')] = embeddedFiles Map.empty [''a.go''] @ [(''sta.ts'', ''x'')] \<or>
   (\<exists>x y. x \<noteq> y \<and> take 12 ((\<lambda>s :: string. s) x) = take 12 ((\<lambda>s. s) y))"
proof (rule harness_fingerprint_pins)
  show p: "portFiles [(''h/sta.ts'', FileData ''x'')] ''h'' = Inr [(''sta.ts'', ''x'')]" by code_simp
  show "portFiles [(''h/sta.ts'', FileData ''x'')] ''h'' = Inr [(''sta.ts'', ''x'')]" by (rule p)
  show "framable (embeddedFiles Map.empty [''a.go''] @ [(''sta.ts'', ''x'')])" by code_simp
  then show "framable (embeddedFiles Map.empty [''a.go''] @ [(''sta.ts'', ''x'')])" .
qed simp

text \<open>The NUL bytes are not escaped, so a port that holds one can stand for two: these two directories
  compose different tests and share every fingerprint.\<close>

theorem framing_ambiguous:
  "HarnessFingerprint sha source names
     [(''h/a.ts'', FileData (''x'' @ [NUL] @ ''b.ts'' @ [NUL] @ ''y''))] ''h'' =
   HarnessFingerprint sha source names [(''h/a.ts'', FileData ''x''), (''h/b.ts'', FileData ''y'')] ''h''"
proof -
  have "portFiles [(''h/a.ts'', FileData (''x'' @ [NUL] @ ''b.ts'' @ [NUL] @ ''y''))] ''h'' =
      Inr [(''a.ts'', ''x'' @ [NUL] @ ''b.ts'' @ [NUL] @ ''y'')]" by code_simp
  moreover have "portFiles [(''h/a.ts'', FileData ''x''), (''h/b.ts'', FileData ''y'')] ''h'' =
      Inr [(''a.ts'', ''x''), (''b.ts'', ''y'')]" by code_simp
  ultimately show ?thesis by (simp add: HarnessFingerprint_def frame_of_def)
qed

end
