(* ===== verification/Spawn.thy ===== *)
theory Spawn
  imports Worker
begin

text \<open>
  \<open>spawnWorker\<close> of \<open>orchestrator.go\<close> and the environment a worker process starts with: the run's own
  with the entries appended, of which \<open>os/exec\<close> keeps the last of each name, read back by \<open>os.Getenv\<close>.
  How the four system calls turn out is an argument.
\<close>

section \<open>Environments\<close>

text \<open>\<open>os.Getenv\<close>; a variable that is not set reads as the empty string.\<close>

definition named :: "string \<Rightarrow> string \<Rightarrow> bool" where
  "named name kv \<longleftrightarrow> HasPrefix kv (name @ ''='')"

definition getenv :: "string list \<Rightarrow> string \<Rightarrow> string" where
  "getenv environ name =
     (case find (named name) environ of
        None \<Rightarrow> []
      | Some kv \<Rightarrow> drop (length name + 1) kv)"

definition setenv :: "string \<Rightarrow> string \<Rightarrow> string list \<Rightarrow> string list" where
  "setenv name v environ =
     (let kv = name @ ''='' @ v in
      if list_ex (named name) environ then map (\<lambda>e. if named name e then kv else e) environ
      else environ @ [kv])"

text \<open>The name of an entry, \<open>None\<close> without an equals sign; one at the very start belongs to the name.\<close>

definition envKey :: "string \<Rightarrow> string option" where
  "envKey kv =
     (case Index kv ''='' of
        None \<Rightarrow> None
      | Some i \<Rightarrow>
          Some (take (if i = 0 then (case Index (tl kv) ''='' of None \<Rightarrow> 0 | Some k \<Rightarrow> k + 1) else i) kv))"

text \<open>From the last entry to the first: the names seen, and the entries kept.\<close>

fun dedupFrom :: "string set \<Rightarrow> string list \<Rightarrow> string list" where
  "dedupFrom saw [] = []"
| "dedupFrom saw (kv # kvs) =
     (case envKey kv of
        None \<Rightarrow> if kv = [] then dedupFrom saw kvs else kv # dedupFrom saw kvs
      | Some k \<Rightarrow> if k \<in> saw then dedupFrom saw kvs else kv # dedupFrom (insert k saw) kvs)"

definition dedupEnv :: "string list \<Rightarrow> string list" where
  "dedupEnv env = rev (dedupFrom {} (rev env))"

section \<open>Spawning\<close>

record spawnAnswers =
  spExecutable :: "goerror option"
  spStdin :: "goerror option"
  spStdout :: "goerror option"
  spStart :: "goerror option"

text \<open>The environment of the new process, or the first error.\<close>

definition spawnWorker :: "spawnAnswers \<Rightarrow> string list \<Rightarrow> string list \<Rightarrow> goerror + string list" where
  "spawnWorker sp environ env =
     (case (spExecutable sp, spStdin sp, spStdout sp) of
        (Some e, _, _) \<Rightarrow> Inl e
      | (None, Some e, _) \<Rightarrow> Inl e
      | (None, None, Some e) \<Rightarrow> Inl e
      | (None, None, None) \<Rightarrow>
          if list_ex (\<lambda>kv. CHR 0x00 \<in> set kv) (environ @ env)
          then Inl (Msg ''exec: environment variable contains NUL'')
          else (case spStart sp of Some e \<Rightarrow> Inl e | None \<Rightarrow> Inr (dedupEnv (environ @ env))))"

text \<open>What the worker reads of it.\<close>

definition workerEnvOf :: "string list \<Rightarrow> workerEnv" where
  "workerEnvOf environ =
     \<lparr>weMemLimit = getenv environ ''BENTO262_WORKER_MEMLIMIT'', weModuleRoot = getenv environ ''BENTO_MODULE_ROOT'',
      weRunTimeout = getenv environ ''BENTO262_RUN_TIMEOUT'', weRuntimeHash = getenv environ ''BENTO262_RUNTIME_HASH'',
      weTailCache = getenv environ ''BENTO262_TAILCACHE''\<rparr>"

section \<open>Facts\<close>

text \<open>A plain name: not empty, and without an equals sign.\<close>

definition envName :: "string \<Rightarrow> bool" where
  "envName name \<longleftrightarrow> name \<noteq> [] \<and> CHR ''='' \<notin> set name"

lemma named_key:
  assumes "envName name"
  shows "named name kv \<longleftrightarrow> envKey kv = Some name"
proof
  assume "named name kv"
  then obtain t where kv: "kv = name @ CHR ''='' # t" by (auto simp: named_def HasPrefix_iff)
  with assms Index_append_singleton [of "CHR ''=''" name t] show "envKey kv = Some name"
    by (simp add: envKey_def envName_def)
next
  assume k: "envKey kv = Some name"
  then obtain i where i: "Index kv ''='' = Some i" by (auto simp: envKey_def split: option.splits)
  from Index_Some [OF i] have kv: "kv = take i kv @ ''='' @ drop (i + 1) kv" "i + 1 \<le> length kv" by simp_all
  have "i \<noteq> 0"
  proof
    assume "i = 0"
    with kv(1) have hd: "hd kv = CHR ''=''" "kv \<noteq> []" by (metis append_Cons append_Nil list.sel(1) take_0, metis append_Cons append_Nil list.discI take_0)
    from k i \<open>i = 0\<close> have "name = take (case Index (tl kv) ''='' of None \<Rightarrow> 0 | Some k \<Rightarrow> k + 1) kv" by (simp add: envKey_def)
    with hd assms show False by (cases kv) (auto simp: envName_def split: option.splits)
  qed
  with k i have "name = take i kv" by (simp add: envKey_def)
  with kv(1) show "named name kv" by (metis HasPrefix_iff append.assoc named_def)
qed

lemma find_filter: "find P xs = (case filter P xs of [] \<Rightarrow> None | x # _ \<Rightarrow> Some x)"
  by (induction xs) auto

lemma dedupFrom_named:
  assumes "envName name"
  shows "filter (named name) (dedupFrom saw xs) = (if name \<in> saw then [] else take 1 (filter (named name) xs))"
proof -
  have n: "named name = (\<lambda>kv. envKey kv = Some name)" using named_key [OF assms] by blast
  show ?thesis unfolding n by (induction saw xs rule: dedupFrom.induct) (auto split: option.splits)
qed

text \<open>In the deduplicated environment a name reads as its last entry.\<close>

lemma getenv_dedup:
  assumes "envName name"
  shows "getenv (dedupEnv env) name = getenv (rev env) name"
proof -
  let ?x = "filter (named name) (rev env)"
  have "filter (named name) (dedupEnv env) = rev (take 1 ?x)"
    using dedupFrom_named [OF assms, of "{}" "rev env"] by (simp add: dedupEnv_def flip: rev_filter)
  then have f: "filter (named name) (dedupEnv env) = take 1 ?x" by (cases ?x) simp_all
  show ?thesis unfolding getenv_def find_filter f by (cases ?x) simp_all
qed

lemma getenv_setenv:
  assumes "envName name" "envName other"
  shows "getenv (rev (setenv name v environ)) other = (if other = name then v else getenv (rev environ) other)"
proof -
  let ?kv = "name @ ''='' @ v" and ?f = "\<lambda>e. if named name e then name @ ''='' @ v else e"
  have kv: "named m ?kv \<longleftrightarrow> m = name" if "envName m" for m
  proof -
    have "named name ?kv" by (simp add: named_def HasPrefix_iff)
    with named_key [OF that, of ?kv] named_key [OF assms(1), of ?kv] show ?thesis by auto
  qed
  have find: "find (named other) (map ?f xs) =
      (if other = name then (if list_ex (named name) xs then Some ?kv else None) else find (named other) xs)" for xs
  proof (induction xs)
    case (Cons x xs)
    show ?case
    proof (cases "named name x")
      case True
      show ?thesis
      proof (cases "other = name")
        case True
        with \<open>named name x\<close> kv [OF assms(1)] show ?thesis by simp
      next
        case False
        with \<open>named name x\<close> named_key [OF assms(1), of x] named_key [OF assms(2), of x]
        have "\<not> named other x" "\<not> named other ?kv" using kv [OF assms(2)] by simp_all
        with True False Cons show ?thesis by simp
      qed
    next
      case False
      with Cons show ?thesis by auto
    qed
  qed simp
  show ?thesis
  proof (cases "list_ex (named name) environ")
    case False
    then show ?thesis using kv [OF assms(2)] by (auto simp: setenv_def getenv_def Let_def)
  next
    case True
    then have "list_ex (named name) (rev environ)" by (simp add: list_ex_iff)
    moreover have "rev (setenv name v environ) = map ?f (rev environ)"
      using True by (simp add: setenv_def Let_def rev_map)
    ultimately show ?thesis using find [of "rev environ"] by (simp add: getenv_def)
  qed
qed

end
