(* ===== verification/Staging.thy ===== *)
theory Staging
  imports Fingerprint Aot
begin

text \<open>
  \<open>aot.go\<close>'s \<open>PrepareModuleRoot\<close>: locating the compiler's module, naming its version by content, and
  staging a writable copy once per version. What the commands it spawns answer, and whether each file
  operation fails, are arguments.
\<close>

section \<open>Fields\<close>

text \<open>The space rune a text starts with, if any.\<close>

definition leadingSpace :: "string \<Rightarrow> string option" where
  "leadingSpace s = find (HasPrefix s) spaceRunes"

fun fieldAt :: "string \<Rightarrow> string \<Rightarrow> string \<times> string" where
  "fieldAt acc [] = (rev acc, [])"
| "fieldAt acc (c # cs) = (if leadingSpace (c # cs) = None then fieldAt (c # acc) cs else (rev acc, c # cs))"

lemma fieldAt_rest: "length (snd (fieldAt acc s)) \<le> length s"
  by (induction acc s rule: fieldAt.induct) auto

text \<open>\<open>strings.Fields\<close>.\<close>

function fieldsOf :: "string \<Rightarrow> string list" where
  "fieldsOf [] = []"
| "fieldsOf (c # cs) =
     (case leadingSpace (c # cs) of
        Some w \<Rightarrow> fieldsOf (drop (length w - 1) cs)
      | None \<Rightarrow> (let (f, rest) = fieldAt [c] cs in f # fieldsOf rest))"
  by pat_completeness auto
termination
proof (relation "measure length")
  fix c :: char and cs x f rest
  assume "x = fieldAt [c] cs" "(f, rest) = x"
  then show "(rest, c # cs) \<in> measure length"
    using fieldAt_rest [of "[c]" cs] by (metis in_measure le_imp_less_Suc length_Cons snd_conv)
qed (auto simp: less_Suc_eq_le)

section \<open>Warming\<close>

text \<open>
  \<open>WarmDeps\<close>: build the standard library, then the packages generated programs import. Each outcome is
  \<open>None\<close>, or the error of the command with its output.
\<close>

definition WarmDeps :: "(string \<times> string) option \<Rightarrow> (string \<times> string) option \<Rightarrow> goerror option" where
  "WarmDeps std value =
     (case std of
        Some (err, out) \<Rightarrow> Some (Msg (''warm standard library build cache: '' @ err @ [NL] @ out))
      | None \<Rightarrow>
          (case value of
             Some (err, out) \<Rightarrow> Some (Msg (''warm bento build cache: '' @ err @ [NL] @ out))
           | None \<Rightarrow> None))"

section \<open>Staging\<close>

record staging =
  sgList :: "goerror + string"
  sgMkdir :: "goerror option"
  sgCopy :: "goerror option"
  sgUnlock :: "goerror option"
  sgRename :: "goerror option"
  sgWarmStd :: "(string \<times> string) option"
  sgWarmValue :: "(string \<times> string) option"

text \<open>The first error of the steps that stage a new root.\<close>

definition stagingError :: "staging \<Rightarrow> goerror option" where
  "stagingError sg =
     (case sgMkdir sg of
        Some e \<Rightarrow> Some e
      | None \<Rightarrow>
          (case sgCopy sg of
             Some e \<Rightarrow> Some (Wrapped ''copy bento module'' e)
           | None \<Rightarrow>
               (case sgUnlock sg of
                  Some e \<Rightarrow> Some (Wrapped ''unlock bento module copy'' e)
                | None \<Rightarrow> (case sgRename sg of 
                     Some e \<Rightarrow> Some e
                   | None \<Rightarrow> WarmDeps (sgWarmStd sg) (sgWarmValue sg)))))"

definition moduleVersion :: "string \<Rightarrow> string \<Rightarrow> string" where
  "moduleVersion listVersion fp = listVersion @ ''.h'' @ fp"

text \<open>
  The root and the version, with the roots to prune when a new one was staged; \<open>entries\<close> lists the
  cache directory at that moment. A root is there already when its \<open>go.mod\<close> is.
\<close>

definition PrepareModuleRoot ::
  "(string \<Rightarrow> string) \<Rightarrow> filesystem \<Rightarrow> staging \<Rightarrow> dirEntry list option \<Rightarrow> string \<Rightarrow>
   goerror + string \<times> string \<times> string list" where
  "PrepareModuleRoot sha fs sg entries dir =
     (case sgList sg of
        Inl e \<Rightarrow> Inl (Wrapped ''locate bento module'' e)
      | Inr out \<Rightarrow>
          (case fieldsOf out of
             [src, listVersion] \<Rightarrow>
               (case moduleFingerprint sha fs src of
                  Inl e \<Rightarrow> Inl (Wrapped ''fingerprint bento module'' e)
                | Inr fp \<Rightarrow>
                    (let version = moduleVersion listVersion fp;
                         staged = joinPath [dir, ''bento-'' @ version] in
                     if readFile fs (joinPath [staged, ''go.mod'']) \<noteq> FileMissing then Inr (staged, version, [])
                     else case stagingError sg of
                         Some e \<Rightarrow> Inl e
                       | None \<Rightarrow> Inr (staged, version, pruneStagedRoots dir entries staged 3)))
           | _ \<Rightarrow> Inl (Msg (''locate bento module: unexpected go list output '' @ out))))"

section \<open>Facts\<close>

text \<open>What a successful staging says about the source it staged.\<close>

definition lowererFiles :: "filesystem \<Rightarrow> string \<Rightarrow> goerror + (string \<times> string) list" where
  "lowererFiles fs src =
     (case walkDir fs src of
        Inl e \<Rightarrow> Inl e
      | Inr paths \<Rightarrow> readNamed fs (\<lambda>p. p) (relTo src) (filter (fingerprinted src) paths))"

lemma moduleFingerprint_files:
  "lowererFiles fs src = Inr files \<Longrightarrow> moduleFingerprint sha fs src = Inr (take 12 (sha (frames files)))"
  by (cases "walkDir fs src") (simp_all add: moduleFingerprint_def lowererFiles_def)

lemma PrepareModuleRoot_version:
  assumes "PrepareModuleRoot sha fs sg entries dir = Inr (staged, version, pruned)"
    and "sgList sg = Inr out" "fieldsOf out = [src, lv]" "lowererFiles fs src = Inr files"
  shows "version = moduleVersion lv (take 12 (sha (frames files)))"
  using assms(1)
  by (simp add: PrepareModuleRoot_def assms(2,3) moduleFingerprint_files [OF assms(4)] Let_def
      split: if_splits option.splits)

text \<open>The version follows the compiler's source: stagings that give the same version found the same Go files
  and \<open>go.mod\<close> files (tests and \<open>testdata\<close> apart) with the same bytes, under the same list version,
  unless the twelve digits collide, as long as no name and no file holds a NUL byte.\<close>

theorem module_version_pins:
  assumes "PrepareModuleRoot sha fs sg entries dir = Inr (staged, version, pruned)"
    and "PrepareModuleRoot sha fs' sg' entries' dir' = Inr (staged', version, pruned')"
    and "sgList sg = Inr out" "sgList sg' = Inr out'" "fieldsOf out = [src, lv]" "fieldsOf out' = [src', lv']"
    and "lowererFiles fs src = Inr files" "lowererFiles fs' src' = Inr files'"
    and "framable files" "framable files'" "\<And>x. length (sha x) = 64"
  shows "lv = lv' \<and> (files = files' \<or> (\<exists>x y. x \<noteq> y \<and> take 12 (sha x) = take 12 (sha y)))"
proof -
  have "moduleVersion lv (take 12 (sha (frames files))) = moduleVersion lv' (take 12 (sha (frames files')))"
    using PrepareModuleRoot_version [OF assms(1,3,5,7)] PrepareModuleRoot_version [OF assms(2,4,6,8)] by (rule subst)
  then have same: "lv = lv'" "take 12 (sha (frames files)) = take 12 (sha (frames files'))"
    by (simp_all add: moduleVersion_def assms(11))
  show ?thesis
  proof (cases "frames files = frames files'")
    case True
    with frames_inject [OF assms(9,10)] same(1) show ?thesis by blast
  next
    case False
    with same show ?thesis by blast
  qed
qed

definition bentoDisk :: filesystem where
  "bentoDisk = [(''/b/go.mod'', FileData ''module b''), (''/b/l.go'', FileData ''package l''),
     (''/b/l_test.go'', FileData ''test''), (''/b/testdata/t.go'', FileData ''data'')]"

definition plainStaging :: staging where
  "plainStaging = \<lparr>sgList = Inr (''/b v1'' @ [NL]), sgMkdir = None, sgCopy = None, sgUnlock = None, sgRename = None,
     sgWarmStd = None, sgWarmValue = None\<rparr>"

lemma plainStaging_fields: "fieldsOf (''/b v1'' @ [NL]) = [''/b'', ''v1'']"
  by code_simp

lemma bentoDisk_files: "lowererFiles bentoDisk ''/b'' = Inr [(''go.mod'', ''module b''), (''l.go'', ''package l'')]"
  by code_simp

lemma bentoDisk_staged:
  "\<exists>r. PrepareModuleRoot (\<lambda>s. replicate 64 (CHR ''0'')) bentoDisk plainStaging None ''/c'' = Inr r"
proof -
  have "moduleFingerprint (\<lambda>s. replicate 64 (CHR ''0'')) bentoDisk ''/b'' = Inr (replicate 12 (CHR ''0''))"
    by (simp add: moduleFingerprint_files [OF bentoDisk_files])
  then show ?thesis
    by (simp add: PrepareModuleRoot_def plainStaging_def plainStaging_fields [simplified] stagingError_def WarmDeps_def Let_def)
qed

theorem module_version_pins_witness:
  "''v1'' = ''v1'' \<and> ([(''go.mod'', ''module b''), (''l.go'', ''package l'')] = [(''go.mod'', ''module b''), (''l.go'', ''package l'')] \<or>
    (\<exists>x y. x \<noteq> y \<and> take 12 ((\<lambda>s :: string. replicate 64 (CHR ''0'')) x) = take 12 ((\<lambda>s. replicate 64 (CHR ''0'')) y)))"
proof -
  from bentoDisk_staged obtain staged version pruned where
    r: "PrepareModuleRoot (\<lambda>s. replicate 64 (CHR ''0'')) bentoDisk plainStaging None ''/c'' = Inr (staged, version, pruned)"
    by auto
  have l: "sgList plainStaging = Inr (''/b v1'' @ [NL])" by (simp add: plainStaging_def)
  show ?thesis
    by (rule module_version_pins [OF r r l l plainStaging_fields plainStaging_fields bentoDisk_files bentoDisk_files])
      (simp_all add: framable_def)
qed

end
