(* ===== verification/Runner.thy ===== *)
theory Runner
  imports RunFiles Denylist SysinfoFacts Measure FingerprintFacts Spawn Janitor Staging
begin

text \<open>
  \<open>cmd/bento262/main.go\<close>: the commands, the preflight checks, the sizing of the pool, the expansion of
  the selected cases, the environment of the workers, and what a finished run reports, records or
  compares. Flags are a record; what the machine and the toolchain answer are arguments.
\<close>

section \<open>Commands\<close>

datatype command = CmdWorker | CmdIncludes "string list" | CmdRun "string list" | CmdUsage

text \<open>\<open>args\<close> is \<open>os.Args\<close> without the program name.\<close>

definition dispatch :: "string list \<Rightarrow> command" where
  "dispatch args =
     (case args of
        [] \<Rightarrow> CmdUsage
      | a # rest \<Rightarrow>
          if a = ''worker'' then CmdWorker
          else if a = ''includes'' then CmdIncludes rest
          else if a \<noteq> ''run'' then CmdUsage
          else CmdRun rest)"

definition exitCode :: "command \<Rightarrow> goerror option \<Rightarrow> nat" where
  "exitCode c err = (case c of CmdUsage \<Rightarrow> 2 | _ \<Rightarrow> if err = None then 0 else 1)"

text \<open>The totals \<open>includesMain\<close> prints: unported includes, the jobs and the files they gate.\<close>

definition includesTotals :: "includeReport \<Rightarrow> nat \<times> nat \<times> nat" where
  "includesTotals rep =
     (length (repUnported rep), sum_list (map isJobs (repUnported rep)), sum_list (map isFiles (repUnported rep)))"

definition includesMain ::
  "nat list \<Rightarrow> string list \<Rightarrow> (string \<Rightarrow> goerror + meta) \<Rightarrow> filesystem \<Rightarrow> string \<Rightarrow> string \<Rightarrow> string \<Rightarrow>
   goerror + includeReport \<times> nat \<times> nat \<times> nat" where
  "includesMain order keys yaml fs corpus ports filters =
     (case Discover order yaml fs corpus (splitOn (CHR '','') filters) of
        Inl e \<Rightarrow> Inl e
      | Inr cases \<Rightarrow> (let rep = AuditIncludes keys fs ports cases in Inr (rep, includesTotals rep)))"

section \<open>Flags\<close>

record flags =
  fRoot :: string
  fPorts :: string
  fFilters :: string
  fGrep :: string
  fLimit :: int
  fExpPath :: string
  fCacheDir :: string
  fWorkers :: int
  fUpdate :: bool
  fLowerOnly :: bool
  fMinFreeMB :: "64 word"
  fGoCacheMaxMB :: "64 word"
  fWorkerMaxJobs :: int
  fDenyPath :: string
  fRunTimeout :: int
  fJobTimeout :: int
  fStuckAfter :: int
  fVerbose :: bool

section \<open>Preflight\<close>

text \<open>The reason to refuse the run, if any. Megabytes are a signed 64-bit flag.\<close>

definition preflightDisk :: "goerror option \<Rightarrow> goerror + 64 word \<Rightarrow> 64 word \<Rightarrow> goerror option" where
  "preflightDisk mkdirErr free minFreeMB =
     (if sint minFreeMB \<le> 0 then None
      else case mkdirErr of
          Some e \<Rightarrow> Some e
        | None \<Rightarrow>
            (case free of
               Inl e \<Rightarrow> None
             | Inr bytes \<Rightarrow>
                 if bytes = 0 then None
                 else let need = push_bit 20 minFreeMB in
                      if bytes < need
                      then Some (Msg (''only '' @ itoa (unat (drop_bit 20 bytes)) @ '' MB free on the cache filesystem, need '' @
                             itoa (unat minFreeMB) @ '' MB (lower it with -min-free-disk-mb, or 0 to skip)''))
                      else None))"

text \<open>The ceiling of the fallback janitor, from the warm size of the build cache.\<close>

definition goCacheCeiling :: "64 word \<Rightarrow> 64 word \<Rightarrow> 64 word" where
  "goCacheCeiling warm goCacheMaxMB =
     (if sint goCacheMaxMB > 0 then push_bit 20 goCacheMaxMB
      else if sint goCacheMaxMB < 0 then warm + push_bit 20 1024
      else 0)"

section \<open>Sizing the pool\<close>

text \<open>The \<open>-jobs\<close> value after the cap; \<open>None\<close> is the cap's panic.\<close>

definition cappedWorkers :: "64 word \<Rightarrow> rat \<Rightarrow> 64 word \<Rightarrow> int \<Rightarrow> int option" where
  "cappedWorkers tot f per workers =
     (case CapWorkers tot f per workers of
        None \<Rightarrow> None
      | Some (capped, reason) \<Rightarrow> Some (if reason then capped else workers))"

text \<open>The limit each worker is given, as the environment entry it travels in.\<close>

definition memEnv :: "int \<Rightarrow> string \<Rightarrow> int \<Rightarrow> string list" where
  "memEnv budget goMemLimit workers =
     (if budget > 0 \<and> goMemLimit = []
      then [''BENTO262_WORKER_MEMLIMIT='' @ itoa (nat (budget div max workers 1))] else [])"

section \<open>The cases and jobs of a run\<close>

record expansion =
  exKept :: "testcase list"
  exDropped :: "testcase list"
  exJobs :: "job list"
  exPrecooked :: "result list"

text \<open>\<open>order\<close> and \<open>order'\<close> are the schedules of the two pools.\<close>

definition expandCases ::
  "nat list \<Rightarrow> nat list \<Rightarrow> (string \<Rightarrow> goerror + meta) \<Rightarrow> filesystem \<Rightarrow> flags \<Rightarrow> string list \<Rightarrow> goerror + expansion" where
  "expandCases order order' yaml fs f deny =
     (case Discover order yaml fs (fRoot f) (splitOn (CHR '','') (fFilters f)) of
        Inl e \<Rightarrow> Inl e
      | Inr cases \<Rightarrow>
          (let (kept, dropped) = Quarantine (Select cases (fGrep f) (fLimit f)) deny in
           case Jobs order' fs (fPorts f) kept of
             Inl e \<Rightarrow> Inl e
           | Inr (jobs, precooked) \<Rightarrow>
               Inr \<lparr>exKept = kept, exDropped = dropped, exJobs = jobs, exPrecooked = precooked\<rparr>))"

definition maxUnscopedLowerJobs :: nat where "maxUnscopedLowerJobs = 20000"

text \<open>The lower-only command: refused over too many unscoped jobs; the inner \<open>None\<close> is a compiler panic.\<close>

definition lowerMain ::
  "nat list \<Rightarrow> nat list \<Rightarrow> nat list \<Rightarrow> (string \<Rightarrow> goerror + meta) \<Rightarrow> filesystem \<Rightarrow> aotEnv \<Rightarrow> flags \<Rightarrow> string list \<Rightarrow>
   goerror + lowerReport option" where
  "lowerMain order order' order'' yaml fs env f deny =
     (case expandCases order order' yaml fs f deny of
        Inl e \<Rightarrow> Inl e
      | Inr ex \<Rightarrow>
          if fGrep f = [] \<and> fLimit f = 0 \<and> length (exJobs ex) > maxUnscopedLowerJobs
          then Inl (Msg (''lower-only over the whole suite ('' @ itoa (length (exJobs ex)) @
                 '' jobs) accumulates checker memory in one process and will be OOM-killed before it reports; '' @
                 ''scope it with --grep or --limit, or use the full run, which recycles workers''))
          else Inr (LowerOnly order'' env (exJobs ex) (exPrecooked ex)))"

section \<open>The host\<close>

text \<open>What the machine answers while the full run prepares: the cache directory, its free space, the emptied
  build cache, the staging, the listing of the root, the warm builds, and the walk of the warm cache.\<close>

record host =
  hoMkdir :: "goerror option"
  hoFree :: "goerror + 64 word"
  hoGoCache :: "goerror + string"
  hoStaging :: staging
  hoEntries :: "dirEntry list option"
  hoRootEntries :: "dirEntry list option"
  hoWarmStd :: "(string \<times> string) option"
  hoWarmValue :: "(string \<times> string) option"
  hoWalk :: "walk_item list"

record prepared =
  hsGoCache :: string
  hsRoot :: string
  hsVersion :: string
  hsSwept :: "string list"
  hsBaseline :: "string set"
  hsCeiling :: "64 word"

definition prepareHost :: "(string \<Rightarrow> string) \<Rightarrow> filesystem \<Rightarrow> flags \<Rightarrow> host \<Rightarrow> goerror + prepared" where
  "prepareHost sha fs f host =
     (case preflightDisk (hoMkdir host) (hoFree host) (fMinFreeMB f) of
        Some e \<Rightarrow> Inl e
      | None \<Rightarrow>
          (case hoGoCache host of
             Inl e \<Rightarrow> Inl e
           | Inr goCacheDir \<Rightarrow>
               (case PrepareModuleRoot sha fs (hoStaging host) (hoEntries host) (fCacheDir f) of
                  Inl e \<Rightarrow> Inl e
                | Inr (moduleRoot, version, pruned) \<Rightarrow>
                    (let swept = SweepBuildDirs moduleRoot (hoRootEntries host) in
                     case WarmDeps (hoWarmStd host) (hoWarmValue host) of
                       Some e \<Rightarrow> Inl e
                     | None \<Rightarrow>
                         (case SnapshotCacheEntries goCacheDir (hoWalk host) of
                            Inl e \<Rightarrow> Inl (OsError e)
                          | Inr baseline \<Rightarrow>
                              (let warm = (case goBuildCacheBytes goCacheDir (hoWalk host) of Inl e \<Rightarrow> 0 | Inr b \<Rightarrow> b) in
                               Inr \<lparr>hsGoCache = goCacheDir, hsRoot = moduleRoot, hsVersion = version, hsSwept = swept,
                                    hsBaseline = baseline, hsCeiling = goCacheCeiling warm (fGoCacheMaxMB f)\<rparr>))))))"

text \<open>Which janitor \<open>RunAll\<close> starts.\<close>

datatype janitor = Pinned | Ceiling "64 word" | Unmanaged

definition janitorOf :: "prepared \<Rightarrow> janitor" where
  "janitorOf hs =
     (if hsGoCache hs = [] then Unmanaged
      else if hsBaseline hs \<noteq> {} then Pinned
      else if hsCeiling hs > 0 then Ceiling (hsCeiling hs)
      else Unmanaged)"

section \<open>The caches\<close>

definition resultsName :: "string \<Rightarrow> string \<Rightarrow> string" where
  "resultsName version harnessFP = ''results-'' @ version @ ''-h'' @ harnessFP @ ''.ndjson''"

record caches =
  csResults :: cache
  csTail :: cache
  csHash :: string
  csDisk :: filesystem

text \<open>
  From the fingerprint of the harness to the two open streams, in the code's order. \<open>entries\<close> is the
  listing of the cache directory, \<open>gone\<close> says which removals of pruned files succeed, and \<open>opened\<close>
  how opening the two streams turns out.
\<close>

definition openCaches ::
  "(string \<Rightarrow> string) \<Rightarrow> (string \<rightharpoonup> string) \<Rightarrow> string list \<Rightarrow> string option \<Rightarrow> dirEntry list option \<Rightarrow> (string \<Rightarrow> bool) \<Rightarrow> goerror option \<times> goerror option \<Rightarrow>
   flags \<Rightarrow> string \<Rightarrow> string \<Rightarrow> filesystem \<Rightarrow> goerror + caches" where
  "openCaches sha source names cwd entries gone opened f moduleRoot version fs =
     (case HarnessFingerprint sha source names fs (fPorts f) of
        Inl e \<Rightarrow> Inl e
      | Inr harnessFP \<Rightarrow>
          (let resultsPath = joinPath [fCacheDir f, resultsName version harnessFP];
               tailPath = joinPath [fCacheDir f, ''tail.ndjson''] in
           case LoadCache unmarshalEntry fs resultsPath of
             (_, Some e) \<Rightarrow> Inl e
           | (None, None) \<Rightarrow> Inl (Msg [])
           | (Some c, None) \<Rightarrow>
               (let pruned = filter gone (PruneResultsCaches (absPath cwd) (fCacheDir f) entries resultsPath 3);
                    fs = fold (\<lambda>p fs. removeFile fs p) pruned fs in
                case RuntimeHash sha fs moduleRoot of
                  Inl e \<Rightarrow> Inl e
                | Inr runtimeHash \<Rightarrow>
                    (case LoadCache unmarshalEntry fs tailPath of
                       (_, Some e) \<Rightarrow> Inl e
                     | (None, None) \<Rightarrow> Inl (Msg [])
                     | (Some t, None) \<Rightarrow>
                         (case BeginStream (fst opened) (c, fs) of
                            (Some e, _) \<Rightarrow> Inl e
                          | (None, c, fs) \<Rightarrow>
                              (case BeginStream (snd opened) (t, fs) of
                                 (Some e, _) \<Rightarrow> Inl e
                               | (None, t, fs) \<Rightarrow>
                                   Inr \<lparr>csResults = c, csTail = t, csHash = runtimeHash, csDisk = fs\<rparr>))))))"

section \<open>The run\<close>

text \<open>The entries appended to the environment of every worker.\<close>

definition workerEnvList :: "string \<Rightarrow> int \<Rightarrow> string \<Rightarrow> string \<Rightarrow> string list \<Rightarrow> string list" where
  "workerEnvList moduleRoot timeout tailPath runtimeHash memory =
     [''BENTO_MODULE_ROOT='' @ moduleRoot, ''BENTO262_RUN_TIMEOUT='' @ formatDuration timeout,
      ''BENTO262_TAILCACHE='' @ tailPath, ''BENTO262_RUNTIME_HASH='' @ runtimeHash] @ memory"

definition runPlan :: "(string \<Rightarrow> string) \<Rightarrow> caches \<Rightarrow> string \<Rightarrow> job list \<Rightarrow> plan" where
  "runPlan sha cs version jobs = planJobs sha (Some (csResults cs)) version jobs"

text \<open>
  The options of \<open>RunAll\<close>. The two caches are separate streams on one disk; each is paired with the
  files it writes.
\<close>

definition runConfig :: "flags \<Rightarrow> int \<Rightarrow> plan \<Rightarrow> config" where
  "runConfig f workers p =
     \<lparr>cgWorkers = workers, cgMaxJobs = fWorkerMaxJobs f, cgAbortable = True, cgKeys = plKeys p,
      cgMarshal = entryText\<rparr>"

definition beginRun :: "flags \<Rightarrow> int \<Rightarrow> caches \<Rightarrow> plan \<Rightarrow> run" where
  "beginRun f workers cs p =
     startRun (runConfig f workers p) p (Some (csResults cs, csDisk cs)) (Some (csTail cs, csDisk cs))"

section \<open>After the run\<close>

text \<open>\<open>results[r.ID] = r\<close>, on a visit of the map.\<close>

definition putResult :: "result \<Rightarrow> results \<Rightarrow> results" where
  "putResult r results = (rID r, r) # filter (\<lambda>(k, _). k \<noteq> rID r) results"

definition mergePrecooked :: "result list \<Rightarrow> results \<Rightarrow> results" where
  "mergePrecooked precooked results = fold putResult precooked results"

datatype outcome = Measured lowerReport | Interrupted | Recorded | Drifted "change list" "change list" | SnapshotHolds

text \<open>The two tables of reasons after the per-area lines.\<close>

definition reasonTables :: "string list \<Rightarrow> string list \<Rightarrow> results \<Rightarrow> string" where
  "reasonTables handbacks fails results =
     PrintReasons handbacks results ''handback'' 25 @ PrintReasons fails results ''fail'' 15"

text \<open>
  From the interrupt check on: \<open>saved\<close> is how making the directory and writing the snapshot turn out.
  The error is the one \<open>runMain\<close> returns; the outcome says what it prints.
\<close>

definition finishRun ::
  "bool \<Rightarrow> goerror option \<Rightarrow> flags \<Rightarrow> results \<Rightarrow> result list \<Rightarrow> filesystem \<Rightarrow>
   (goerror + outcome) \<times> filesystem" where
  "finishRun interrupted saved f results precooked fs =
     (if interrupted then (Inr Interrupted, fs)
      else
        let all = mergePrecooked precooked results in
        if fUpdate f then
          (case saved of
             Some e \<Rightarrow> (Inl e, fs)
           | None \<Rightarrow> (Inr Recorded, writeFile fs (fExpPath f) (WriteExpectations all)))
        else
          (case LoadExpectations fs (fExpPath f) of
             Inl e \<Rightarrow> (Inl e, fs)
           | Inr snap \<Rightarrow>
               (let (regressions, improvements) = Diff all snap in
                if length regressions + length improvements > 0
                then (Inr (Drifted regressions improvements), fs)
                else (Inr SnapshotHolds, fs))))"

text \<open>A drifted run ends in an error.\<close>

definition runError :: "flags \<Rightarrow> goerror + outcome \<Rightarrow> goerror option" where
  "runError f result =
     (case result of
        Inl e \<Rightarrow> Some e
      | Inr (Drifted regressions improvements) \<Rightarrow>
          Some (Msg (itoa (length regressions + length improvements) @ '' jobs drifted from '' @ fExpPath f))
      | Inr _ \<Rightarrow> None)"

end
