(* ===== verification/RunnerFacts.thy ===== *)
theory RunnerFacts
  imports Runner
begin

text \<open>
  Properties that span the command: from the cases found to the results reported, from the snapshot one
  run records to the next run's verdict, from an interrupted run to the rerun that resumes it, and
  from the flags to the workers that are started.
\<close>

section \<open>Merging the precooked results\<close>

lemma putResult_keys [simp]: "fst ` set (putResult r m) = insert (rID r) (fst ` set m)"
  by (auto simp: putResult_def image_iff)

lemma mergePrecooked_keys: "fst ` set (mergePrecooked pre m) = rID ` set pre \<union> fst ` set m"
  unfolding mergePrecooked_def by (induction pre arbitrary: m) auto

lemma map_of_keys_dom: "fst ` set m = dom (map_of m)"
  by (rule dom_map_of_conv_image_fst [symmetric])

section \<open>Comparing with a snapshot\<close>

lemma changes_none:
  assumes "go_map m" "\<And>k r. map_of m k = Some r \<Longrightarrow> rStatus r = (case snap k of None \<Rightarrow> ''pass'' | Some s \<Rightarrow> s)"
  shows "Diff m snap = ([], [])"
proof -
  have "changeOf snap x = None" if "x \<in> set m" for x
  proof -
    obtain k r where x: "x = (k, r)" by (cases x)
    with that go_map_lookup [OF assms(1)] have "map_of m k = Some r" by blast
    from assms(2) [OF this] show ?thesis by (simp add: x changeOf_def)
  qed
  then have "set (List.map_filter (changeOf snap) m) = {}" by (auto simp: set_List_map_filter)
  then have "List.map_filter (changeOf snap) m = []" by (simp only: set_empty)
  then show ?thesis by (simp add: Diff_def sortSlice_def)
qed

lemma expected_snapshot:
  "map_of m k = Some r \<Longrightarrow> (case snapshot m k of None \<Rightarrow> ''pass'' | Some s \<Rightarrow> s) = rStatus r"
  by (simp add: snapshot_def)

lemma recorded_loads:
  assumes "clean_results (mergePrecooked pre results)"
    and "finishRun False saved f results pre fs = (Inr Recorded, fs')"
  shows "LoadExpectations fs' (fExpPath f) = Inr (snapshot (mergePrecooked pre results))"
proof (rule load_write [OF assms(1)])
  from assms(2) have "fs' = writeFile fs (fExpPath f) (WriteExpectations (mergePrecooked pre results))"
    by (auto simp: finishRun_def Let_def split: if_splits option.splits sum.splits prod.splits)
  then show "readFile fs' (fExpPath f) = FileData (WriteExpectations (mergePrecooked pre results))" by simp
qed

lemma changes_none_iff:
  assumes "go_map m"
  shows "Diff m snap = ([], []) \<longleftrightarrow>
    (\<forall>(k, r) \<in> set m. rStatus r = (case snap k of None \<Rightarrow> ''pass'' | Some s \<Rightarrow> s))" (is "_ \<longleftrightarrow> ?agree")
proof
  assume d: "Diff m snap = ([], [])"
  let ?ch = "List.map_filter (changeOf snap) m"
  from d have "sortSlice changeLess (filter (\<lambda>c. chGot c \<noteq> ''pass'') ?ch) = []"
    "sortSlice changeLess (filter (\<lambda>c. chGot c = ''pass'') ?ch) = []" by (simp_all add: Diff_def Let_def)
  then have "set (filter (\<lambda>c. chGot c \<noteq> ''pass'') ?ch) = {}" "set (filter (\<lambda>c. chGot c = ''pass'') ?ch) = {}"
    by (metis slice.srt_set empty_set)+
  then have "set ?ch = {}" by auto
  then have "changeOf snap x = None" if "x \<in> set m" for x
    using that by (cases "changeOf snap x") (auto simp: set_List_map_filter)
  then show ?agree by (fastforce simp: changeOf_def Let_def split: if_splits)
next
  assume ?agree
  with go_map_lookup [OF assms] show "Diff m snap = ([], [])" by (intro changes_none [OF assms]) auto
qed

lemma putResult_go_map: "go_map m \<Longrightarrow> go_map (putResult r m)"
  by (auto simp: go_map_def putResult_def distinct_map inj_on_def)

lemma mergePrecooked_go_map: "go_map m \<Longrightarrow> go_map (mergePrecooked pre m)"
  unfolding mergePrecooked_def by (induction pre arbitrary: m) (simp_all add: putResult_go_map)

section \<open>Every mode of every case\<close>

lemma merged_keys:
  assumes "expandCases order order' yaml fs f deny = Inr ex" "schedule (length (exKept ex)) order'"
    and "fst ` set results = jID ` set (exJobs ex)"
  shows "fst ` set (mergePrecooked (exPrecooked ex) results) =
    {jobID c mode | c mode. c \<in> set (exKept ex) \<and> mode \<in> set (modesOf (cMeta c))}"
proof -
  from assms(1) have "Jobs order' fs (fPorts f) (exKept ex) = Inr (exJobs ex, exPrecooked ex)"
    by (auto simp: expandCases_def split: sum.splits prod.splits)
  then obtain slots where s: "map (composeCase fs (fPorts f)) (exKept ex) = map Inr slots"
    "exJobs ex = concat (map fst slots)" "exPrecooked ex = concat (map snd slots)"
    unfolding Jobs_Inr [OF assms(2)] by blast
  from arg_cong [OF slots_ids [OF s(1)], of set_mset]
  have "jID ` set (exJobs ex) \<union> rID ` set (exPrecooked ex) =
      set (concat (map (\<lambda>c. map (jobID c) (modesOf (cMeta c))) (exKept ex)))"
    unfolding s(2,3) [symmetric] by (simp only: set_mset_mset set_append set_map)
  then show ?thesis unfolding mergePrecooked_keys assms(3) by (auto simp: Un_commute)
qed

section \<open>A small run\<close>

definition rawYaml :: "string \<Rightarrow> goerror + meta" where
  "rawYaml s = Inr (zeroMeta\<lparr>mFlags := [''raw'']\<rparr>)"

definition smallFlags :: flags where
  "smallFlags = \<lparr>fRoot = ''t'', fPorts = ''h'', fFilters = ''s'', fGrep = [], fLimit = 0, fExpPath = ''e.txt'',
     fCacheDir = ''c'', fWorkers = 1, fUpdate = True, fLowerOnly = False, fMinFreeMB = 0, fGoCacheMaxMB = 0,
     fWorkerMaxJobs = 1, fDenyPath = ''d.txt'', fRunTimeout = 9, fJobTimeout = 180000000000,
     fStuckAfter = 90000000000, fVerbose = False\<rparr>"

definition smallDisk :: filesystem where
  "smallDisk = [(''t/s/a.js'', FileData ''/*---info---*/x'')]"

definition smallJob :: job where
  "smallJob = \<lparr>jID = ''s/a.js#raw'', jName = ''t/s/a.js'', jSource = ''/*---info---*/x'', jEntryName = [],
     jModules = [], jAsync = False, jNegType = [], jNegPhase = []\<rparr>"

definition smallCase :: testcase where
  "smallCase = \<lparr>cRel = ''s/a.js'', cAbs = ''t/s/a.js'', cMeta = zeroMeta\<lparr>mFlags := [''raw'']\<rparr>, cSource = ''/*---info---*/x''\<rparr>"

definition smallExpansion :: expansion where
  "smallExpansion = \<lparr>exKept = [smallCase], exDropped = [], exJobs = [smallJob], exPrecooked = []\<rparr>"

lemma small_expansion: "expandCases [0] [0] rawYaml smallDisk smallFlags [] = Inr smallExpansion"
  by code_simp

definition smallCaches :: caches where
  "smallCaches = \<lparr>csResults = (emptyCache ''c/r'')\<lparr>ccStream := Open\<rparr>, csTail = emptyCache ''c/tail.ndjson'',
     csHash = ''rt'', csDisk = appendFile [] ''c/r'' []\<rparr>"

definition smallResult :: result where
  "smallResult = \<lparr>rID = ''s/a.js#raw'', rStatus = ''timeout'', rError = [], rTailKey = []\<rparr>"

definition smallEnd :: run where
  "smallEnd =
     \<lparr>ruFeeder = ResClosed [], ruWorkers = [\<lparr>wsPhase = WDone, wsAlive = False, wsServed = 0\<rparr>],
      ruInflight = (\<lambda>_. None), ruNow = 1, ruAborted = False, ruResults = [''s/a.js#raw'' \<mapsto> smallResult],
      ruDone = [smallResult], ruCache = Some (csResults smallCaches, csDisk smallCaches),
      ruTail = Some (csTail smallCaches, csDisk smallCaches)\<rparr>"

lemma small_execution:
  "execution runs (runConfig smallFlags 1 (runPlan sha256Hex smallCaches ''v'' [smallJob]))
     (beginRun smallFlags 1 smallCaches (runPlan sha256Hex smallCaches ''v'' [smallJob])) soloActions smallEnd"
proof (rule execution_performAll)
  show "noAnswers soloActions" by (simp add: soloActions_def)
  have todo: "plTodo (runPlan sha256Hex smallCaches ''v'' [smallJob]) = [smallJob]"
    "plResults (runPlan sha256Hex smallCaches ''v'' [smallJob]) = Map.empty"
    by (simp_all add: runPlan_def planJobs_def planJob_def smallCaches_def emptyCache_def Get_def)
  show "performAll (runConfig smallFlags 1 (runPlan sha256Hex smallCaches ''v'' [smallJob])) soloActions
      (beginRun smallFlags 1 smallCaches (runPlan sha256Hex smallCaches ''v'' [smallJob])) = Some smallEnd"
    unfolding beginRun_def
    by (simp add: startRun_def todo) (simp add: soloActions_def runConfig_def smallFlags_def smallEnd_def poolSize_def
      onWorker_def setWorker_def settle_def collect_def verdict_def smallJob_def smallResult_def smallCaches_def
      Put_def volatileStatus_def)
qed

section \<open>The properties\<close>

text \<open>C19. The golden-file cycle: after a run recorded its snapshot, any run whose results have the same statuses
  holds against it, whatever else changed and in whatever order the maps are visited.\<close>

theorem golden_cycle:
  assumes "finishRun False saved f results pre fs = (Inr Recorded, fs')"
    and "clean_results (mergePrecooked pre results)" "go_map (mergePrecooked pre' results')"
    and "map_option rStatus \<circ> map_of (mergePrecooked pre' results') =
         map_option rStatus \<circ> map_of (mergePrecooked pre results)"
  shows "finishRun False saved' (f\<lparr>fUpdate := False\<rparr>) results' pre' fs' = (Inr SnapshotHolds, fs')"
proof -
  let ?m = "mergePrecooked pre results" and ?m' = "mergePrecooked pre' results'"
  have "Diff ?m' (snapshot ?m) = ([], [])"
  proof (rule changes_none [OF assms(3)])
    fix k r assume "map_of ?m' k = Some r"
    with fun_cong [OF assms(4), of k] have "map_option rStatus (map_of ?m k) = Some (rStatus r)" by simp
    then obtain r0 where "map_of ?m k = Some r0" "rStatus r0 = rStatus r" by blast
    then show "rStatus r = (case snapshot ?m k of None \<Rightarrow> ''pass'' | Some s \<Rightarrow> s)" by (simp add: expected_snapshot)
  qed
  then show ?thesis
    using recorded_loads [OF assms(2,1)] by (simp add: finishRun_def Let_def)
qed

definition snapshotDisk :: filesystem where
  "snapshotDisk = writeFile [] ''e.txt'' (WriteExpectations (mergePrecooked [] exampleResults))"

lemma snapshot_recorded:
  "finishRun False None smallFlags exampleResults [] [] = (Inr Recorded, snapshotDisk)"
  by (simp add: finishRun_def smallFlags_def snapshotDisk_def Let_def)

theorem golden_cycle_witness:
  "finishRun False None (smallFlags\<lparr>fUpdate := False\<rparr>) (rev exampleResults) [] snapshotDisk
     = (Inr SnapshotHolds, snapshotDisk)"
proof (rule golden_cycle [OF snapshot_recorded])
  have c: "clean_results exampleResults" by (rule exampleResults_clean)
  then show "clean_results (mergePrecooked [] exampleResults)" by (simp add: mergePrecooked_def)
  from c have m: "same_map exampleResults (rev exampleResults)" by (simp add: clean_results_def same_map_rev)
  then show "go_map (mergePrecooked [] (rev exampleResults))" by (simp add: mergePrecooked_def same_map_def)
  from same_map_lookup [OF m] show "map_option rStatus \<circ> map_of (mergePrecooked [] (rev exampleResults)) =
      map_option rStatus \<circ> map_of (mergePrecooked [] exampleResults)"
    by (simp add: mergePrecooked_def)
qed

text \<open>Recording from a narrowed run forgets: after an update over a slice of the suite, a job outside the
  slice that does not pass is a regression of the next full run, whatever the snapshot said of it
  before.\<close>

theorem narrow_update_forgets:
  assumes "finishRun False saved f results pre fs = (Inr Recorded, fs')"
    and "clean_results (mergePrecooked pre results)" "k \<notin> fst ` set (mergePrecooked pre results)"
    and "go_map (mergePrecooked pre' results')" "map_of (mergePrecooked pre' results') k = Some r"
    and "rStatus r \<noteq> ''pass''"
  shows "\<exists>regressions improvements.
    finishRun False saved' (f\<lparr>fUpdate := False\<rparr>) results' pre' fs' = (Inr (Drifted regressions improvements), fs') \<and>
    \<lparr>chID = k, chWant = ''pass'', chGot = rStatus r\<rparr> \<in> set regressions"
proof -
  let ?m = "mergePrecooked pre results" and ?m' = "mergePrecooked pre' results'"
  obtain regs imps where d: "Diff ?m' (snapshot ?m) = (regs, imps)" by (cases "Diff ?m' (snapshot ?m)")
  from assms(3) have "map_of ?m k = None" by (simp add: map_of_eq_None_iff)
  then have "snapshot ?m k = None" by (simp add: snapshot_def)
  then have c: "changeOf (snapshot ?m) (k, r) = Some \<lparr>chID = k, chWant = ''pass'', chGot = rStatus r\<rparr>"
    using assms(6) by (simp add: changeOf_def)
  from assms(5) have "(k, r) \<in> set ?m'" by (rule map_of_SomeD)
  with c have "\<lparr>chID = k, chWant = ''pass'', chGot = rStatus r\<rparr> \<in> set (List.map_filter (changeOf (snapshot ?m)) ?m')"
    by (auto simp: set_List_map_filter intro!: bexI [of _ "(k, r)"])
  moreover have "regs = sortSlice changeLess (filter (\<lambda>c. chGot c \<noteq> ''pass'') (List.map_filter (changeOf (snapshot ?m)) ?m'))"
    using d by (simp add: Diff_def Let_def)
  ultimately have "\<lparr>chID = k, chWant = ''pass'', chGot = rStatus r\<rparr> \<in> set regs" using assms(6) by simp
  moreover from this have "0 < length regs + length imps" by (cases regs) simp_all
  ultimately show ?thesis
    using recorded_loads [OF assms(2,1)] by (auto simp: finishRun_def Let_def d)
qed

theorem narrow_update_forgets_witness:
  "\<exists>regressions improvements.
    finishRun False None (smallFlags\<lparr>fUpdate := False\<rparr>) [(''s/a.js#raw'', smallResult)] [] snapshotDisk
      = (Inr (Drifted regressions improvements), snapshotDisk) \<and>
    \<lparr>chID = ''s/a.js#raw'', chWant = ''pass'', chGot = rStatus smallResult\<rparr> \<in> set regressions"
proof (rule narrow_update_forgets [OF snapshot_recorded])
  show "clean_results (mergePrecooked [] exampleResults)" using exampleResults_clean by (simp add: mergePrecooked_def)
qed (simp_all add: mergePrecooked_def go_map_def smallResult_def exampleResults_def)

text \<open>What a run leaves in its cache it does not run again.\<close>

lemma rerun_skips:
  assumes "execution (workerRuns sha moduleRoot rt) (runConfig f workers (runPlan sha cs v jobs))
      (beginRun f workers cs (runPlan sha cs v jobs)) as t"
    and "distinct (map jID jobs)" "ruCache t = Some st" "ccEntries (csResults cs') = ccEntries (fst st)"
  shows "set (plTodo (runPlan sha cs' v jobs)) \<subseteq>
    {j \<in> set (plTodo (runPlan sha cs v jobs)). list_all (\<lambda>r. rID r \<noteq> jID j \<or> volatileStatus (rStatus r)) (ruDone t)}"
proof
  fix j assume "j \<in> set (plTodo (runPlan sha cs' v jobs))"
  then have j: "j \<in> set jobs" and none: "Get (csResults cs') (JobKey sha j v) (jID j) = None"
    by (auto simp: runPlan_def planJobs_todo_filter)
  have "Get (fst st) (JobKey sha j v) (jID j) = None"
    using none assms(4) by (simp add: Get_def)
  with cache_after_run [OF assms(1) [unfolded beginRun_def] assms(3), of "JobKey sha j v" "jID j"]
  have before: "Get (csResults cs) (JobKey sha j v) (jID j) = None"
    and found: "find (\<lambda>r. cacheKeyOf (runConfig f workers (runPlan sha cs v jobs)) r = JobKey sha j v \<and>
        \<not> volatileStatus (rStatus r)) (ruDone t) = None"
    by (auto split: option.splits)
  have "rID r \<noteq> jID j \<or> volatileStatus (rStatus r)" if "r \<in> set (ruDone t)" for r
  proof (rule ccontr)
    assume "\<not> (rID r \<noteq> jID j \<or> volatileStatus (rStatus r))"
    then have r: "rID r = jID j" "\<not> volatileStatus (rStatus r)" by simp_all
    then have "cacheKeyOf (runConfig f workers (runPlan sha cs v jobs)) r = JobKey sha j v"
      using planJobs_keys [OF assms(2) j] by (simp add: cacheKeyOf_def runConfig_def runPlan_def)
    with found that r(2) show False by (auto simp: find_None_iff)
  qed
  moreover have "j \<in> set (plTodo (runPlan sha cs v jobs))"
    using j before by (simp add: runPlan_def planJobs_todo_filter)
  ultimately show "j \<in> {j \<in> set (plTodo (runPlan sha cs v jobs)).
      list_all (\<lambda>r. rID r \<noteq> jID j \<or> volatileStatus (rStatus r)) (ruDone t)}" by (simp add: list_all_iff)
qed

text \<open>The entries of a run survive being written: the keys are digests, the results have crossed the pipe.\<close>

lemma run_storable:
  assumes "execution (workerRuns sha256Hex moduleRoot rt) (runConfig f workers (runPlan sha256Hex cs v jobs))
      (beginRun f workers cs (runPlan sha256Hex cs v jobs)) as t"
    and "distinct (map jID jobs)" "r \<in> set (ruDone t)" "\<not> volatileStatus (rStatus r)"
    and "length (rStatus r) + length (rError r) \<le> 2000000"
  shows "storable (entryOf (cacheKeyOf (runConfig f workers (runPlan sha256Hex cs v jobs)) r) r)"
proof -
  let ?cfg = "runConfig f workers (runPlan sha256Hex cs v jobs)"
  have "rID r \<in> jID ` set (plTodo (runPlan sha256Hex cs v jobs))"
    using wire.done_planned [OF assms(1) [unfolded beginRun_def] assms(3)] .
  then obtain j where j: "j \<in> set jobs" "rID r = jID j" by (auto simp: runPlan_def planJobs_todo_filter)
  then have k: "cacheKeyOf ?cfg r = JobKey sha256Hex j v"
    using planJobs_keys [OF assms(2) j(1)] by (simp add: cacheKeyOf_def runConfig_def runPlan_def)
  have "soundResult r"
    using wire.run_sound [OF assms(1) [unfolded beginRun_def]] assms(3) by (simp add: list_all_iff)
  then have "validResult r = r" using assms(4) by (simp add: soundResult_def)
  then have "validUtf8 (rStatus r)" "validUtf8 (rError r)"
    by (cases r, simp add: validResult_def toValid_id_iff)+
  moreover have "validUtf8 (JobKey sha256Hex j v)" "JobKey sha256Hex j v \<noteq> []" "length (JobKey sha256Hex j v) = 64"
    using length_sha256Hex [of "jobPreimage j v"] by (auto simp: JobKey_def intro: ascii_valid sha256Hex_ascii)
  ultimately show ?thesis using assms(5) by (intro storable_small) (simp_all add: k entryOf_def)
qed

text \<open>C8. A run that is killed can be resumed, when it began on a results file whose last line is whole (a torn one
  would swallow the first entry appended to it) and its jobs have distinct IDs: at any moment of it,
  whatever became of the writes of its stream (cut short included), the file its results are streamed to
  loads, and what loads is part of what the run had collected. When no write failed it is all of it: a run
  that starts from it executes only jobs the first one had to do and had not answered yet, or had answered
  with a timeout or a crash. The results' texts are at most two megabytes.\<close>

theorem rerun_skips_finished:
  assumes "LoadCache unmarshalEntry fs path = (Some c, None)" "wholeLines (contentsOf fs path)"
    and "BeginStream None (c, fs) = (None, csResults cs, csDisk cs)"
    and "execution (workerRuns sha256Hex moduleRoot rt) (runConfig f workers (runPlan sha256Hex cs v jobs))
      (beginRun f workers cs (runPlan sha256Hex cs v jobs)) as t"
    and "list_all (\<lambda>r. length (rStatus r) + length (rError r) \<le> 2000000) (ruDone t)"
    and "distinct (map jID jobs)" "ruCache t = Some (c1, fs1)"
    and "LoadCache unmarshalEntry fs1 path = (Some c2, err)" "ccEntries (csResults cs') = ccEntries c2"
  shows "err = None \<and> ccEntries c2 \<subseteq>\<^sub>m ccEntries c1 \<and>
    (list_all wholeWrite as \<longrightarrow> set (plTodo (runPlan sha256Hex cs' v jobs)) \<subseteq>
    {j \<in> set (plTodo (runPlan sha256Hex cs v jobs)).
       list_all (\<lambda>r. rID r \<noteq> jID j \<or> volatileStatus (rStatus r)) (ruDone t)})"
proof -
  let ?cfg = "runConfig f workers (runPlan sha256Hex cs v jobs)"
  have open_disk: "onDisk unmarshalEntry (csResults cs, csDisk cs)" by (rule BeginStream_onDisk [OF assms(1,2,3)])
  have "ccPath c = path" using assms(1) by (auto simp: LoadCache_def emptyCache_def split: file_read.splits prod.splits)
  moreover have "ccPath (csResults cs) = ccPath c" using assms(3) by (auto simp: BeginStream_def dest: sym)
  ultimately have path: "ccPath (csResults cs) = path" by simp
  have fits: "list_all (\<lambda>r. volatileStatus (rStatus r) \<or> storable (entryOf (cacheKeyOf ?cfg r) r)) (ruDone t)"
    using run_storable [OF assms(4,6)] assms(5) by (auto simp: list_all_iff)
  have "cgMarshal ?cfg = entryText" by (simp add: runConfig_def)
  from execution_behind [OF assms(4) [unfolded beginRun_def] this _ fits] open_disk assms(7)
  have b: "behind (c1, fs1)" "ccPath c1 = path" by (auto simp: behind_def path)
  from behind_loads [OF b(1)] b(2) assms(8) have l: "err = None" "ccEntries c2 \<subseteq>\<^sub>m ccEntries c1" by auto
  have "set (plTodo (runPlan sha256Hex cs' v jobs)) \<subseteq>
      {j \<in> set (plTodo (runPlan sha256Hex cs v jobs)).
         list_all (\<lambda>r. rID r \<noteq> jID j \<or> volatileStatus (rStatus r)) (ruDone t)}" if "list_all wholeWrite as"
  proof -
    have "carriedResults ?cfg unmarshalEntry (ruDone t)"
      using fits by (simp add: carriedResults_def runConfig_def carried_storable)
    from execution_onDisk [OF assms(4) that _ open_disk this] assms(7)
    have "onDisk unmarshalEntry (c1, fs1)" by (simp add: beginRun_def)
    then have "LoadCache unmarshalEntry fs1 path = (Some ((emptyCache path)\<lparr>ccEntries := ccEntries c1\<rparr>), None)"
      using b(2) by (auto simp: onDisk_def LoadCache_stored split: file_read.splits)
    with assms(8,9) have "ccEntries (csResults cs') = ccEntries (fst (c1, fs1))" by auto
    from rerun_skips [OF assms(4,6,7) this] show ?thesis .
  qed
  with l show ?thesis by blast
qed

theorem rerun_skips_finished_witness:
  "set (plTodo (runPlan sha256Hex smallCaches ''v'' [smallJob])) \<subseteq>
    {j \<in> set (plTodo (runPlan sha256Hex smallCaches ''v'' [smallJob])).
      list_all (\<lambda>r. rID r \<noteq> jID j \<or> volatileStatus (rStatus r)) (ruDone smallEnd)}"
proof (rule rerun_skips_finished [THEN conjunct2, THEN conjunct2, rule_format, OF _ _ _ small_execution])
  show "LoadCache unmarshalEntry [] ''c/r'' = (Some (emptyCache ''c/r''), None)" by (simp add: LoadCache_def readFile_def)
  show "wholeLines (contentsOf [] ''c/r'')" by (simp add: wholeLines_def contentsOf_def readFile_def)
  show "BeginStream None (emptyCache ''c/r'', []) = (None, csResults smallCaches, csDisk smallCaches)"
    by (simp add: BeginStream_def smallCaches_def emptyCache_def)
  show "list_all wholeWrite soloActions" by (simp add: soloActions_def wholeWrite_def)
  show "list_all (\<lambda>r. length (rStatus r) + length (rError r) \<le> 2000000) (ruDone smallEnd)"
    by (simp add: smallEnd_def smallResult_def)
  show "ruCache smallEnd = Some (csResults smallCaches, csDisk smallCaches)" by (simp add: smallEnd_def)
  show "LoadCache unmarshalEntry (csDisk smallCaches) ''c/r'' = (Some (emptyCache ''c/r''), None)"
  proof -
    have "contentsOf [] ''c/r'' = []" by (simp add: contentsOf_def readFile_def)
    then show ?thesis
      by (simp add: smallCaches_def LoadCache_def scanLines_def rawLines_def Let_def emptyCache_def)
  qed
qed (simp_all add: smallCaches_def smallJob_def)

text \<open>The memory cap does not bound the default pool: \<open>-jobs 0\<close> (or less) passes the cap unchanged, and the
  run then starts eight workers, more than fit a machine the cap knows to be smaller.\<close>

theorem zero_jobs_uncapped:
  assumes "MemSafeWorkers tot share per = Some (safe, t)" "workers \<le> 0" "0 \<le> safe" "safe < 8"
  shows "cappedWorkers tot share per workers = Some workers \<and>
    safe < int (length (ruWorkers (beginRun f workers cs p)))"
  using assms by (auto simp: cappedWorkers_def CapWorkers_def beginRun_def startRun_def runConfig_def poolSize_def)

theorem zero_jobs_uncapped_witness:
  "cappedWorkers 25769803776 (1 / 2) 6442450944 0 = Some 0 \<and>
    2 < int (length (ruWorkers (beginRun smallFlags 0 smallCaches soloPlan)))"
proof (rule zero_jobs_uncapped)
  have "uint (memBudget 25769803776 (1 / 2)) = 12884901888" by (rule memBudget_half) simp_all
  then have "memBudget 25769803776 (1 / 2) = 12884901888" by (simp add: word_uint_eq_iff)
  then show "MemSafeWorkers 25769803776 (1 / 2) 6442450944 = Some (2, 25769803776)"
    by (simp add: MemSafeWorkers_def)
qed simp_all

text \<open>A machine that cannot be probed is never blocked: without an answer of the platform the pool keeps its
  size, no memory limit is set, and the disk check passes.\<close>

theorem unknown_platform_runs:
  "cappedWorkers (totalMem_linux (Inl e)) share per workers = Some workers \<and>
   cappedWorkers (totalMem_darwin (Inl e)) share per workers = Some workers \<and>
   cappedWorkers totalMem_other share per workers = Some workers \<and>
   memEnv (MemoryLimitBytes totalMem_other share) v workers = [] \<and>
   preflightDisk None FreeDiskBytes_other minFree = None \<and>
   preflightDisk None (FreeDiskBytes_unix (Inl e)) minFree = None"
  by (simp add: totalMem_linux_def totalMem_darwin_def totalMem_other_def cappedWorkers_def CapWorkers_def
      MemSafeWorkers_def MemoryLimitBytes_def memEnv_def preflightDisk_def FreeDiskBytes_other_def FreeDiskBytes_unix_def)

text \<open>The disk check refuses exactly when fewer megabytes are free than asked for, as long as the megabytes
  asked for fit 64 bits in bytes; shifted beyond them, a multiple of \<open>2 ^ 44\<close> asks for nothing.\<close>

theorem preflight_exact:
  assumes "0 < sint minFree" "uint bytes \<noteq> 0"
  shows "(sint minFree < 2 ^ 44 \<longrightarrow>
      (preflightDisk None (Inr bytes) minFree = None \<longleftrightarrow> sint minFree * 2 ^ 20 \<le> uint bytes)) \<and>
    (2 ^ 44 dvd uint minFree \<longrightarrow> preflightDisk None (Inr bytes) minFree = None)"
proof -
  have u: "uint (push_bit 20 minFree) = (uint minFree * 2 ^ 20) mod 2 ^ 64"
    by (simp add: push_bit_eq_mult uint_word_ariths)
  have b: "bytes \<noteq> 0" using assms(2) by auto
  have p: "preflightDisk None (Inr bytes) minFree = None \<longleftrightarrow> uint (push_bit 20 minFree) \<le> uint bytes"
    using assms(1) b by (auto simp: preflightDisk_def Let_def word_le_def word_less_def)
  have s: "sint minFree = uint minFree"
  proof -
    have "sint minFree = uint minFree - 2 ^ 64 * of_bool (bit (uint minFree) 63)"
      using uint_below [of minFree] by (simp add: sint_uint signed_take_bit_eq_take_bit_minus take_bit_int_eq_self)
    with assms(1) uint_below [of minFree] show ?thesis by (cases "bit (uint minFree) 63") simp_all
  qed
  have "uint (push_bit 20 minFree) = sint minFree * 2 ^ 20" if "sint minFree < 2 ^ 44"
    unfolding u s [symmetric] using that assms(1) by (intro mod_pos_pos_trivial) simp_all
  moreover have "uint (push_bit 20 minFree) = 0" if "2 ^ 44 dvd uint minFree"
    using that unfolding u by (auto elim!: dvdE)
  ultimately show ?thesis using p by simp
qed

theorem preflight_exact_witness:
  "preflightDisk None (Inr 1) 17592186044416 = None"
  by (rule preflight_exact [THEN conjunct2, rule_format]) simp_all

text \<open>A negative limit selects like no limit at all, but is not the zero the lower-only refusal looks for: it
  lets an unscoped pass over any number of jobs through.\<close>

theorem negative_limit_unscoped:
  assumes "fLimit f < 0"
  shows "expandCases order order' yaml fs f deny = expandCases order order' yaml fs (f\<lparr>fLimit := 0\<rparr>) deny \<and>
    lowerMain order order' order'' yaml fs env f deny =
      (case expandCases order order' yaml fs f deny of
         Inl e \<Rightarrow> Inl e
       | Inr ex \<Rightarrow> Inr (LowerOnly order'' env (exJobs ex) (exPrecooked ex)))"
  using assms by (simp add: expandCases_def Select_def lowerMain_def split: sum.split)

theorem negative_limit_unscoped_witness:
  "expandCases [0] [0] rawYaml smallDisk (smallFlags\<lparr>fLimit := -1\<rparr>) [] =
     expandCases [0] [0] rawYaml smallDisk ((smallFlags\<lparr>fLimit := -1\<rparr>)\<lparr>fLimit := 0\<rparr>) []"
  by (rule negative_limit_unscoped [THEN conjunct1]) simp

text \<open>What a spawned worker reads of an entry: the appended one, else the inherited one.\<close>

lemma spawned_getenv:
  assumes "spawnWorker sp environ env = Inr penv" "envName name"
  shows "getenv penv name = getenv (rev env @ rev environ) name"
proof -
  have "penv = dedupEnv (environ @ env)"
    using assms(1) by (auto simp: spawnWorker_def split: option.splits prod.splits if_splits)
  then show ?thesis by (simp add: getenv_dedup [OF assms(2)])
qed

lemma worker_names: "envName ''BENTO262_WORKER_MEMLIMIT''" "envName ''BENTO_MODULE_ROOT''"
    "envName ''BENTO262_RUN_TIMEOUT''" "envName ''BENTO262_RUNTIME_HASH''" "envName ''BENTO262_TAILCACHE''"
    "envName ''GOCACHE''"
  by (simp_all add: envName_def)

lemma spawned_settings:
  assumes "spawnWorker sp environ (workerEnvList moduleRoot timeout tailPath runtimeHash (memEnv budget limit workers)) = Inr penv"
    and "- (2 ^ 63) \<le> timeout" "timeout < 2 ^ 63" "moduleRoot \<noteq> []" "tailPath \<noteq> []" "runtimeHash \<noteq> []"
    and "LoadCache unmarshalEntry fs tailPath = (tail, None)"
  shows "workerSettings fs (workerEnvOf penv) =
      Inr \<lparr>stRoot = moduleRoot, stTimeout = timeout, stTail = tail, stHash = runtimeHash\<rparr>"
proof -
  have env: "weModuleRoot (workerEnvOf penv) = moduleRoot" "weRunTimeout (workerEnvOf penv) = formatDuration timeout"
      "weTailCache (workerEnvOf penv) = tailPath" "weRuntimeHash (workerEnvOf penv) = runtimeHash"
    by (simp_all add: workerEnvOf_def spawned_getenv [OF assms(1)] worker_names)
      (simp_all add: workerEnvList_def getenv_def memEnv_def named_def HasPrefix_def)
  have "ParseDuration (formatDuration timeout) = Inr timeout" by (rule durations_return [OF assms(2,3)])
  moreover have "formatDuration timeout \<noteq> []" by (rule formatDuration_nonempty)
  ultimately show ?thesis using env assms(4-7) by (simp add: workerSettings_def)
qed

lemma spawned_limit:
  assumes "spawnWorker sp environ (workerEnvList moduleRoot timeout tailPath runtimeHash (memEnv budget [] workers)) = Inr penv"
    and "0 < budget div max workers 1" "budget div max workers 1 < 2 ^ 63"
  shows "memLimitSetting (weMemLimit (workerEnvOf penv)) = Some (budget div max workers 1)"
proof -
  have "0 < budget"
  proof (rule ccontr)
    assume "\<not> 0 < budget"
    then have "budget div max workers 1 \<le> 0" by (intro div_nonpos_pos_le0) simp_all
    with assms(2) show False by simp
  qed
  then have "weMemLimit (workerEnvOf penv) = itoa (nat (budget div max workers 1))"
    by (simp add: workerEnvOf_def spawned_getenv [OF assms(1)] worker_names)
      (simp add: workerEnvList_def getenv_def memEnv_def named_def HasPrefix_def)
  moreover have "parseInt 64 (itoa (nat (budget div max workers 1))) = Some (budget div max workers 1)"
    using parseInt_itoa [of "nat (budget div max workers 1)" 64] assms(2,3) by simp
  ultimately show ?thesis using assms(2) by (simp add: memLimitSetting_def)
qed



end
