(* ===== verification/Command.thy ===== *)
theory Command
  imports RunnerFacts
begin

text \<open>
  \<open>runMain\<close> of \<open>cmd/bento262/main.go\<close> as a whole: the guards, the preparation of the host, the expansion,
  the two caches, \<open>RunAll\<close>, the saving of the caches and the report, in the code's order, and what an
  exit status means. Every answer of the machine and of the libraries is a field of the \<open>world\<close>.
\<close>

section \<open>The world\<close>

record world =
  woSha :: "string \<Rightarrow> string"
  woYaml :: "string \<Rightarrow> goerror + meta"
  woCwd :: "string option"
  woSource :: "string \<rightharpoonup> string"
  woNames :: "string list"
  woCaseOrder :: "nat list"
  woJobOrder :: "nat list"
  woLowerOrder :: "nat list"
  woCompiler :: aotEnv
  woMemory :: "64 word"
  woEnviron :: "string list"
  woHost :: host
  woStaged :: filesystem
  woEntries :: "dirEntry list option"
  woGone :: "string \<Rightarrow> bool"
  woOpened :: "goerror option \<times> goerror option"

text \<open>
  \<open>woStaged\<close> are the files once the module root is staged, \<open>woEnviron\<close> is the environment the command starts
  with.
\<close>

definition envFraction :: "world \<Rightarrow> rat" where
  "envFraction w = memFraction (getenv (woEnviron w) ''BENTO262_MEM_FRACTION'')"

definition envShare :: "world \<Rightarrow> 64 word" where
  "envShare w = perWorkerMemBytes (getenv (woEnviron w) ''BENTO262_MEM_PER_WORKER_MB'')"

section \<open>Up to the run\<close>

text \<open>The quarantine list and the pool size every run starts with; \<open>None\<close> is the cap's panic.\<close>

definition guards :: "world \<Rightarrow> filesystem \<Rightarrow> flags \<Rightarrow> (goerror + string list \<times> int) option" where
  "guards w fs f =
     (case LoadDenylist fs (fDenyPath f) of
        (_, Some e) \<Rightarrow> Some (Inl e)
      | (deny, None) \<Rightarrow>
          map_option (\<lambda>workers. Inr (deny, workers)) (cappedWorkers (woMemory w) (envFraction w) (envShare w) (fWorkers f)))"

record launch =
  suWorkers :: int
  suEnviron :: "string list"
  suMemory :: "string list"
  suHost :: prepared
  suExpansion :: expansion
  suCaches :: caches
  suPlan :: plan

definition launchRun :: "world \<Rightarrow> flags \<Rightarrow> filesystem \<Rightarrow> string list \<Rightarrow> int \<Rightarrow> goerror + launch" where
  "launchRun w f fs deny workers =
     (case prepareHost (woSha w) fs f (woHost w) of
        Inl e \<Rightarrow> Inl e
      | Inr hs \<Rightarrow>
          (case expandCases (woCaseOrder w) (woJobOrder w) (woYaml w) (woStaged w) f deny of
             Inl e \<Rightarrow> Inl e
           | Inr ex \<Rightarrow>
               (case openCaches (woSha w) (woSource w) (woNames w) (woCwd w) (woEntries w)
                       (woGone w) (woOpened w) f (hsRoot hs) (hsVersion hs) (woStaged w) of
                  Inl e \<Rightarrow> Inl e
                | Inr cs \<Rightarrow>
                    Inr \<lparr>suWorkers = workers,
                         suEnviron = setenv ''GOCACHE'' (hsGoCache hs) (woEnviron w),
                         suMemory = memEnv (MemoryLimitBytes (woMemory w) (envFraction w))
                           (getenv (woEnviron w) ''GOMEMLIMIT'') workers,
                         suHost = hs, suExpansion = ex, suCaches = cs,
                         suPlan = runPlan (woSha w) cs (hsVersion hs) (exJobs ex)\<rparr>)))"

text \<open>What every worker is spawned with, after the environment of the run, in which the build cache is set.\<close>

definition launchEnv :: "flags \<Rightarrow> launch \<Rightarrow> string list" where
  "launchEnv f su =
     workerEnvList (hsRoot (suHost su)) (fRunTimeout f) (joinPath [fCacheDir f, ''tail.ndjson''])
       (csHash (suCaches su)) (suMemory su)"

text \<open>\<open>RunAll\<close> on the options the command passes.\<close>

definition runsTo :: "world \<Rightarrow> flags \<Rightarrow> launch \<Rightarrow> run \<Rightarrow> bool" where
  "runsTo w f su t \<longleftrightarrow>
     RunAll (workerRuns (woSha w) (hsRoot (suHost su)) (csHash (suCaches su)))
       (runConfig f (suWorkers su) (suPlan su)) (suPlan su)
       (Some (csResults (suCaches su), csDisk (suCaches su)))
       (Some (csTail (suCaches su), csDisk (suCaches su))) t"

section \<open>From the run on\<close>

text \<open>The two streams write different files of one disk: \<open>copyFile\<close> brings a file of the second view over.\<close>

definition copyFile :: "filesystem \<Rightarrow> string \<Rightarrow> filesystem \<Rightarrow> filesystem" where
  "copyFile other p fs = (case readFile other p of FileData d \<Rightarrow> writeFile fs p d | _ \<Rightarrow> removeFile fs p)"

definition oneDisk :: "string \<Rightarrow> filesystem \<Rightarrow> filesystem \<Rightarrow> filesystem" where
  "oneDisk tailPath fs other = copyFile other tailPath (copyFile other (tailPath @ ''.tmp'') fs)"

text \<open>Saving the results cache, then the tail cache; the first error ends the command.\<close>

definition saveCaches ::
  "save_outcome \<times> string list \<Rightarrow> save_outcome \<times> string list \<Rightarrow>
   cache \<times> filesystem \<Rightarrow> cache \<times> filesystem \<Rightarrow> goerror option \<times> filesystem" where
  "saveCaches o1 o2 st tst =
     (case Save entryText (fst o1) (snd o1) st of
        (Some e, c, fs) \<Rightarrow> (Some e, oneDisk (ccPath (fst tst)) fs (snd tst))
      | (None, c, fs) \<Rightarrow>
          (case Save entryText (fst o2) (snd o2) tst of
             (err, t, fs') \<Rightarrow> (err, oneDisk (ccPath (fst tst)) fs fs')))"

text \<open>
  The command: the results it reports, if it gets that far, how it ends, and the files it leaves (left
  open when it stops before the run). The report visits the results map in any order. An interrupt
  that comes after \<open>RunAll\<close> returned but before the check counts like one during the run.
\<close>

inductive runMain ::
  "world \<Rightarrow> filesystem \<Rightarrow> flags \<Rightarrow> results option \<Rightarrow> goerror + outcome \<Rightarrow> filesystem \<Rightarrow> bool"
  for w fs f where
  unguarded: "guards w fs f = Some (Inl e) \<Longrightarrow> runMain w fs f None (Inl e) fs"
| unlowered: "guards w fs f = Some (Inr (deny, workers)) \<Longrightarrow> fLowerOnly f \<Longrightarrow>
    lowerMain (woCaseOrder w) (woJobOrder w) (woLowerOrder w) (woYaml w) fs (woCompiler w) f deny = Inl e \<Longrightarrow>
    runMain w fs f None (Inl e) fs"
| lowered: "guards w fs f = Some (Inr (deny, workers)) \<Longrightarrow> fLowerOnly f \<Longrightarrow>
    lowerMain (woCaseOrder w) (woJobOrder w) (woLowerOrder w) (woYaml w) fs (woCompiler w) f deny = Inr (Some rep) \<Longrightarrow>
    runMain w fs f None (Inr (Measured rep)) fs"
| unprepared: "guards w fs f = Some (Inr (deny, workers)) \<Longrightarrow> \<not> fLowerOnly f \<Longrightarrow>
    launchRun w f fs deny workers = Inl e \<Longrightarrow> runMain w fs f None (Inl e) fs'"
| unsaved: "guards w fs f = Some (Inr (deny, workers)) \<Longrightarrow> \<not> fLowerOnly f \<Longrightarrow>
    launchRun w f fs deny workers = Inr su \<Longrightarrow> runsTo w f su t \<Longrightarrow>
    ruCache t = Some st \<Longrightarrow> ruTail t = Some tst \<Longrightarrow>
    saveCaches o1 o2 st tst = (Some e, fs') \<Longrightarrow> runMain w fs f None (Inl e) fs'"
| reported: "guards w fs f = Some (Inr (deny, workers)) \<Longrightarrow> \<not> fLowerOnly f \<Longrightarrow>
    launchRun w f fs deny workers = Inr su \<Longrightarrow> runsTo w f su t \<Longrightarrow>
    ruCache t = Some st \<Longrightarrow> ruTail t = Some tst \<Longrightarrow>
    saveCaches o1 o2 st tst = (None, fs') \<Longrightarrow>
    go_map results \<Longrightarrow> map_of results = ruResults t \<Longrightarrow> ruAborted t \<longrightarrow> interrupted \<Longrightarrow>
    finishRun interrupted saved f results (exPrecooked (suExpansion su)) fs' = (ended, fs'') \<Longrightarrow>
    runMain w fs f (Some (if interrupted then results else mergePrecooked (exPrecooked (suExpansion su)) results))
      ended fs''"

inductive_cases runMainE: "runMain w fs f report ended fs'"

end
