(* ===== verification/CommandFacts.thy ===== *)
theory CommandFacts
  imports Command
begin

text \<open>
  What the command means: every test it found is in its report, its exit status is the comparison with
  the snapshot, and it always ends.
\<close>

section \<open>From the launch to the report\<close>

lemma launchRun_fields:
  assumes "launchRun w f fs deny workers = Inr su"
  shows "expandCases (woCaseOrder w) (woJobOrder w) (woYaml w) (woStaged w) f deny = Inr (suExpansion su)"
    and "suPlan su = runPlan (woSha w) (suCaches su) (hsVersion (suHost su)) (exJobs (suExpansion su))"
  using assms by (auto simp: launchRun_def split: sum.splits)

lemma runsTo_keys:
  assumes "launchRun w f fs deny workers = Inr su" "runsTo w f su t" "\<not> ruAborted t"
  shows "dom (ruResults t) = jID ` set (exJobs (suExpansion su))"
  using RunAll_covers [OF assms(2) [unfolded runsTo_def], where jobs = "exJobs (suExpansion su)"] assms(3)
  by (simp add: launchRun_fields(2) [OF assms(1)] runPlan_def)

lemma runsTo_streams:
  assumes "runsTo w f su t"
  obtains st tst where "ruCache t = Some st" "ruTail t = Some tst"
  using RunAll_streams [OF assms [unfolded runsTo_def]] by auto

lemma runsTo_finite:
  assumes "launchRun w f fs deny workers = Inr su" "runsTo w f su t"
  shows "finite (dom (ruResults t))"
  using RunAll_results [OF assms(2) [unfolded runsTo_def]]
  by (simp add: launchRun_fields(2) [OF assms(1)] runPlan_def dom_collected finite_planned)

text \<open>Every map with finitely many keys has an order to visit it in.\<close>

lemma visit_exists:
  assumes "finite (dom m)"
  shows "\<exists>visit. go_map visit \<and> map_of visit = m"
proof -
  obtain ks where ks: "set ks = dom m" "distinct ks" using finite_distinct_list [OF assms] by blast
  let ?visit = "map (\<lambda>k. (k, the (m k))) ks"
  have "map_of ?visit = m"
  proof
    fix k show "map_of ?visit k = m k"
      using ks(1) by (cases "k \<in> set ks") (auto simp: map_of_map_keys map_of_eq_None_iff image_iff dom_def
          simp flip: map_of_eq_None_iff)
  qed
  moreover have "go_map ?visit" using ks(2) by (simp add: go_map_def comp_def)
  ultimately show ?thesis by blast
qed

text \<open>A report that is not interrupted.\<close>

lemma reportedE:
  assumes "runMain w fs f (Some report) ended fs'" "ended \<noteq> Inr Interrupted"
    and "guards w fs f = Some (Inr (deny, workers))" "launchRun w f fs deny workers = Inr su"
  obtains t results saved fs1 where "runsTo w f su t" "\<not> ruAborted t" "go_map results" "map_of results = ruResults t"
    "report = mergePrecooked (exPrecooked (suExpansion su)) results"
    "finishRun False saved f results (exPrecooked (suExpansion su)) fs1 = (ended, fs')"
  using assms(1)
proof (cases rule: runMain.cases)
  case (reported deny' workers' su' t st tst o1 o2 fs1 results interrupted saved)
  then have "\<not> interrupted" using assms(2) by (auto simp: finishRun_def)
  with reported assms(3,4) show thesis by (intro that [of t results saved fs1]) auto
qed

section \<open>A small command\<close>

text \<open>One raw test, whose verdict the results cache already holds.\<close>

definition zeros :: "string \<Rightarrow> string" where
  "zeros s = replicate 64 (CHR ''0'')"

definition hitEntry :: cacheEntry where
  "hitEntry = \<lparr>ceKey = zeros [], ceStatus = ''pass'', ceError = []\<rparr>"

lemma hitEntry_storable: "storable hitEntry"
  by (rule storable_small)
    (simp_all add: hitEntry_def zeros_def ascii_valid ascii_Cons byteOf_def ascii_def list_all_iff)

lemma hitEntry_read: "unmarshalEntry (marshalEntry hitEntry) = Some hitEntry" "ceKey hitEntry = zeros []"
  using hitEntry_storable by (simp_all add: unmarshal_marshalEntry storable_def) (simp add: hitEntry_def)

definition heldPath :: string where
  "heldPath = ''c/results-v1.h000000000000-h000000000000.ndjson''"

definition heldDisk :: filesystem where
  "heldDisk =
     [(''t/s/a.js'', FileData ''/*---info---*/x''), (''h/sta.ts'', FileData ''x''),
      (heldPath, FileData (marshalEntry hitEntry @ [NL])),
      (''c/bento-v1.h000000000000/pkg/value/v.go'', FileData ''package value''),
      (''c/bento-v1.h000000000000/go.mod'', FileData ''module m''),
      (''c/bento-v1.h000000000000/go.sum'', FileData [])]"

definition heldHost :: host where
  "heldHost = \<lparr>hoMkdir = None, hoFree = Inr 0, hoGoCache = Inr ''c/go-build'', hoStaging = plainStaging,
     hoEntries = None, hoRootEntries = None, hoWarmStd = None, hoWarmValue = None, hoWalk = []\<rparr>"

definition heldWorld :: world where
  "heldWorld = \<lparr>woSha = zeros, woYaml = rawYaml, woCwd = Some ''/w'', woSource = Map.empty, woNames = [], woCaseOrder = [0], woJobOrder = [0], woLowerOrder = [],
     woCompiler = exampleEnv, woMemory = 0, woEnviron = [],
     woHost = heldHost, woStaged = heldDisk, woEntries = None, woGone = (\<lambda>_. True), woOpened = (None, None)\<rparr>"

definition heldFlags :: flags where
  "heldFlags = smallFlags\<lparr>fUpdate := False\<rparr>"

definition heldPrepared :: prepared where
  "heldPrepared = \<lparr>hsGoCache = ''c/go-build'', hsRoot = ''c/bento-v1.h000000000000'',
     hsVersion = ''v1.h000000000000'', hsSwept = [], hsBaseline = {}, hsCeiling = 0\<rparr>"

definition heldCaches :: caches where
  "heldCaches =
     \<lparr>csResults = (emptyCache heldPath)\<lparr>ccEntries := [zeros [] \<mapsto> hitEntry], ccStream := Open\<rparr>,
      csTail = (emptyCache ''c/tail.ndjson'')\<lparr>ccStream := Open\<rparr>, csHash = zeros [],
      csDisk = appendFile (appendFile heldDisk heldPath []) ''c/tail.ndjson'' []\<rparr>"

lemma held_guards: "guards heldWorld bentoDisk heldFlags = Some (Inr ([], 1))"
  by (simp add: guards_def heldWorld_def heldFlags_def smallFlags_def LoadDenylist_def bentoDisk_def readFile_def
      cappedWorkers_def CapWorkers_def MemSafeWorkers_def)

lemma held_prepared: "prepareHost zeros bentoDisk heldFlags heldHost = Inr heldPrepared"
proof -
  have "moduleFingerprint zeros bentoDisk ''/b'' = Inr ''000000000000''"
    by (simp add: moduleFingerprint_files [OF bentoDisk_files] zeros_def numeral_eq_Suc)
  moreover have "joinPath [''c'', ''bento-v1.h000000000000''] = ''c/bento-v1.h000000000000''"
    "readFile bentoDisk (joinPath [''c/bento-v1.h000000000000'', ''go.mod'']) = FileMissing" by code_simp+
  ultimately have "PrepareModuleRoot zeros bentoDisk plainStaging None ''c'' =
      Inr (''c/bento-v1.h000000000000'', ''v1.h000000000000'', [])"
    by (simp add: PrepareModuleRoot_def plainStaging_def plainStaging_fields [simplified] stagingError_def WarmDeps_def
        moduleVersion_def pruneStagedRoots_def Let_def)
  then show ?thesis
    by (simp add: prepareHost_def heldFlags_def smallFlags_def heldHost_def preflightDisk_def SweepBuildDirs_def
        WarmDeps_def goCacheCeiling_def heldPrepared_def)
qed

lemma held_expansion: "expandCases [0] [0] rawYaml heldDisk heldFlags [] = Inr smallExpansion"
  by code_simp

lemma held_caches:
  "openCaches zeros Map.empty [] (Some ''/w'') None (\<lambda>_. True)
     (None, None) heldFlags ''c/bento-v1.h000000000000'' ''v1.h000000000000'' heldDisk = Inr heldCaches"
proof -
  have ports: "portFiles heldDisk ''h'' = Inr [(''sta.ts'', ''x'')]" by code_simp
  have linked: "linkedFiles heldDisk ''c/bento-v1.h000000000000'' =
      Inr [(''pkg/value/v.go'', ''package value''), (''go.mod'', ''module m''), (''go.sum'', [])]" by code_simp
  have paths: "joinPath [''c'', ''results-v1.h000000000000-h000000000000.ndjson''] = heldPath"
    "joinPath [''c'', ''tail.ndjson''] = ''c/tail.ndjson''" by code_simp+
  have hit: "readFile heldDisk heldPath = FileData (marshalEntry hitEntry @ [NL])"
    "readFile heldDisk ''c/tail.ndjson'' = FileMissing"
    by (simp_all add: readFile_def heldDisk_def heldPath_def)
  have scan: "scanLines cacheLineLimit (marshalEntry hitEntry @ [NL]) = ([marshalEntry hitEntry], False)"
    using entryLine.raw [of "[hitEntry]"] entryLine.one_line(2) [of hitEntry] hitEntry_storable
    by (simp add: scanLines_def Let_def dropCR_id storable_def)
  have zeros: "zeros x = zeros []" "zeros [] \<noteq> []" for x by (simp_all add: zeros_def)
  have fp: "HarnessFingerprint zeros Map.empty [] heldDisk ''h'' = Inr ''000000000000''"
    "RuntimeHash zeros heldDisk ''c/bento-v1.h000000000000'' = Inr (zeros [])"
    using zeros(1) by (simp_all add: HarnessFingerprint_def RuntimeHash_def ports linked) (simp add: zeros_def numeral_eq_Suc)
  have name: "resultsName ''v1.h000000000000'' ''000000000000'' = ''results-v1.h000000000000-h000000000000.ndjson''"
    by (simp add: resultsName_def)
  show ?thesis
    by (simp add: openCaches_def heldFlags_def smallFlags_def fp name paths LoadCache_def hit scan
        addLine_def hitEntry_read zeros(2) PruneResultsCaches_def BeginStream_def emptyCache_def heldCaches_def Let_def
        del: append.simps)
qed

definition heldLaunch :: launch where
  "heldLaunch = \<lparr>suWorkers = 1, suEnviron = [''GOCACHE=c/go-build''], suMemory = [], suHost = heldPrepared, suExpansion = smallExpansion,
     suCaches = heldCaches, suPlan = runPlan zeros heldCaches ''v1.h000000000000'' [smallJob]\<rparr>"

lemma held_launch: "launchRun heldWorld heldFlags bentoDisk [] 1 = Inr heldLaunch"
  by (simp add: launchRun_def heldWorld_def held_prepared held_expansion heldPrepared_def held_caches memEnv_def
      MemoryLimitBytes_def setenv_def heldLaunch_def smallExpansion_def)

definition heldResult :: result where
  "heldResult = \<lparr>rID = ''s/a.js#raw'', rStatus = ''pass'', rError = [], rTailKey = []\<rparr>"

lemma held_plan:
  "plTodo (suPlan heldLaunch) = []" "plResults (suPlan heldLaunch) = [''s/a.js#raw'' \<mapsto> heldResult]"
  by (simp_all add: heldLaunch_def runPlan_def planJobs_def planJob_def heldCaches_def emptyCache_def Get_def JobKey_def
      hitEntry_def heldResult_def smallJob_def zeros_def Let_def)

definition heldEnd :: run where
  "heldEnd = (startRun (runConfig heldFlags 1 (suPlan heldLaunch)) (suPlan heldLaunch)
     (Some (csResults heldCaches, csDisk heldCaches)) (Some (csTail heldCaches, csDisk heldCaches)))
     \<lparr>ruAborted := False\<rparr>"

lemma held_runs: "runsTo heldWorld heldFlags heldLaunch heldEnd"
  using RunAll.nothing_to_do [OF held_plan(1), of _ _ _ _ False]
  by (simp add: runsTo_def heldEnd_def) (simp add: heldLaunch_def)

definition heldFinal :: filesystem where
  "heldFinal = oneDisk ''c/tail.ndjson'' (csDisk heldCaches) (csDisk heldCaches)"

lemma held_saved:
  "saveCaches (\<lparr>soClosed = None, soTmp = None, soRename = None, soPartial = None\<rparr>, [])
     (\<lparr>soClosed = None, soTmp = None, soRename = None, soPartial = None\<rparr>, [])
     (csResults heldCaches, csDisk heldCaches) (csTail heldCaches, csDisk heldCaches) = (None, heldFinal)"
  by (simp add: saveCaches_def Save_def CloseStream_def heldCaches_def emptyCache_def heldFinal_def Let_def)

lemma held_snapshot: "LoadExpectations heldFinal (fExpPath heldFlags) = Inr Map.empty"
proof -
  have "readFile heldDisk ''e.txt'' = FileMissing" by code_simp
  then show ?thesis
    by (simp add: LoadExpectations_def heldFinal_def oneDisk_def copyFile_def heldCaches_def heldFlags_def smallFlags_def
        heldPath_def split: file_read.split)
qed

lemma held_report: "runMain heldWorld bentoDisk heldFlags (Some [(''s/a.js#raw'', heldResult)]) (Inr SnapshotHolds) heldFinal"
proof -
  have "exPrecooked (suExpansion heldLaunch) = []" by (simp add: heldLaunch_def smallExpansion_def)
  moreover have "finishRun False None heldFlags [(''s/a.js#raw'', heldResult)] [] heldFinal = (Inr SnapshotHolds, heldFinal)"
  proof -
    have "Diff [(''s/a.js#raw'', heldResult)] Map.empty = ([], [])"
      by (simp add: Diff_def changeOf_def heldResult_def sortSlice_def)
    moreover have "\<not> fUpdate heldFlags" by (simp add: heldFlags_def)
    ultimately show ?thesis by (simp add: finishRun_def held_snapshot mergePrecooked_def)
  qed
  moreover have "\<not> fLowerOnly heldFlags" by (simp add: heldFlags_def smallFlags_def)
  ultimately have "runMain heldWorld bentoDisk heldFlags
      (Some (if False then [(''s/a.js#raw'', heldResult)] else mergePrecooked (exPrecooked (suExpansion heldLaunch))
        [(''s/a.js#raw'', heldResult)])) (Inr SnapshotHolds) heldFinal"
    using runMain.reported [OF held_guards _ held_launch held_runs _ _ held_saved, where interrupted = False and saved = None]
    by (simp add: heldEnd_def held_plan go_map_def)
  then show ?thesis by (simp add: heldLaunch_def smallExpansion_def mergePrecooked_def)
qed

section \<open>The properties\<close>

lemma report_covers:
  assumes "runMain w fs f (Some report) ended fs'" "ended \<noteq> Inr Interrupted"
    and "guards w fs f = Some (Inr (deny, workers))" "launchRun w f fs deny workers = Inr su"
    and "schedule (length (exKept (suExpansion su))) (woJobOrder w)"
  shows "go_map report \<and> fst ` set report =
    {jobID c mode | c mode. c \<in> set (exKept (suExpansion su)) \<and> mode \<in> set (modesOf (cMeta c))}"
proof -
  obtain t results where t: "runsTo w f su t" "\<not> ruAborted t" "go_map results" "map_of results = ruResults t"
      "report = mergePrecooked (exPrecooked (suExpansion su)) results"
    using reportedE [OF assms(1-4)] by metis
  have "fst ` set results = jID ` set (exJobs (suExpansion su))"
    using runsTo_keys [OF assms(4) t(1,2)] by (simp add: map_of_keys_dom t(4))
  from merged_keys [OF launchRun_fields(1) [OF assms(4)] assms(5) this] show ?thesis
    by (simp add: t(5) mergePrecooked_go_map [OF t(3)])
qed

text \<open>C1. No test is lost between the checkout and the report: unless it is interrupted, what the command
  reports is exactly one result for each mode of each case it found, selected and did not
  quarantine, whatever the workers, the caches and the schedules did.\<close>

theorem run_reports_every_case:
  assumes "runMain w fs f (Some report) ended fs'" "ended \<noteq> Inr Interrupted"
    and "guards w fs f = Some (Inr (deny, workers))" "launchRun w f fs deny workers = Inr su"
    and "schedule (length (exKept (suExpansion su))) (woJobOrder w)"
  shows "go_map report \<and> fst ` set report =
    {jobID c mode | c mode. c \<in> set (exKept (suExpansion su)) \<and> mode \<in> set (modesOf (cMeta c))}"
  using assms by (rule report_covers)

theorem run_reports_every_case_witness:
  "go_map [(''s/a.js#raw'', heldResult)] \<and> fst ` set [(''s/a.js#raw'', heldResult)] =
    {jobID c mode | c mode. c \<in> set (exKept (suExpansion heldLaunch)) \<and> mode \<in> set (modesOf (cMeta c))}"
  by (rule run_reports_every_case [OF held_report _ held_guards held_launch])
    (auto simp: schedule_def heldLaunch_def smallExpansion_def heldWorld_def)

lemma exit_status:
  assumes "runMain w fs f (Some report) ended fs'" "ended \<noteq> Inr Interrupted" "\<not> fUpdate f"
    and "guards w fs f = Some (Inr (deny, workers))" "launchRun w f fs deny workers = Inr su"
    and "LoadExpectations fs' (fExpPath f) = Inr snap"
  shows "runError f ended = None \<longleftrightarrow>
    (\<forall>(k, r) \<in> set report. rStatus r = (case snap k of None \<Rightarrow> ''pass'' | Some s \<Rightarrow> s))"
proof -
  obtain t results saved fs1 where r: "go_map results"
      "report = mergePrecooked (exPrecooked (suExpansion su)) results"
      "finishRun False saved f results (exPrecooked (suExpansion su)) fs1 = (ended, fs')"
    using reportedE [OF assms(1,2,4,5)] by metis
  have gm: "go_map report" by (simp add: r(2) mergePrecooked_go_map [OF r(1)])
  have same: "fs1 = fs'" using r(3) assms(3)
    by (auto simp: finishRun_def Let_def split: sum.splits prod.splits if_splits)
  obtain regs imps where d: "Diff report snap = (regs, imps)" by (cases "Diff report snap")
  have "ended = (if length regs + length imps > 0 then Inr (Drifted regs imps) else Inr SnapshotHolds)"
    using r(3) assms(3,6) by (auto simp: finishRun_def Let_def r(2) [symmetric] same d split: if_splits)
  then have "runError f ended = None \<longleftrightarrow> Diff report snap = ([], [])" by (auto simp: runError_def d)
  then show ?thesis by (simp only: changes_none_iff [OF gm])
qed

text \<open>C4. What the exit status of a comparing run says: there is no error exactly when every result reported has
  the status the snapshot records for it, or passes where the snapshot records none.\<close>

theorem exit_status_exact:
  assumes "runMain w fs f (Some report) ended fs'" "ended \<noteq> Inr Interrupted" "\<not> fUpdate f"
    and "guards w fs f = Some (Inr (deny, workers))" "launchRun w f fs deny workers = Inr su"
    and "LoadExpectations fs' (fExpPath f) = Inr snap"
  shows "runError f ended = None \<longleftrightarrow>
    (\<forall>(k, r) \<in> set report. rStatus r = (case snap k of None \<Rightarrow> ''pass'' | Some s \<Rightarrow> s))"
  using assms by (rule exit_status)

theorem exit_status_exact_witness:
  "runError heldFlags (Inr SnapshotHolds) = None \<longleftrightarrow>
    (\<forall>(k, r) \<in> set [(''s/a.js#raw'', heldResult)].
       rStatus r = (case Map.empty k of None \<Rightarrow> ''pass'' | Some s \<Rightarrow> s))"
  by (rule exit_status_exact [OF held_report _ _ held_guards held_launch held_snapshot])
    (simp_all add: heldFlags_def)

lemma run_ends:
  assumes "guards w fs f = Some g" "\<not> fLowerOnly f"
  shows "\<exists>report ended fs'. runMain w fs f report ended fs'"
proof (cases g)
  case (Inl e)
  with assms(1) show ?thesis by (blast intro: runMain.unguarded)
next
  case (Inr dw)
  obtain deny workers where g: "guards w fs f = Some (Inr (deny, workers))"
    using assms(1) Inr by (cases dw) simp
  show ?thesis
  proof (cases "launchRun w f fs deny workers")
    case (Inl e)
    from runMain.unprepared [OF g assms(2) this] show ?thesis by blast
  next
    case su: (Inr su)
    from RunAll_returns obtain t where t: "runsTo w f su t" unfolding runsTo_def by blast
    obtain st tst where s: "ruCache t = Some st" "ruTail t = Some tst" using runsTo_streams [OF t] by blast
    obtain results where r: "go_map results" "map_of results = ruResults t"
      using visit_exists [OF runsTo_finite [OF su t]] by blast
    obtain o1 o2 err fs1 where v: "saveCaches o1 o2 st tst = (err, fs1)" by fastforce
    obtain ended fs2 where e: "finishRun (ruAborted t) None f results (exPrecooked (suExpansion su)) fs1 = (ended, fs2)"
      by fastforce
    show ?thesis
    proof (cases err)
      case None
      from runMain.reported [OF g assms(2) su t s v [unfolded None] r _ e] show ?thesis by blast
    next
      case (Some x)
      from runMain.unsaved [OF g assms(2) su t s v [unfolded Some]] show ?thesis by blast
    qed
  qed
qed

lemma tail_path_nonempty: "joinPath [d, ''tail.ndjson''] \<noteq> []"
  by (simp add: joinPath_def cleanPath_def Let_def)

lemma launch_environ:
  assumes "launchRun w f fs deny workers = Inr su"
  obtains budget limit where "suEnviron su = setenv ''GOCACHE'' (hsGoCache (suHost su)) (woEnviron w)"
    "suMemory su = memEnv budget limit workers"
  using assms by (auto simp: launchRun_def split: sum.splits)

text \<open>C11. A worker runs with the run's own configuration, whatever the environment it inherits says: every process
  the launched run spawns starts with the run's module root, its run timeout (to the nanosecond, through
  its text), its tail cache and its runtime hash, and builds in the run's own build cache.\<close>

theorem workers_get_settings:
  assumes "launchRun w f fs deny workers = Inr su"
    and "spawnWorker sp (suEnviron su) (launchEnv f su) = Inr env"
    and "- (2 ^ 63) \<le> fRunTimeout f" "fRunTimeout f < 2 ^ 63"
    and "hsRoot (suHost su) \<noteq> []" "csHash (suCaches su) \<noteq> []"
    and "LoadCache unmarshalEntry disk (joinPath [fCacheDir f, ''tail.ndjson'']) = (tail, None)"
  shows "workerSettings disk (workerEnvOf env) =
      Inr \<lparr>stRoot = hsRoot (suHost su), stTimeout = fRunTimeout f, stTail = tail, stHash = csHash (suCaches su)\<rparr> \<and>
    getenv env ''GOCACHE'' = hsGoCache (suHost su)"
proof -
  obtain budget limit where e: "suEnviron su = setenv ''GOCACHE'' (hsGoCache (suHost su)) (woEnviron w)"
    "suMemory su = memEnv budget limit workers" using launch_environ [OF assms(1)] .
  note sp = assms(2) [unfolded launchEnv_def e(2)]
  have "getenv (rev (launchEnv f su) @ rev (suEnviron su)) ''GOCACHE'' = getenv (rev (suEnviron su)) ''GOCACHE''"
    by (simp add: launchEnv_def e(2) workerEnvList_def memEnv_def getenv_def named_def HasPrefix_def)
  then have "getenv env ''GOCACHE'' = hsGoCache (suHost su)"
    using spawned_getenv [OF assms(2), of "''GOCACHE''"] by (simp add: e(1) getenv_setenv worker_names)
  with spawned_settings [OF sp assms(3,4,5) tail_path_nonempty assms(6,7)] show ?thesis by simp
qed

definition plainSpawn :: spawnAnswers where
  "plainSpawn = \<lparr>spExecutable = None, spStdin = None, spStdout = None, spStart = None\<rparr>"

theorem workers_get_settings_witness:
  "\<exists>env. spawnWorker plainSpawn (suEnviron heldLaunch) (launchEnv heldFlags heldLaunch) = Inr env \<and>
     workerSettings [] (workerEnvOf env) =
       Inr \<lparr>stRoot = ''c/bento-v1.h000000000000'', stTimeout = fRunTimeout heldFlags,
            stTail = Some (emptyCache ''c/tail.ndjson''), stHash = zeros []\<rparr>"
proof -
  have tail: "joinPath [fCacheDir heldFlags, ''tail.ndjson''] = ''c/tail.ndjson''"
    by (simp add: heldFlags_def smallFlags_def) code_simp
  have held: "hsRoot (suHost heldLaunch) = ''c/bento-v1.h000000000000''" "csHash (suCaches heldLaunch) = zeros []"
    "fRunTimeout heldFlags = 9"
    by (simp_all add: heldLaunch_def heldPrepared_def heldCaches_def heldFlags_def smallFlags_def)
  have "formatDuration 9 = ''9ns''"
    by (simp add: formatDuration_def formatSmall_def fmtFrac_def itoa.simps [of 9] char_of_eq_iff take_bit_eq_mod)
  then have "list_all (\<lambda>kv. CHR 0x00 \<notin> set kv) (suEnviron heldLaunch @ launchEnv heldFlags heldLaunch)"
    by (simp add: launchEnv_def workerEnvList_def tail held) (simp add: heldLaunch_def zeros_def)
  then obtain env where env: "spawnWorker plainSpawn (suEnviron heldLaunch) (launchEnv heldFlags heldLaunch) = Inr env"
    by (simp add: spawnWorker_def plainSpawn_def list_ex_iff list_all_iff)
  have "LoadCache unmarshalEntry [] (joinPath [fCacheDir heldFlags, ''tail.ndjson'']) =
      (Some (emptyCache ''c/tail.ndjson''), None)" by (simp add: tail LoadCache_def readFile_def)
  from workers_get_settings [OF held_launch env _ _ _ _ this] env show ?thesis
    by (simp add: held) (simp add: zeros_def)
qed

end
