(* ===== verification/GoFlag.thy ===== *)
theory GoFlag
  imports DurationFacts
begin

text \<open>
  Go's \<open>flag\<close> package and the parsers of \<open>strconv\<close> behind it: one command line argument after another, until
  the first that is no flag. What is printed about a bad flag is left out; it ends the process.
\<close>

section \<open>Values\<close>

text \<open>\<open>strconv.ParseInt(s, 0, 64)\<close>: the base by prefix, underscores between digits, and the range.\<close>

definition parseUint0 :: "string \<Rightarrow> nat option" where
  "parseUint0 s =
     (if s = [] then None
      else
        let (b, ds) =
          (if hd s \<noteq> CHR ''0'' then (10, s)
           else if 3 \<le> length s \<and> basePrefix s \<noteq> None then (the (basePrefix s), drop 2 s)
           else (8, tl s))
        in case baseDigits b 0 ds of
             None \<Rightarrow> None
           | Some n \<Rightarrow>
               if 2 ^ 64 \<le> n \<or> (CHR ''_'' \<in> set ds \<and> \<not> underscoreOK s) then None else Some n)"

definition parseInt0 :: "string \<Rightarrow> int option" where
  "parseInt0 s =
     (let neg = HasPrefix s ''-''; t = (if HasPrefix s ''-'' \<or> HasPrefix s ''+'' then tl s else s) in
      case parseUint0 t of
        None \<Rightarrow> None
      | Some n \<Rightarrow>
          if neg then (if n > 2 ^ 63 then None else Some (- int n))
          else if n \<ge> 2 ^ 63 then None else Some (int n))"

definition ParseBool :: "string \<Rightarrow> bool option" where
  "ParseBool s =
     (if s \<in> set [''1'', ''t'', ''T'', ''TRUE'', ''true'', ''True''] then Some True
      else if s \<in> set [''0'', ''f'', ''F'', ''FALSE'', ''false'', ''False''] then Some False
      else None)"

section \<open>Arguments\<close>

text \<open>What parsing leaves: the values and the arguments after the flags, or the reason to exit.\<close>

datatype 'a parsed = Parsed 'a "string list" | Help | BadFlag

text \<open>One argument: a flag has a name and, after an equals sign past its first byte, a value.\<close>

datatype argument = NoFlag | Terminator | BadSyntax | Flag string "string option"

definition splitValue :: "string \<Rightarrow> string \<times> string option" where
  "splitValue name =
     (let rest = dropWhile (\<lambda>c. c \<noteq> CHR ''='') (tl name) in
      if rest = [] then (name, None)
      else (hd name # takeWhile (\<lambda>c. c \<noteq> CHR ''='') (tl name), Some (tl rest)))"

definition classify :: "string \<Rightarrow> argument" where
  "classify s =
     (if length s < 2 \<or> hd s \<noteq> CHR ''-'' then NoFlag
      else if s = ''--'' then Terminator
      else
        (let name = (if s ! 1 = CHR ''-'' then drop 2 s else tl s) in
         if name = [] \<or> hd name = CHR ''-'' \<or> hd name = CHR ''='' then BadSyntax
         else (case splitValue name of (n, v) \<Rightarrow> Flag n v)))"

text \<open>\<open>formal\<close> says which names are defined and whether they are boolean, \<open>assign\<close> sets one from text.\<close>

fun parseArgs ::
  "(string \<Rightarrow> bool option) \<Rightarrow> (string \<Rightarrow> string \<Rightarrow> 'a \<Rightarrow> 'a option) \<Rightarrow> 'a \<Rightarrow> string list \<Rightarrow> 'a parsed" where
  "parseArgs formal assign x [] = Parsed x []"
| "parseArgs formal assign x (s # args) =
     (case classify s of
        NoFlag \<Rightarrow> Parsed x (s # args)
      | Terminator \<Rightarrow> Parsed x args
      | BadSyntax \<Rightarrow> BadFlag
      | Flag n v \<Rightarrow>
          (case formal n of
             None \<Rightarrow> if n = ''help'' \<or> n = ''h'' then Help else BadFlag
           | Some True \<Rightarrow>
               (case assign n (case v of None \<Rightarrow> ''true'' | Some t \<Rightarrow> t) x of
                  None \<Rightarrow> BadFlag
                | Some y \<Rightarrow> parseArgs formal assign y args)
           | Some False \<Rightarrow>
               (case v of
                  Some t \<Rightarrow>
                    (case assign n t x of None \<Rightarrow> BadFlag | Some y \<Rightarrow> parseArgs formal assign y args)
                | None \<Rightarrow>
                    (case args of
                       [] \<Rightarrow> BadFlag
                     | t # args' \<Rightarrow>
                         (case assign n t x of None \<Rightarrow> BadFlag | Some y \<Rightarrow> parseArgs formal assign y args')))))"

section \<open>Facts\<close>

text \<open>What \<open>%d\<close> prints of an integer.\<close>

definition intText :: "int \<Rightarrow> string" where
  "intText n = (if n < 0 then CHR ''-'' # itoa (nat (- n)) else itoa (nat n))"

lemma itoa_lead: "0 < n \<Longrightarrow> hd (itoa n) \<noteq> CHR ''0''"
proof (induction n rule: itoa.induct)
  case (1 n)
  show ?case
  proof (cases "n < 10")
    case True
    with 1(2) show ?thesis by (auto simp: itoa.simps [of n] char_of_eq_iff take_bit_eq_mod)
  next
    case False
    then have "hd (itoa (n div 10)) \<noteq> CHR ''0''" using 1(1) by simp
    with False show ?thesis by (simp add: itoa.simps [of n])
  qed
qed

lemma digitVal_digitOf: "digitVal c = Some d \<Longrightarrow> digitOf c = Some d \<and> d < 10 \<and> c \<noteq> CHR ''_''"
  by (auto simp: digitVal_def digitOf_def less_eq_char_def Let_def split: if_splits)

lemma baseDigits_decimal: "decimal x ds = Some n \<Longrightarrow> baseDigits 10 x ds = Some n \<and> CHR ''_'' \<notin> set ds"
proof (induction ds arbitrary: x)
  case (Cons c ds)
  then obtain d where "digitVal c = Some d" "decimal (10 * x + d) ds = Some n" by (auto split: option.splits)
  with Cons.IH [of "10 * x + d"] digitVal_digitOf [of c d] show ?case by (auto simp: mult.commute)
qed simp

lemma parseUint0_itoa: "n < 2 ^ 64 \<Longrightarrow> parseUint0 (itoa n) = Some n"
proof (cases "n = 0")
  case True
  then show ?thesis by (simp add: itoa_0 parseUint0_def basePrefix_def)
next
  case False
  assume "n < 2 ^ 64"
  with False itoa_lead [of n] baseDigits_decimal [OF decimal_itoa [of n]] show ?thesis
    by (simp add: parseUint0_def)
qed

lemma parseInt0_intText:
  assumes "- (2 ^ 63) \<le> n" "n < 2 ^ 63"
  shows "parseInt0 (intText n) = Some n"
proof (cases "n < 0")
  case True
  then have "nat (- n) \<le> 2 ^ 63" "nat (- n) < 2 ^ 64" using assms by simp_all
  with True parseUint0_itoa [of "nat (- n)"] show ?thesis by (simp add: parseInt0_def intText_def HasPrefix_def)
next
  case False
  then have "nat n < 2 ^ 63" "nat n < 2 ^ 64" using assms by simp_all
  moreover obtain c cs where c: "itoa (nat n) = c # cs" by (cases "itoa (nat n)") simp_all
  with itoa_digits [of c "nat n"] have "c \<noteq> CHR ''-''" "c \<noteq> CHR ''+''" by (auto simp: digitVal_def)
  ultimately show ?thesis using False parseUint0_itoa [of "nat n"]
    by (simp add: parseInt0_def intText_def HasPrefix_def c)
qed

text \<open>An argument \<open>-name=value\<close>.\<close>

definition flagArg :: "string \<Rightarrow> string \<Rightarrow> string" where
  "flagArg n v = CHR ''-'' # n @ CHR ''='' # v"

definition flagName :: "string \<Rightarrow> bool" where
  "flagName n \<longleftrightarrow> n \<noteq> [] \<and> hd n \<noteq> CHR ''-'' \<and> CHR ''='' \<notin> set n"

lemma classify_flagArg: "flagName n \<Longrightarrow> classify (flagArg n v) = Flag n (Some v)"
proof (cases n)
  case (Cons c cs)
  assume n: "flagName n"
  then have c: "c \<noteq> CHR ''-''" "c \<noteq> CHR ''=''" "\<forall>x \<in> set cs. x \<noteq> CHR ''=''" by (auto simp: flagName_def Cons)
  have "dropWhile (\<lambda>c. c \<noteq> CHR ''='') (cs @ CHR ''='' # v) = CHR ''='' # v"
    "takeWhile (\<lambda>c. c \<noteq> CHR ''='') (cs @ CHR ''='' # v) = cs"
    using c(3) by (simp_all add: dropWhile_append takeWhile_append)
  with c show ?thesis by (simp add: classify_def flagArg_def Cons splitValue_def)
qed (simp add: flagName_def)

lemma parseArgs_flagArg:
  "flagName n \<Longrightarrow> formal n \<noteq> None \<Longrightarrow> assign n v x = Some y \<Longrightarrow>
   parseArgs formal assign x (flagArg n v # args) = parseArgs formal assign y args"
  by (auto simp: classify_flagArg split: bool.split)

end
