(* ===== verification/Flags.thy ===== *)
theory Flags
  imports CommandFacts GoFlag
begin

text \<open>
  The command line of \<open>cmd/bento262/main.go\<close>: the two flag sets with their defaults, \<open>main\<close> as a whole from
  the arguments to the exit status, and what an invocation means.
\<close>

section \<open>The flags of a run\<close>

definition runFlagNames :: "(string \<times> bool) list" where
  "runFlagNames =
     [(''root'', False), (''ports'', False), (''filter'', False), (''grep'', False), (''limit'', False),
      (''expectations'', False), (''cache'', False), (''jobs'', False), (''run-timeout'', False),
      (''job-timeout'', False), (''update'', True), (''v'', True), (''lower-only'', True),
      (''min-free-disk-mb'', False), (''go-cache-max-mb'', False), (''worker-max-jobs'', False),
      (''denylist'', False), (''stuck-after'', False)]"

text \<open>The defaults, on a machine of \<open>cpus\<close> processors; durations are nanoseconds.\<close>

definition runDefaults :: "int \<Rightarrow> flags" where
  "runDefaults cpus =
     \<lparr>fRoot = ''test262'', fPorts = ''harness'', fFilters = ''test/language,test/built-ins,test/harness'',
      fGrep = [], fLimit = 0, fExpPath = ''expectations/statuses.txt'', fCacheDir = ''.cache'',
      fWorkers = max 4 (cpus - 2), fUpdate = False, fLowerOnly = False, fMinFreeMB = 20480,
      fGoCacheMaxMB = -1, fWorkerMaxJobs = 200, fDenyPath = ''expectations/denylist.txt'',
      fRunTimeout = 10 * 1000000000, fJobTimeout = 3 * 60000000000, fStuckAfter = 90 * 1000000000,
      fVerbose = False\<rparr>"

definition durationFlag :: "string \<Rightarrow> int option" where
  "durationFlag t = (case ParseDuration t of Inl e \<Rightarrow> None | Inr d \<Rightarrow> Some d)"

definition runAssign :: "string \<Rightarrow> string \<Rightarrow> flags \<Rightarrow> flags option" where
  "runAssign n t f =
     (if n = ''root'' then Some (f\<lparr>fRoot := t\<rparr>)
      else if n = ''ports'' then Some (f\<lparr>fPorts := t\<rparr>)
      else if n = ''filter'' then Some (f\<lparr>fFilters := t\<rparr>)
      else if n = ''grep'' then Some (f\<lparr>fGrep := t\<rparr>)
      else if n = ''limit'' then map_option (\<lambda>i. f\<lparr>fLimit := i\<rparr>) (parseInt0 t)
      else if n = ''expectations'' then Some (f\<lparr>fExpPath := t\<rparr>)
      else if n = ''cache'' then Some (f\<lparr>fCacheDir := t\<rparr>)
      else if n = ''jobs'' then map_option (\<lambda>i. f\<lparr>fWorkers := i\<rparr>) (parseInt0 t)
      else if n = ''run-timeout'' then map_option (\<lambda>d. f\<lparr>fRunTimeout := d\<rparr>) (durationFlag t)
      else if n = ''job-timeout'' then map_option (\<lambda>d. f\<lparr>fJobTimeout := d\<rparr>) (durationFlag t)
      else if n = ''update'' then map_option (\<lambda>b. f\<lparr>fUpdate := b\<rparr>) (ParseBool t)
      else if n = ''v'' then map_option (\<lambda>b. f\<lparr>fVerbose := b\<rparr>) (ParseBool t)
      else if n = ''lower-only'' then map_option (\<lambda>b. f\<lparr>fLowerOnly := b\<rparr>) (ParseBool t)
      else if n = ''min-free-disk-mb'' then map_option (\<lambda>i. f\<lparr>fMinFreeMB := word_of_int i\<rparr>) (parseInt0 t)
      else if n = ''go-cache-max-mb'' then map_option (\<lambda>i. f\<lparr>fGoCacheMaxMB := word_of_int i\<rparr>) (parseInt0 t)
      else if n = ''worker-max-jobs'' then map_option (\<lambda>i. f\<lparr>fWorkerMaxJobs := i\<rparr>) (parseInt0 t)
      else if n = ''denylist'' then Some (f\<lparr>fDenyPath := t\<rparr>)
      else map_option (\<lambda>d. f\<lparr>fStuckAfter := d\<rparr>) (durationFlag t))"

definition parseRun :: "int \<Rightarrow> string list \<Rightarrow> flags parsed" where
  "parseRun cpus args = parseArgs (map_of runFlagNames) runAssign (runDefaults cpus) args"

section \<open>The flags of the audit\<close>

record auditFlags =
  ifRoot :: string
  ifPorts :: string
  ifFilters :: string

definition auditDefaults :: auditFlags where
  "auditDefaults =
     \<lparr>ifRoot = ''test262'', ifPorts = ''harness'', ifFilters = ''test/language,test/built-ins,test/harness''\<rparr>"

definition auditAssign :: "string \<Rightarrow> string \<Rightarrow> auditFlags \<Rightarrow> auditFlags option" where
  "auditAssign n t f =
     Some (if n = ''root'' then f\<lparr>ifRoot := t\<rparr> else if n = ''ports'' then f\<lparr>ifPorts := t\<rparr> else f\<lparr>ifFilters := t\<rparr>)"

definition parseAudit :: "string list \<Rightarrow> auditFlags parsed" where
  "parseAudit args =
     parseArgs (map_of [(''root'', False), (''ports'', False), (''filter'', False)]) auditAssign auditDefaults args"

section \<open>The program\<close>

text \<open>
  From the arguments to what the invocation came to: a run that ended, with what it reported and how it
  ended, or anything else; the exit status; and the files left. A panic (of the cap's division, or of the
  compiler in a lower-only pass) ends the process with status 2, as the Go runtime does.
\<close>

datatype shown = NoRun | Ran "results option" "goerror + outcome"

inductive program :: "int \<Rightarrow> world \<Rightarrow> filesystem \<Rightarrow> string list \<Rightarrow> shown \<Rightarrow> nat \<Rightarrow> filesystem \<Rightarrow> bool"
  for cpus w fs args where
  usage: "dispatch args = CmdUsage \<Longrightarrow> program cpus w fs args NoRun (exitCode CmdUsage None) fs"
| worker: "dispatch args = CmdWorker \<Longrightarrow>
    WorkerMain (woSha w) bad emit wd fs we input = (limit, rs, err) \<Longrightarrow>
    program cpus w fs args NoRun (exitCode CmdWorker err) fs"
| audit_help: "dispatch args = CmdIncludes rest \<Longrightarrow> parseAudit rest = Help \<Longrightarrow> program cpus w fs args NoRun 0 fs"
| audit_bad: "dispatch args = CmdIncludes rest \<Longrightarrow> parseAudit rest = BadFlag \<Longrightarrow> program cpus w fs args NoRun 2 fs"
| audit_fails: "dispatch args = CmdIncludes rest \<Longrightarrow> parseAudit rest = Parsed i left \<Longrightarrow>
    includesMain (woCaseOrder w) keys (woYaml w) fs (ifRoot i) (ifPorts i) (ifFilters i) = Inl e \<Longrightarrow>
    program cpus w fs args NoRun (exitCode (CmdIncludes rest) (Some e)) fs"
| audited: "dispatch args = CmdIncludes rest \<Longrightarrow> parseAudit rest = Parsed i left \<Longrightarrow>
    includesMain (woCaseOrder w) keys (woYaml w) fs (ifRoot i) (ifPorts i) (ifFilters i) = Inr rep \<Longrightarrow>
    program cpus w fs args NoRun (exitCode (CmdIncludes rest) None) fs"
| run_help: "dispatch args = CmdRun rest \<Longrightarrow> parseRun cpus rest = Help \<Longrightarrow> program cpus w fs args NoRun 0 fs"
| run_bad: "dispatch args = CmdRun rest \<Longrightarrow> parseRun cpus rest = BadFlag \<Longrightarrow> program cpus w fs args NoRun 2 fs"
| cap_panics: "dispatch args = CmdRun rest \<Longrightarrow> parseRun cpus rest = Parsed f left \<Longrightarrow> guards w fs f = None \<Longrightarrow>
    program cpus w fs args NoRun 2 fs"
| lower_panics: "dispatch args = CmdRun rest \<Longrightarrow> parseRun cpus rest = Parsed f left \<Longrightarrow>
    guards w fs f = Some (Inr (deny, workers)) \<Longrightarrow> fLowerOnly f \<Longrightarrow>
    lowerMain (woCaseOrder w) (woJobOrder w) (woLowerOrder w) (woYaml w) fs (woCompiler w) f deny = Inr None \<Longrightarrow>
    program cpus w fs args NoRun 2 fs"
| ran: "dispatch args = CmdRun rest \<Longrightarrow> parseRun cpus rest = Parsed f left \<Longrightarrow>
    runMain w fs f report ended fs' \<Longrightarrow>
    program cpus w fs args (Ran report ended) (exitCode (CmdRun rest) (runError f ended)) fs'"

section \<open>Facts about the flags\<close>

definition boolText :: "bool \<Rightarrow> string" where
  "boolText b = (if b then ''true'' else ''false'')"

lemma ParseBool_boolText: "ParseBool (boolText b) = Some b"
  by (simp add: ParseBool_def boolText_def)

definition duration64 :: "int \<Rightarrow> bool" where
  "duration64 d \<longleftrightarrow> - (2 ^ 63) \<le> d \<and> d < 2 ^ 63"

lemma parseInt0_intText64: "duration64 i \<Longrightarrow> parseInt0 (intText i) = Some i"
  by (simp add: duration64_def parseInt0_intText)

lemma durationFlag_format: "duration64 d \<Longrightarrow> durationFlag (formatDuration d) = Some d"
  by (simp add: duration64_def durationFlag_def durations_return)

lemma duration64_sint: "duration64 (sint (w :: 64 word))"
  using sint_greater_eq [of w] sint_less [of w] by (simp add: duration64_def)

text \<open>The arguments that say a configuration in full.\<close>

definition runArgs :: "flags \<Rightarrow> string list" where
  "runArgs f =
     [flagArg ''root'' (fRoot f), flagArg ''ports'' (fPorts f), flagArg ''filter'' (fFilters f),
      flagArg ''grep'' (fGrep f), flagArg ''limit'' (intText (fLimit f)), flagArg ''expectations'' (fExpPath f),
      flagArg ''cache'' (fCacheDir f), flagArg ''jobs'' (intText (fWorkers f)),
      flagArg ''run-timeout'' (formatDuration (fRunTimeout f)),
      flagArg ''job-timeout'' (formatDuration (fJobTimeout f)), flagArg ''update'' (boolText (fUpdate f)),
      flagArg ''v'' (boolText (fVerbose f)), flagArg ''lower-only'' (boolText (fLowerOnly f)),
      flagArg ''min-free-disk-mb'' (intText (sint (fMinFreeMB f))),
      flagArg ''go-cache-max-mb'' (intText (sint (fGoCacheMaxMB f))),
      flagArg ''worker-max-jobs'' (intText (fWorkerMaxJobs f)), flagArg ''denylist'' (fDenyPath f),
      flagArg ''stuck-after'' (formatDuration (fStuckAfter f))]"

definition flagsInRange :: "flags \<Rightarrow> bool" where
  "flagsInRange f \<longleftrightarrow> list_all duration64 [fLimit f, fWorkers f, fWorkerMaxJobs f, fRunTimeout f, fJobTimeout f, fStuckAfter f]"

lemma runFlag:
  assumes "n \<in> fst ` set runFlagNames" and "runAssign n v x = Some y"
  shows "parseArgs (map_of runFlagNames) runAssign x (flagArg n v # args) =
    parseArgs (map_of runFlagNames) runAssign y args"
proof (rule parseArgs_flagArg)
  show "runAssign n v x = Some y" by (rule assms(2))
  show "flagName n" using assms(1) unfolding runFlagNames_def by (auto simp: flagName_def)
  show "map_of runFlagNames n \<noteq> None" using assms(1) by (simp add: map_of_eq_None_iff)
qed

lemma run_names:
  "fst ` set runFlagNames =
     {''root'', ''ports'', ''filter'', ''grep'', ''limit'', ''expectations'', ''cache'', ''jobs'', ''run-timeout'',
      ''job-timeout'', ''update'', ''v'', ''lower-only'', ''min-free-disk-mb'', ''go-cache-max-mb'',
      ''worker-max-jobs'', ''denylist'', ''stuck-after''}"
  by (simp add: runFlagNames_def)

lemma parse_runArgs:
  assumes "flagsInRange f"
  shows "parseArgs (map_of runFlagNames) runAssign x (runArgs f @ args) =
    parseArgs (map_of runFlagNames) runAssign f args"
proof -
  have r: "duration64 (fLimit f)" "duration64 (fWorkers f)" "duration64 (fWorkerMaxJobs f)"
    "duration64 (fRunTimeout f)" "duration64 (fJobTimeout f)" "duration64 (fStuckAfter f)"
    using assms by (simp_all add: flagsInRange_def)
  show ?thesis
    unfolding runArgs_def append_Cons append_Nil
    apply (subst runFlag, simp add: run_names, simp add: runAssign_def parseInt0_intText64 r durationFlag_format
        ParseBool_boolText duration64_sint)+
    by (cases f; cases x) simp
qed

lemma settled:
  assumes "runMain w fs f report ended fs'" "\<not> fLowerOnly f" "\<not> fUpdate f"
    and "runError f ended = None" "ended \<noteq> Inr Interrupted"
  obtains deny workers su rep snap where "guards w fs f = Some (Inr (deny, workers))"
    "launchRun w f fs deny workers = Inr su" "report = Some rep" "LoadExpectations fs' (fExpPath f) = Inr snap"
  using assms(1)
proof (cases rule: runMain.cases)
  case (reported deny workers su t st tst o1 o2 fs1 results interrupted saved)
  moreover obtain snap where "LoadExpectations fs' (fExpPath f) = Inr snap"
    using reported(12) assms(3-5)
    by (auto simp: finishRun_def runError_def Let_def split: if_splits sum.splits prod.splits)
  ultimately show thesis by (intro that) auto
qed (use assms in \<open>auto simp: runError_def\<close>)

lemma exit_small: "exitCode c err \<le> 2"
  by (simp add: exitCode_def split: command.split)

section \<open>The properties\<close>

text \<open>C27. What the arguments say is what the run is given: every configuration can be written on the command line
  and is read back as it is, booleans, 64-bit integers and durations included; and the first argument that
  is no flag ends the reading, whatever follows it.\<close>

theorem flags_roundtrip:
  assumes "flagsInRange f" "rest = [] \<or> classify (hd rest) = NoFlag"
  shows "parseRun cpus (runArgs f @ rest) = Parsed f rest"
proof -
  have "parseRun cpus (runArgs f @ rest) = parseArgs (map_of runFlagNames) runAssign f rest"
    using assms(1) by (simp only: parseRun_def parse_runArgs)
  also have "\<dots> = Parsed f rest" using assms(2) by (cases rest) simp_all
  finally show ?thesis .
qed

lemma held_in_range: "flagsInRange heldFlags"
  by (simp add: flagsInRange_def heldFlags_def smallFlags_def duration64_def)

theorem flags_roundtrip_witness:
  "parseRun 8 (runArgs heldFlags @ [''false'', ''-v'']) = Parsed heldFlags [''false'', ''-v'']"
  by (rule flags_roundtrip [OF held_in_range]) (simp add: classify_def)

text \<open>Exit status 2 means that nothing was done: the usage, a bad flag or a panic before the run; every file is
  as it was.\<close>

theorem exit_two_untouched:
  assumes "program cpus w fs args out 2 fs'"
  shows "fs' = fs \<and> out = NoRun"
  using assms by (cases rule: program.cases) (auto simp: exitCode_def split: if_splits)

theorem exit_two_untouched_witness:
  "\<exists>out fs'. program 8 heldWorld heldDisk [''run'', ''-no-such-flag''] out 2 fs' \<and> fs' = heldDisk \<and> out = NoRun"
proof -
  have "program 8 heldWorld heldDisk [''run'', ''-no-such-flag''] NoRun 2 heldDisk"
    by (rule program.run_bad [where rest = "[''-no-such-flag'']"])
      (simp_all add: dispatch_def parseRun_def runFlagNames_def classify_def splitValue_def)
  from exit_two_untouched [OF this] this show ?thesis by blast
qed

text \<open>A report that stands for the whole suite, and agrees with the snapshot.\<close>

definition vouched :: "world \<Rightarrow> filesystem \<Rightarrow> flags \<Rightarrow> results \<Rightarrow> filesystem \<Rightarrow> bool" where
  "vouched w fs f rep fs' \<longleftrightarrow>
     (\<exists>deny workers su snap.
        guards w fs f = Some (Inr (deny, workers)) \<and> launchRun w f fs deny workers = Inr su \<and>
        LoadExpectations fs' (fExpPath f) = Inr snap \<and> go_map rep \<and>
        fst ` set rep =
          {jobID c mode | c mode. c \<in> set (exKept (suExpansion su)) \<and> mode \<in> set (modesOf (cMeta c))} \<and>
        (\<forall>(k, r) \<in> set rep. rStatus r = (case snap k of None \<Rightarrow> ''pass'' | Some s \<Rightarrow> s)))"

text \<open>C2. A green run vouches for every test, and only a green one does: when a comparing run ended, and not as an
  interrupted one, its exit status is 0 exactly when it reported one result for each mode of each case it
  found, selected and did not quarantine, and each has the status the snapshot records for it, or passes
  where the snapshot records none; otherwise the status is 1. (What it reported and how it ended are those
  of this very invocation. The jobs are expanded in some order of the cases.)\<close>

theorem green_run:
  assumes "program cpus w fs (''run'' # args) (Ran report ended) code fs'" "parseRun cpus args = Parsed f rest"
    and "\<not> fLowerOnly f" "\<not> fUpdate f" "ended \<noteq> Inr Interrupted"
    and "\<And>deny workers su. guards w fs f = Some (Inr (deny, workers)) \<Longrightarrow>
      launchRun w f fs deny workers = Inr su \<Longrightarrow> schedule (length (exKept (suExpansion su))) (woJobOrder w)"
  shows "code = (if \<exists>rep. report = Some rep \<and> vouched w fs f rep fs' then 0 else 1)"
proof -
  have r: "runMain w fs f report ended fs'" "code = (if runError f ended = None then 0 else 1)"
    using assms(1) by (cases rule: program.cases; auto simp: dispatch_def exitCode_def assms(2))+
  have "runError f ended = None \<longleftrightarrow> (\<exists>rep. report = Some rep \<and> vouched w fs f rep fs')"
  proof
    assume none: "runError f ended = None"
    obtain deny workers su rep snap where s: "guards w fs f = Some (Inr (deny, workers))"
      "launchRun w f fs deny workers = Inr su" "report = Some rep" "LoadExpectations fs' (fExpPath f) = Inr snap"
      by (rule settled [OF r(1) assms(3,4) none assms(5)])
    note run = r(1) [unfolded s(3)]
    note covers = report_covers [OF run assms(5) s(1,2) assms(6) [OF s(1,2)]]
    have "\<forall>(k, r) \<in> set rep. rStatus r = (case snap k of None \<Rightarrow> ''pass'' | Some s \<Rightarrow> s)"
      using exit_status [OF run assms(5,4) s(1,2,4)] none by (rule iffD1)
    with covers have "vouched w fs f rep fs'" unfolding vouched_def using s(1,2,4) by (intro exI conjI) simp_all
    with s(3) show "\<exists>rep. report = Some rep \<and> vouched w fs f rep fs'" by blast
  next
    assume "\<exists>rep. report = Some rep \<and> vouched w fs f rep fs'"
    then obtain rep where rep: "report = Some rep" and v: "vouched w fs f rep fs'" by blast
    from v obtain deny workers su snap where s: "guards w fs f = Some (Inr (deny, workers))" "launchRun w f fs deny workers = Inr su"
        "LoadExpectations fs' (fExpPath f) = Inr snap"
      and agree: "\<forall>(k, r) \<in> set rep. rStatus r = (case snap k of None \<Rightarrow> ''pass'' | Some s \<Rightarrow> s)"
      unfolding vouched_def by (elim exE conjE) (rule that)
    show "runError f ended = None"
      using exit_status [OF r(1) [unfolded rep] assms(5,4) s] agree by (rule iffD2)
  qed
  with r(2) show ?thesis by simp
qed

theorem green_run_witness: "\<exists>rep. vouched heldWorld bentoDisk heldFlags rep heldFinal"
proof -
  have parse: "parseRun 8 (runArgs heldFlags) = Parsed heldFlags []"
    using parse_runArgs [OF held_in_range, of "runDefaults 8" "[]"] by (simp add: parseRun_def)
  have d: "dispatch (''run'' # runArgs heldFlags) = CmdRun (runArgs heldFlags)" by (simp add: dispatch_def)
  note p = program.ran [OF d parse held_report]
  have "exitCode (CmdRun (runArgs heldFlags)) (runError heldFlags (Inr SnapshotHolds)) =
     (if \<exists>rep. Some [(''s/a.js#raw'', heldResult)] = Some rep \<and> vouched heldWorld bentoDisk heldFlags rep heldFinal then 0 else 1)"
  proof (rule green_run [OF p parse])
    show "\<not> fLowerOnly heldFlags" "\<not> fUpdate heldFlags" by (simp_all add: heldFlags_def smallFlags_def)
    fix deny workers su
    assume "guards heldWorld bentoDisk heldFlags = Some (Inr (deny, workers))"
      and "launchRun heldWorld heldFlags bentoDisk deny workers = Inr su"
    then have "su = heldLaunch" by (simp add: held_guards held_launch)
    then show "schedule (length (exKept (suExpansion su))) (woJobOrder heldWorld)"
      by (auto simp: schedule_def heldLaunch_def smallExpansion_def heldWorld_def)
  qed simp
  then have "vouched heldWorld bentoDisk heldFlags [(''s/a.js#raw'', heldResult)] heldFinal"
    by (simp add: exitCode_def runError_def split: if_splits)
  then show ?thesis by blast
qed

end
