(* ===== verification/Report.thy ===== *)
theory Report
  imports RunnerFacts
begin

text \<open>
  What the command prints, byte by byte, with \<open>fmt\<close>'s verbs for widths and fixed-point numbers: the
  summary (\<open>expect.go\<close>), the drift and the last line of a run (\<open>main.go\<close>), the audit, and the reason for a
  reduced pool (\<open>sysinfo.go\<close>).
\<close>

section \<open>Verbs\<close>

text \<open>\<open>%-*s\<close> counts runes.\<close>

definition padRight :: "nat \<Rightarrow> string \<Rightarrow> string" where
  "padRight width s = s @ replicate (width - runeCount s) SP"

text \<open>\<open>%.*f\<close> of a float64 that is not negative: its exact value, rounded half to even.\<close>

definition fixedText :: "nat \<Rightarrow> rat \<Rightarrow> string" where
  "fixedText prec x =
     (let n = nat (roundEven (x * 10 ^ prec)); fr = itoa (n mod 10 ^ prec) in
      itoa (n div 10 ^ prec) @
      (if prec = 0 then [] else ''.'' @ replicate (prec - length fr) (CHR ''0'') @ fr))"

section \<open>Sizes\<close>

definition humanText :: "human option \<Rightarrow> string" where
  "humanText h =
     (case h of
        None \<Rightarrow> []
      | Some (Plain b) \<Rightarrow> itoa (unat b) @ ''B''
      | Some (Scaled b dv u) \<Rightarrow> fixedText 1 (fl64 (float64 b / float64 dv)) @ [u] @ ''B'')"

text \<open>The reason \<open>CapWorkers\<close> gives when it reduces the pool to \<open>safe\<close> workers.\<close>

definition capReason :: "64 word \<Rightarrow> rat \<Rightarrow> 64 word \<Rightarrow> int \<Rightarrow> int \<Rightarrow> string" where
  "capReason tot f per requested safe =
     ''capping workers '' @ itoa (nat requested) @ '' -> '' @ itoa (nat safe) @ '' to fit ~'' @
     humanText (humanBytes per) @ '' per worker in '' @ fixedText 0 (fl64 (f * 100)) @ ''% of '' @
     humanText (humanBytes tot) @
     '' RAM (override with BENTO262_MEM_PER_WORKER_MB / BENTO262_MEM_FRACTION)''"

section \<open>The summary\<close>

text \<open>\<open>100*float64(t.pass)/float64(n)\<close>, each step rounded.\<close>

definition passPercent :: "nat \<Rightarrow> nat \<Rightarrow> rat" where
  "passPercent p n = fl64 (fl64 (100 * fl64 (of_nat p)) / fl64 (of_nat n))"

definition tallyLine :: "string \<times> tallyCount \<Rightarrow> string" where
  "tallyLine = (\<lambda>(name, t).
     padRight 55 name @ [SP] @ padLeft 6 (itoa (nPass t)) @ '' pass / '' @ padLeft 6 (itoa (tallyRun t)) @
     '' run  ('' @ padLeft 5 (fixedText 1 (passPercent (nPass t) (tallyRun t))) @ ''%)  handback '' @
     itoa (nHandback t) @ '' fail '' @ itoa (nFail t) @ '' crash '' @ itoa (nCrash t) @ '' timeout '' @
     itoa (nTimeout t) @ [NL])"

definition summaryText :: "string list \<Rightarrow> results \<Rightarrow> string" where
  "summaryText names results = concat (map tallyLine (Summarize names results))"

section \<open>The end of a run\<close>

definition changeLine :: "change \<Rightarrow> string" where
  "changeLine c = ''   '' @ chID c @ '': '' @ chWant c @ '' -> '' @ chGot c @ [NL]"

definition resultError :: "results \<Rightarrow> string \<Rightarrow> string" where
  "resultError results k = (case map_of results k of None \<Rightarrow> [] | Some r \<Rightarrow> rError r)"

definition driftText :: "bool \<Rightarrow> results \<Rightarrow> change list \<Rightarrow> change list \<Rightarrow> string" where
  "driftText verbose results regressions improvements =
     (if improvements = [] then []
      else [NL] @ itoa (length improvements) @ '' improved (rerun with -update to record):'' @ [NL] @
        concat (map changeLine improvements)) @
     (if regressions = [] then []
      else [NL] @ itoa (length regressions) @ '' moved the wrong way:'' @ [NL] @
        concat (map (\<lambda>c. changeLine c @
          (if verbose then ''     '' @ resultError results (chID c) @ [NL] else [])) regressions))"

text \<open>From the interrupt check on; \<open>report\<close> is what \<open>runMain\<close> reports. The first three arguments are the orders
  in which the areas and the reasons are visited.\<close>

definition endText ::
  "string list \<Rightarrow> string list \<Rightarrow> string list \<Rightarrow> flags \<Rightarrow> results \<Rightarrow> goerror + outcome \<Rightarrow> string" where
  "endText names handbacks fails f report ended =
     summaryText names report @
     (if ended = Inr Interrupted
      then [NL] @ ''interrupted: partial results saved to the cache, rerun the same command to resume'' @ [NL]
      else
        reasonTables handbacks fails report @
        (case ended of
           Inr (Drifted regressions improvements) \<Rightarrow> driftText (fVerbose f) report regressions improvements
         | Inr SnapshotHolds \<Rightarrow> [NL] @ ''snapshot holds'' @ [NL]
         | _ \<Rightarrow> []))"

section \<open>The audit\<close>

definition statLine :: "includeStat \<Rightarrow> string" where
  "statLine s =
     ''  '' @ padRight 24 (isName s) @ [SP] @ padLeft 7 (itoa (isJobs s)) @ '' jobs  '' @
     padLeft 6 (itoa (isFiles s)) @ '' files'' @ [NL]"

definition includesText :: "string \<Rightarrow> includeReport \<times> nat \<times> nat \<times> nat \<Rightarrow> string" where
  "includesText ports = (\<lambda>(rep, n, jobs, files).
     ''unported harness includes (referenced, no '' @ ports @ ''/*.ts port), by job reach:'' @ [NL] @
     (if repUnported rep = [] then ''  (none: every referenced include has a port)'' @ [NL] else []) @
     concat (map statLine (repUnported rep)) @
     ''  total: '' @ itoa n @ '' unported includes gate '' @ itoa jobs @ '' jobs across '' @ itoa files @
     '' files'' @ [NL] @ [NL] @
     ''ported harness includes ('' @ itoa (length (repPorted rep)) @ ''), by job reach:'' @ [NL] @
     concat (map statLine (repPorted rep)))"

section \<open>Reading a line back\<close>

text \<open>The fields between spaces.\<close>

definition words :: "string \<Rightarrow> string list" where
  "words s = filter (\<lambda>w. w \<noteq> []) (splitOn SP s)"

definition readTally :: "string \<Rightarrow> (string \<times> tallyCount) option" where
  "readTally line =
     (let ws = words line in
      case (ws, rev ws) of
        (name # p # _, t # _ # c # _ # f # _ # h # _) \<Rightarrow>
          (case (decimal 0 p, decimal 0 h, decimal 0 f, decimal 0 c, decimal 0 t) of
             (Some p, Some h, Some f, Some c, Some t) \<Rightarrow>
               Some (name, \<lparr>nPass = p, nFail = f, nHandback = h, nCrash = c, nTimeout = t\<rparr>)
           | _ \<Rightarrow> None)
      | _ \<Rightarrow> None)"

lemma splitOn_snoc: "splitOn c (a @ c # b) = splitOn c a @ splitOn c b"
  by (induction a) (auto split: list.splits)

lemma words_split: "words (a @ SP # b) = words a @ words b"
  by (simp add: words_def splitOn_snoc)

lemma words_one: "SP \<notin> set w \<Longrightarrow> w \<noteq> [] \<Longrightarrow> words w = [w]"
  by (simp add: words_def splitOn_absent)

lemma words_Nil [simp]: "words [] = []"
  by (simp add: words_def)

lemma words_lead [simp]: "words (SP # b) = words b"
  using words_split [of "[]" b] by simp

lemma words_blanks [simp]: "words (replicate n SP @ b) = words b"
  by (induction n) simp_all

lemma words_trail: "words (a @ replicate n SP) = words a"
proof (induction n)
  case (Suc n)
  have "a @ replicate (Suc n) SP = a @ SP # replicate n SP" by simp
  then show ?case using words_split [of a "replicate n SP"] words_blanks [of n "[]"] by simp
qed simp

lemma words_padLeft: "words (padLeft w s) = words s"
  by (simp add: padLeft_def)

lemma words_padRight: "words (padRight w s) = words s"
  by (simp add: padRight_def words_trail)

lemma words_itoa: "words (itoa n) = [itoa n]"
proof -
  have "SP \<notin> set (itoa n)" using itoa_digits [of SP n] by (auto simp: digitVal_def less_eq_char_def)
  then show ?thesis by (simp add: words_one)
qed

lemmas words_pieces = words_split words_lead words_padLeft words_padRight words_itoa

lemma words_tally:
  assumes "SP \<notin> set name" "name \<noteq> []"
  shows "\<exists>ws. words (butlast (tallyLine (name, t))) =
    [name, itoa (nPass t), ''pass'', ''/'', itoa (tallyRun t), ''run''] @ ws @
    [''handback'', itoa (nHandback t), ''fail'', itoa (nFail t), ''crash'', itoa (nCrash t), ''timeout'', itoa (nTimeout t)]"
proof -
  let ?pc = "fixedText 1 (passPercent (nPass t) (tallyRun t))"
  have line: "butlast (tallyLine (name, t)) =
      padRight 55 name @ SP # padLeft 6 (itoa (nPass t)) @ SP # ''pass'' @ SP # ''/'' @ SP #
      padLeft 6 (itoa (tallyRun t)) @ SP # ''run'' @ SP # SP # (''('' @ padLeft 5 ?pc @ ''%)'') @ SP # SP #
      ''handback'' @ SP # itoa (nHandback t) @ SP # ''fail'' @ SP # itoa (nFail t) @ SP # ''crash'' @ SP #
      itoa (nCrash t) @ SP # ''timeout'' @ SP # itoa (nTimeout t)"
    by (simp add: tallyLine_def butlast_append)
  have lit: "words ''pass'' = [''pass'']" "words ''/'' = [''/'']" "words ''run'' = [''run'']"
    "words ''handback'' = [''handback'']" "words ''fail'' = [''fail'']" "words ''crash'' = [''crash'']"
    "words ''timeout'' = [''timeout'']" by (simp_all add: words_one)
  show ?thesis
    unfolding line words_pieces lit words_one [OF assms]
    by (rule exI [of _ "words (''('' @ padLeft 5 ?pc @ ''%)'')"]) simp
qed

section \<open>The properties\<close>

text \<open>A line of the summary says all there is to say: the area and each of its five counts can be read back from
  it, wherever the padding and the percentage put them.\<close>

theorem summary_line_reads_back:
  assumes "SP \<notin> set name" "name \<noteq> []"
  shows "readTally (butlast (tallyLine (name, t))) = Some (name, t)"
proof -
  obtain ws where "words (butlast (tallyLine (name, t))) =
      [name, itoa (nPass t), ''pass'', ''/'', itoa (tallyRun t), ''run''] @ ws @
      [''handback'', itoa (nHandback t), ''fail'', itoa (nFail t), ''crash'', itoa (nCrash t), ''timeout'', itoa (nTimeout t)]"
    using words_tally [OF assms] by blast
  then show ?thesis by (simp add: readTally_def decimal_itoa)
qed

definition areaTally1 :: tallyCount where
  "areaTally1 = \<lparr>nPass = 2999, nFail = 1, nHandback = 0, nCrash = 0, nTimeout = 0\<rparr>"

theorem summary_line_reads_back_witness:
  "readTally (butlast (tallyLine (''test/language/expressions'', areaTally1))) =
     Some (''test/language/expressions'', areaTally1)"
  by (rule summary_line_reads_back) simp_all

text \<open>The percentage is rounded: an area can read as a hundred percent with a job that does not pass.\<close>

theorem rounded_to_hundred: "fixedText 1 (passPercent 2999 3000) = ''100.0''"
proof -
  have "fl64 (of_nat n) = of_nat n" if "n < 2 ^ 53" for n :: nat
    using fl64_int [of "int n"] that by simp
  from this [of 2999] this [of 3000] this [of 299900]
  have p: "passPercent 2999 3000 = fl64 (299900 / 3000)" by (simp add: passPercent_def)
  have "roundEven (fl64 (299900 / 3000) * 10) = 1000" by code_simp
  moreover have "itoa 100 = ''100''" "itoa 0 = ''0''" by code_simp+
  ultimately show ?thesis by (simp add: p fixedText_def Let_def)
qed

end
