(* ===== verification/Sweep.thy ===== *)
theory Sweep
  imports Flags Report
begin

text \<open>
  \<open>scripts/run-groups.sh\<close> from its group order to its checkpoints: one invocation of the program per group,
  and what a stop, an interrupt and a rerun do. A group's invocation is an argument, its exit status and the
  text of its log; the files under the state directory are a map from slugs to totals. Building the runner,
  the listing of groups and the final tally are left out.
\<close>

section \<open>Groups\<close>

text \<open>The frozen order: for every prefix that is a directory its subdirectories, sorted by \<open>sort\<close>, and the loose
  tests beside them.\<close>

definition groupOrder :: "(string \<times> string list \<times> bool) list \<Rightarrow> string list" where
  "groupOrder found =
     concat (map (\<lambda>(prefix, dirs, loose).
       map (\<lambda>d. prefix @ ''/'' @ d) dirs @ (if loose then [prefix @ ''#loose''] else [])) found)"

definition slug :: "string \<Rightarrow> string" where
  "slug g = map (\<lambda>c. if c = CHR ''/'' \<or> c = CHR ''#'' then CHR ''_'' else c) g"

definition grepArg :: "string \<Rightarrow> string" where
  "grepArg g = TrimSuffix g ''#loose''"

text \<open>The arguments of a group's run; \<open>jobs\<close> is empty when it was not given.\<close>

definition groupArgs :: "string \<Rightarrow> string list \<Rightarrow> string \<Rightarrow> string list" where
  "groupArgs jobs passthrough g =
     [''run'', ''--grep'', grepArg g, ''--update'', ''--expectations'', ''expectations/by-group/'' @ slug g @ ''.txt''] @
     (if jobs \<noteq> [] then [''--jobs'', jobs] else []) @ passthrough"

text \<open>
  The last line of the log that starts with \<open>TOTAL\<close>, without that word and the spaces after it. Without such a
  line \<open>grep\<close> fails, and with it, under \<open>pipefail\<close>, the assignment: \<open>set -e\<close> ends the script.
\<close>

definition shellSpace :: "char \<Rightarrow> bool" where
  "shellSpace c \<longleftrightarrow> c = SP \<or> 9 \<le> byteOf c \<and> byteOf c \<le> 13"

definition totalOf :: "string \<Rightarrow> string \<Rightarrow> string option" where
  "totalOf s out =
     (case filter (\<lambda>l. HasPrefix l ''TOTAL'') (rawLines out) of
        [] \<Rightarrow> None
      | ls \<Rightarrow>
          (let rest = dropWhile shellSpace (drop 5 (last ls)) in
           Some (if rest = [] then ''(no TOTAL line; see '' @ s @ ''.log)'' else rest)))"

section \<open>The sweep\<close>

text \<open>The groups run to their checkpoint, the checkpoints, and the exit status.\<close>

fun walkGroups ::
  "string \<Rightarrow> string \<Rightarrow> (string \<Rightarrow> nat \<times> string) \<Rightarrow> bool \<Rightarrow> string list \<Rightarrow> (string \<rightharpoonup> string) \<Rightarrow>
   string list \<times> (string \<rightharpoonup> string) \<times> nat" where
  "walkGroups start only run started [] marks = ([], marks, 0)"
| "walkGroups start only run started (g # gs) marks =
     (let started = (started \<or> Contains g start) in
      if \<not> started \<or> only \<noteq> [] \<and> \<not> Contains g only \<or> marks (slug g) \<noteq> None
      then walkGroups start only run started gs marks
      else
        (let (rc, out) = run g in
         if rc \<noteq> 0 then ([], marks, rc)
         else
           case totalOf (slug g) out of
             None \<Rightarrow> ([], marks, 1)
           | Some rest \<Rightarrow>
               (let (passed, marks', rc') = walkGroups start only run started gs (marks(slug g \<mapsto> rest))
                in (g # passed, marks', rc'))))"

definition sweep ::
  "string \<Rightarrow> string \<Rightarrow> (string \<Rightarrow> nat \<times> string) \<Rightarrow> string list \<Rightarrow> (string \<rightharpoonup> string) \<Rightarrow>
   string list \<times> (string \<rightharpoonup> string) \<times> nat" where
  "sweep start only run order marks = walkGroups start only run (start = []) order marks"

text \<open>The groups a sweep is to cover: from the first that matches on, those that match.\<close>

definition chosen :: "string \<Rightarrow> string \<Rightarrow> bool \<Rightarrow> string list \<Rightarrow> string list" where
  "chosen start only started order =
     filter (\<lambda>g. only = [] \<or> Contains g only)
       (if started then order else dropWhile (\<lambda>g. \<not> Contains g start) order)"

section \<open>Facts\<close>

lemma chosen_Cons:
  "chosen start only started (g # gs) =
     (if (started \<or> Contains g start) \<and> (only = [] \<or> Contains g only) then [g] else []) @
     chosen start only (started \<or> Contains g start) gs"
  by (auto simp: chosen_def)

text \<open>What a walk over the groups to cover leaves: the old checkpoints and one for each group it ran, and a group
  without one when it stopped.\<close>

definition sweptTo ::
  "(string \<Rightarrow> nat \<times> string) \<Rightarrow> string list \<Rightarrow> (string \<rightharpoonup> string) \<Rightarrow> string list \<Rightarrow> (string \<rightharpoonup> string) \<Rightarrow> nat \<Rightarrow> bool" where
  "sweptTo run gs marks passed marks' rc \<longleftrightarrow>
     marks \<subseteq>\<^sub>m marks' \<and> dom marks' = dom marks \<union> slug ` set passed \<and>
     (\<forall>g \<in> set passed. g \<in> set gs \<and> marks (slug g) = None \<and> fst (run g) = 0 \<and>
        totalOf (slug g) (snd (run g)) = marks' (slug g)) \<and>
     (if rc = 0 then \<forall>g \<in> set gs. marks' (slug g) \<noteq> None
      else \<exists>g \<in> set gs. marks' (slug g) = None \<and>
        (fst (run g) = rc \<or> fst (run g) = 0 \<and> totalOf (slug g) (snd (run g)) = None))"

lemma sweptTo_keep: "sweptTo run gs marks passed marks' rc \<Longrightarrow> marks k = Some t \<Longrightarrow> marks' k = Some t"
  unfolding sweptTo_def map_le_def by (metis domI)

lemma sweptTo_done:
  "sweptTo run gs marks passed marks' rc \<Longrightarrow> marks (slug g) \<noteq> None \<Longrightarrow> sweptTo run (g # gs) marks passed marks' rc"
  using sweptTo_keep [of run gs marks passed marks' rc "slug g"] by (auto simp: sweptTo_def)

lemma sweptTo_stop:
  "marks (slug g) = None \<Longrightarrow> rc \<noteq> 0 \<Longrightarrow> fst (run g) = rc \<or> fst (run g) = 0 \<and> totalOf (slug g) (snd (run g)) = None \<Longrightarrow>
   sweptTo run (g # gs) marks [] marks rc"
  by (simp add: sweptTo_def)

lemma sweptTo_pass:
  assumes "sweptTo run gs (marks(slug g \<mapsto> t)) passed marks' rc" "marks (slug g) = None"
    and "run g = (0, out)" "totalOf (slug g) out = Some t"
  shows "sweptTo run (g # gs) marks (g # passed) marks' rc"
proof -
  have g: "marks' (slug g) = Some t" by (rule sweptTo_keep [OF assms(1)]) simp
  have "marks(slug g \<mapsto> t) \<subseteq>\<^sub>m marks'" using assms(1) by (simp add: sweptTo_def)
  then have "marks \<subseteq>\<^sub>m marks'" using assms(2) by (metis fun_upd_triv map_le_imp_upd_le map_le_refl map_le_trans)
  moreover have "dom marks' = dom marks \<union> slug ` set (g # passed)" using assms(1) by (auto simp: sweptTo_def)
  moreover have "\<forall>h \<in> set (g # passed). h \<in> set (g # gs) \<and> marks (slug h) = None \<and> fst (run h) = 0 \<and>
      totalOf (slug h) (snd (run h)) = marks' (slug h)"
    using assms g by (auto simp: sweptTo_def split: if_splits)
  ultimately show ?thesis using assms(1) g unfolding sweptTo_def by auto
qed

lemma walkGroups_outcome:
  "walkGroups start only run started gs marks = (passed, marks', rc) \<Longrightarrow>
   sweptTo run (chosen start only started gs) marks passed marks' rc"
proof (induction gs arbitrary: started marks passed marks' rc)
  case Nil
  then show ?case by (simp add: chosen_def sweptTo_def)
next
  case (Cons g gs)
  let ?s = "started \<or> Contains g start"
  consider (skipped) "\<not> (?s \<and> (only = [] \<or> Contains g only))"
    | (already) "?s" "only = [] \<or> Contains g only" "marks (slug g) \<noteq> None"
    | (turn) "?s" "only = [] \<or> Contains g only" "marks (slug g) = None" by blast
  then show ?case
  proof cases
    case skipped
    with Cons.prems have "walkGroups start only run ?s gs marks = (passed, marks', rc)" by auto
    from Cons.IH [OF this] skipped show ?thesis by (auto simp: chosen_Cons)
  next
    case already
    with Cons.prems have "walkGroups start only run ?s gs marks = (passed, marks', rc)" by auto
    from sweptTo_done [OF Cons.IH [OF this] already(3)] already(1,2) show ?thesis by (auto simp: chosen_Cons)
  next
    case turn
    then have ch: "chosen start only started (g # gs) = g # chosen start only True gs" by (auto simp: chosen_Cons)
    obtain c out where r: "run g = (c, out)" by fastforce
    show ?thesis
    proof (cases "c = 0 \<and> totalOf (slug g) out \<noteq> None")
      case True
      then obtain t where t: "totalOf (slug g) out = Some t" by auto
      obtain passed1 where w: "walkGroups start only run True gs (marks(slug g \<mapsto> t)) = (passed1, marks', rc)" "passed = g # passed1"
        using Cons.prems turn True t r by (auto simp: Let_def split: prod.splits)
      from sweptTo_pass [OF Cons.IH [OF w(1)] turn(3) _ t] r True show ?thesis by (simp add: ch w(2))
    next
      case False
      with Cons.prems turn r have "passed = []" "marks' = marks" "rc \<noteq> 0" "rc = c \<or> c = 0 \<and> totalOf (slug g) out = None"
        by (auto simp: Let_def split: if_splits option.splits)
      with turn(3) r show ?thesis by (auto simp: ch intro!: sweptTo_stop)
    qed
  qed
qed

section \<open>The property\<close>

text \<open>C39. The sweep resumes: a sweep checkpoints exactly the groups it ran, each after a run that exited with
  status 0 and with the total of its log; it ends well only when each group it was to cover has a
  checkpoint, and stops at a group without one when that group's run failed or printed no total. No later
  sweep runs a group again, and the same sweep after one that ended well runs nothing.\<close>

theorem sweep_resumes:
  assumes "sweep start only run order marks = (passed, marks', rc)"
  shows "marks \<subseteq>\<^sub>m marks' \<and> dom marks' = dom marks \<union> slug ` set passed \<and>
    (\<forall>g \<in> set passed. marks (slug g) = None \<and> fst (run g) = 0 \<and> totalOf (slug g) (snd (run g)) = marks' (slug g)) \<and>
    (rc = 0 \<longrightarrow> (\<forall>g \<in> set (chosen start only (start = []) order). marks' (slug g) \<noteq> None) \<and>
       sweep start only run' order marks' = ([], marks', 0)) \<and>
    (rc \<noteq> 0 \<longrightarrow> (\<exists>g \<in> set (chosen start only (start = []) order). marks' (slug g) = None \<and>
       (fst (run g) = rc \<or> fst (run g) = 0 \<and> totalOf (slug g) (snd (run g)) = None))) \<and>
    set passed \<inter> set (fst (sweep start' only' run' order' marks')) = {}"
proof -
  note first = walkGroups_outcome [OF assms [unfolded sweep_def]]
  obtain again marks2 rc2 where again: "sweep start' only' run' order' marks' = (again, marks2, rc2)" by (metis prod_cases3)
  note second = walkGroups_outcome [OF again [unfolded sweep_def]]
  have "slug g \<in> dom marks'" if "g \<in> set passed" for g using first that by (simp add: sweptTo_def)
  then have "set passed \<inter> set again = {}" using second by (fastforce simp: dom_def sweptTo_def)
  moreover have "sweep start only run' order marks' = ([], marks', 0)" if "rc = 0"
  proof -
    obtain p m c where w: "sweep start only run' order marks' = (p, m, c)" by (metis prod_cases3)
    note third = walkGroups_outcome [OF w [unfolded sweep_def]]
    have marked: "\<forall>g \<in> set (chosen start only (start = []) order). marks' (slug g) \<noteq> None"
      using first that by (simp add: sweptTo_def)
    then have p: "p = []" using third by (cases p) (auto simp: sweptTo_def)
    have "m = marks'" using third p by (auto intro: map_le_antisym simp: map_le_def sweptTo_def)
    moreover have "c = 0" using third marked calculation by (auto simp: sweptTo_def split: if_splits)
    ultimately show ?thesis using w p by simp
  qed
  ultimately show ?thesis using first again by (auto simp: sweptTo_def)
qed

text \<open>Two groups, the second of which fails at first.\<close>

definition twoGroups :: "string list" where
  "twoGroups = groupOrder [(''test/built-ins'', [''Array'', ''ArrayBuffer''], False)]"

definition firstTry :: "string \<Rightarrow> nat \<times> string" where
  "firstTry g = (if g = ''test/built-ins/Array'' then (0, ''TOTAL 2 pass'' @ [NL]) else (1, []))"

lemma firstTry_sweep:
  "sweep [] [] firstTry twoGroups Map.empty =
     ([''test/built-ins/Array''], [''test_built-ins_Array'' \<mapsto> ''2 pass''], 1)"
proof -
  have "totalOf ''test_built-ins_Array'' (''TOTAL 2 pass'' @ [NL]) = Some ''2 pass''" by code_simp
  moreover have "slug ''test/built-ins/Array'' = ''test_built-ins_Array''" "slug ''test/built-ins/ArrayBuffer'' = ''test_built-ins_ArrayBuffer''"
    by (simp_all add: slug_def)
  ultimately show ?thesis by (simp add: sweep_def twoGroups_def groupOrder_def firstTry_def)
qed

theorem sweep_resumes_witness:
  "\<exists>g \<in> set twoGroups. g \<noteq> ''test/built-ins/Array'' \<and> fst (firstTry g) = 1 \<and>
    ''test/built-ins/Array'' \<notin> set (fst (sweep [] [] (\<lambda>g. (0, ''TOTAL'')) twoGroups [''test_built-ins_Array'' \<mapsto> ''2 pass'']))"
proof -
  from sweep_resumes [OF firstTry_sweep, of "\<lambda>g. (0, ''TOTAL'')" "[]" "[]" twoGroups]
  show ?thesis by (auto simp: twoGroups_def groupOrder_def firstTry_def)
qed

section \<open>What it does not do\<close>

text \<open>The arguments of a group's run mean what they say to the program.\<close>

lemma group_args_read:
  "dispatch (groupArgs [] [] g) = CmdRun (tl (groupArgs [] [] g))"
  "parseRun cpus (tl (groupArgs [] [] g)) =
     Parsed ((runDefaults cpus)\<lparr>fGrep := grepArg g, fUpdate := True, fExpPath := ''expectations/by-group/'' @ slug g @ ''.txt''\<rparr>) []"
  by (simp_all add: groupArgs_def dispatch_def parseRun_def classify_def splitValue_def runFlagNames_def runAssign_def ParseBool_def)

text \<open>A group is no scope of its own: \<open>--grep\<close> matches anywhere in a path, so a group's run takes in every group
  whose name continues its own.\<close>

theorem group_scopes_overlap:
  assumes "Contains (grepArg h) (grepArg g)" "grepArg g \<noteq> []"
  shows "set (Select cases (grepArg h) 0) \<subseteq> set (Select cases (grepArg g) 0)"
proof
  fix c assume c: "c \<in> set (Select cases (grepArg h) 0)"
  from assms obtain a b where h: "grepArg h = a @ grepArg g @ b" by (auto simp: Contains_iff)
  with assms(2) have "grepArg h \<noteq> []" by simp
  with c have kept: "c \<in> set cases" "Contains (cRel c) (grepArg h)" by (auto simp: Select_def)
  then obtain a' b' where "cRel c = a' @ (a @ grepArg g @ b) @ b'" by (auto simp: Contains_iff h)
  then have "cRel c = (a' @ a) @ grepArg g @ (b @ b')" by simp
  then have "Contains (cRel c) (grepArg g)" unfolding Contains_iff by blast
  with kept(1) assms(2) show "c \<in> set (Select cases (grepArg g) 0)" by (simp add: Select_def)
qed

lemma array_takes_buffers: "Contains (grepArg ''test/built-ins/ArrayBuffer'') (grepArg ''test/built-ins/Array'')"
  by code_simp

text \<open>An interrupted run is checkpointed as a finished one: it exits with status 0, and its summary has a total.\<close>

theorem interrupted_group_checkpointed:
  assumes "parseRun cpus (tl (groupArgs [] [] g)) = Parsed f []" "runMain w fs f report (Inr Interrupted) fs'"
    and "totalOf (slug g) out = Some rest"
  shows "program cpus w fs (groupArgs [] [] g) (Ran report (Inr Interrupted)) 0 fs' \<and>
    sweep [] [] (\<lambda>_. (0, out)) [g] Map.empty = ([g], [slug g \<mapsto> rest], 0)"
proof -
  have "runError f (Inr Interrupted) = None" by (simp add: runError_def)
  with program.ran [OF group_args_read(1) assms(1,2)] show ?thesis
    by (simp add: exitCode_def sweep_def assms(3))
qed

text \<open>A group without a result has no total: its summary is empty, and the sweep stops there every time, whatever
  the run's exit status.\<close>

theorem empty_group_stops:
  assumes "totalOf (slug g) (snd (run g)) = None" "marks (slug g) = None"
  shows "summaryText [] [] = [] \<and> totalOf s [] = None \<and>
    fst (sweep [] [] run (g # gs) marks) = [] \<and> snd (snd (sweep [] [] run (g # gs) marks)) \<noteq> 0"
proof -
  have "summaryText [] [] = []" by code_simp
  moreover have "totalOf s [] = None" by (simp add: totalOf_def)
  moreover obtain rc out where "run g = (rc, out)" by fastforce
  ultimately show ?thesis using assms by (simp add: sweep_def Contains_iff)
qed

end
