(* ===== verification/Spec2Isabelle.thy ===== *)
theory Spec2Isabelle
  imports GoPath GoSort HoistFacts Meta ModuleGraphFacts Includes DiscoverFacts Denylist ExpectFacts JanitorFacts Board Pipe Ledger Sweep
begin

text \<open>
  A verification development for \<open>bento262\<close>, the command that runs the test262 conformance suite through
  bento's ahead-of-time path: every test is lowered to Go, compiled, executed as a native binary and
  judged. The Go program is two packages, \<open>cmd/bento262\<close> (the command line) and \<open>pkg/tc39\<close> (everything
  else); paths below are relative to the source tree.

  \<^bold>\<open>How the program works.\<close> \<open>runMain\<close> reads a quarantine list, sizes its pool of workers, stages the
  compiler's module, finds the test files and reads their frontmatter, and expands each case into jobs, one per
  mode. A job's source is composed from harness ports and the test; an expansion that needs a missing
  port or a host flag becomes a precooked result instead. \<open>RunAll\<close> answers jobs from the results cache and feeds
  the rest to worker subprocesses, which read one JSON job per line and write one JSON result per
  line. A worker stages the job's files, compiles, builds, runs and judges it, and replays a verdict from the
  tail cache when the emitted program has been run before. Results stream into the caches as they arrive, a janitor
  keeps the build cache flat, and the command reports, records a snapshot, or compares with one.

  \<^bold>\<open>Conventions.\<close> A Go string or byte slice is a HOL \<open>string\<close>, a list of bytes. Structs are records, tagged
  values are datatypes, errors are values of \<open>goerror\<close> in a sum, panics are \<open>None\<close>. Integers are \<open>int\<close> or \<open>nat\<close> where no
  input can overflow them and \<open>64 word\<close> where one can (sizes, memory, megabyte flags). The file system
  is a list of paths with what reading each gives (theory \<open>Prelude\<close>). Go leaves the order of a \<open>range\<close> over a map
  and of concurrent goroutines open: where the code uses one, the order is an argument (a list of keys, or a
  \<open>schedule\<close> of the pool), and the properties hold for all of them. Every definition is a total function, all loops
  end by a measure and no fuel is used; the interleavings of \<open>RunAll\<close> are a step relation. Names follow the source, with
  a prefix or suffix where HOL owns the name.

  \<^bold>\<open>Standard library.\<close> What the program uses of Go's library is defined here, not assumed: \<open>strings\<close>, \<open>bufio\<close>,
  \<open>path/filepath\<close>, \<open>sort\<close>, \<open>strconv\<close> (with float64 rounding), \<open>flag\<close>, \<open>time.Duration\<close>, \<open>encoding/json\<close> (the
  writer, the reader and the struct tags, on bytes and UTF-8), SHA-256, \<open>os/exec\<close>'s environment and the verbs of \<open>fmt\<close> in the
  reports. Many definitions take the digest as an argument \<open>sha\<close>, so that what is shown of them holds for any; theory \<open>Sha256\<close>
  gives the one the program uses.

  \<^bold>\<open>Parameters.\<close> Code that is not in the repository is an argument: the YAML decoder,
  the compiler (\<open>aotEnv\<close>: it emits a program, reports a gap, rejects, or panics), the Go toolchain and the binaries it
  builds, the system calls that report memory and disk space, the working directory, and how each file
  operation and write turns out. The text of a JSON error (\<open>bad\<close>) is one too: it only goes to the console or into the
  message of a crash.

  \<^bold>\<open>Theories, with the code each models.\<close>
  \<^item> \<open>Prelude\<close>, \<open>GoStrings\<close>, \<open>GoNumber\<close>, \<open>GoPath\<close>, \<open>GoSort\<close>, \<open>WorkPool\<close>: shared ground. Errors, files, Go maps; the functions
    of \<open>strings\<close>, \<open>strconv\<close>, \<open>bufio\<close> (lines up to a limit) and \<open>path/filepath\<close> the program calls; \<open>sort.Slice\<close> with the
    locale \<open>slice_sorter\<close>, by which a sort does not depend on the order of collection; the bounded goroutine pool of
    \<open>discover.go\<close> with the locale \<open>slot_pool\<close>.
  \<^item> \<open>Utf8\<close>, \<open>Json\<close>, \<open>JsonFacts\<close>, \<open>JsonTorn\<close>, \<open>JsonGlued\<close>, \<open>Sha256\<close>, \<open>Duration\<close>, \<open>DurationFacts\<close>, \<open>GoFlag\<close>: the larger library
    parts. What is written as JSON reads back with invalid UTF-8 replaced, no strict prefix of an object's text is JSON, and
    no line of two or more pieces of cache entries is; a duration comes back through its text.
  \<^item> \<open>Wire\<close>, \<open>WireFacts\<close>: the structs \<open>Job\<close>, \<open>Result\<close>, \<open>StagedModule\<close> and \<open>cacheEntry\<close> as JSON lines, with the locale \<open>line_codec\<close>
    for what both the pipe and the cache files rely on, interpreted on the three that are lines.
  \<^item> \<open>Hoist\<close>, \<open>Patterns\<close>, \<open>HoistFacts\<close>: \<open>hoist.go\<close>, byte by byte (masking of literals, identifier scan, loop heads, the pattern
    tokenizer and walk). \<open>Patterns\<close> is a grammar of destructuring patterns with the names each binds, and the proof that the
    walk collects exactly these from a pattern of the grammar; \<open>HoistFacts\<close> is what is hoisted, where every occurrence of a
    hoisted name stands, and that masking is faithful.
  \<^item> \<open>Meta\<close>, \<open>Compose\<close>, \<open>Includes\<close>, \<open>Denylist\<close>: \<open>meta.go\<close>, \<open>compose.go\<close>, \<open>includes.go\<close>, \<open>denylist.go\<close>.
  \<^item> \<open>ModuleGraph\<close>, \<open>ModuleGraphFacts\<close>, \<open>Outcome\<close>: \<open>modulegraph.go\<close> (the regular expressions as scanners, the walk over
    imports, \<open>stageJob\<close>) and the records \<open>Job\<close> and \<open>Result\<close>.
  \<^item> \<open>Discover\<close>, \<open>DiscoverFacts\<close>: \<open>discover.go\<close>, from the checkout to jobs and precooked results.
  \<^item> \<open>Cache\<close>, \<open>CacheFacts\<close>: \<open>cache.go\<close> and the key of \<open>tailcache.go\<close>, in memory and on disk, short writes and failing steps
    included; the locale \<open>result_store\<close> is what the orchestrator relies on.
  \<^item> \<open>Durable\<close>, \<open>RunFiles\<close>: that a cache file loads at every moment of a run, however its writes are cut short, and holds
    nothing memory does not; the locale \<open>wire_runner\<close> carries this through a run.
  \<^item> \<open>Ledger\<close>: the results file through any history of runs, kills, short writes, reloads and saves (the relation \<open>ledger\<close>, with the
    locale \<open>ledger_runner\<close>): each entry that loads, and each verdict a run reports, is an answer some worker gave.
  \<^item> \<open>Fingerprint\<close>, \<open>FingerprintFacts\<close>: \<open>RuntimeHash\<close> (\<open>tailcache.go\<close>), \<open>HarnessFingerprint\<close> (\<open>harnessfp.go\<close>) and
    \<open>moduleFingerprint\<close> (\<open>aot.go\<close>), and what each pins.
  \<^item> \<open>Aot\<close>, \<open>AotFacts\<close>, \<open>Staging\<close>: \<open>aot.go\<close> and the message helpers of \<open>worker.go\<close>: \<open>ExecuteAOT\<close> with its build, run and judgement,
    the staging of the compiler's module, and the sweeps. The locale \<open>job_runner\<close> is the contract the orchestrator has with
    whatever runs a job; it is interpreted on what a worker process answers.
  \<^item> \<open>Orchestrator\<close>, \<open>OrchestratorFacts\<close>, \<open>Board\<close>: \<open>orchestrator.go\<close>. The state is where the feeder and each worker
    stand, the in-flight map, the clock, the results and the two caches; \<open>perform\<close> is what one goroutine does next and \<open>execution\<close> any
    interleaving. Invariants give that no job is lost or answered twice, that the run cannot get stuck and is
    bounded (six actions a job and a few to close down), and that nothing outlives it. \<open>Board\<close> is the abstract
    specification, pending jobs and answers, and the simulation that the pool refines it.
  \<^item> \<open>Worker\<close>, \<open>Spawn\<close>, \<open>Pipe\<close>: \<open>worker.go\<close>'s \<open>WorkerMain\<close>, and on the orchestrator's side \<open>spawnWorker\<close> with the environment it
    hands over and \<open>worker.send\<close> on the other end of the pipe, in bytes.
  \<^item> \<open>Expect\<close>, \<open>ExpectFacts\<close>: \<open>expect.go\<close>, the snapshot, the comparison, the summary and the tables of reasons.
  \<^item> \<open>Janitor\<close>, \<open>JanitorFacts\<close>: \<open>cachejanitor.go\<close>, and what builds and sweeps do to a build cache.
  \<^item> \<open>Sysinfo\<close>, \<open>SysinfoFacts\<close>: \<open>sysinfo.go\<close> and the platform probes, with the rounding of float64 written out.
  \<^item> \<open>Measure\<close>: \<open>measure.go\<close>, the lower-only pass.
  \<^item> \<open>Runner\<close>, \<open>RunnerFacts\<close>, \<open>Command\<close>, \<open>CommandFacts\<close>: \<open>main.go\<close>, part by part and then as a whole: \<open>runMain\<close> is a relation
    between a \<open>world\<close> (every answer of the machine and the libraries), the files, the flags, and the report, the ending
    and the files left. The properties here span components: every mode of every case is in the report, the exit
    status is the comparison, a killed run resumes, a recorded snapshot holds.
  \<^item> \<open>Flags\<close>: the two flag sets and \<open>main\<close> itself, \<open>program\<close>, a relation between the arguments, what the invocation came to (the
    report and the ending of a run), the exit status and the files left: flags read back, and what exit status 0 vouches for.
  \<^item> \<open>Sweep\<close>: \<open>scripts/run-groups.sh\<close>, the sweep over directory groups around the program, with its checkpoints: that it resumes, and
    where it does not do what it says.
  \<^item> \<open>Report\<close>: the bytes the command prints for a summary, a drift, the audit and a reduced pool.

  \<^bold>\<open>Reading the model.\<close> The results cache and the tail cache stream to different files of one disk; each is
  paired with its own view of the files, and \<open>Command\<close> joins the views again. The first thing \<open>RunAll\<close> does is to return when the cache
  answers every job, before any worker starts. A worker loads the tail cache when it starts, so which entries a
  recycled worker sees is left open (\<open>workerRuns\<close>). Opening the directory walk of a file list visits it in Go's
  lexical order; the walks of the janitor are lists of what the callback is given.

  One action of \<open>perform\<close> stands for what no other goroutine can tell apart from it, with two simplifications. Noting a
  job's start takes the time and stores it in one step, so the start of a job is the moment of its entry in the in-flight map. And
  an answer, a death, a failed write or the timeout ends a \<open>send\<close> that began: the write of the job, which the code makes before it
  starts the timer and which blocks on a process that lives without reading, is taken to end; that a run can always return rests on
  it, and a process that stops reading can hang the program.

  A job goes to a worker as JSON, so what runs is the job with invalid UTF-8 replaced (\<open>validJob\<close>), and so is its result. A job whose
  ID is not UTF-8 comes back under another ID, which \<open>RunAll\<close> records beside the job it waits for; \<open>workerRuns\<close> leaves such
  answers out, so the properties of runs are about jobs whose IDs are UTF-8. Files a worker or a lower-only pass makes and
  removes in its scratch directory, and what the Go toolchain writes to its cache, are no part of the files a
  \<open>program\<close> leaves.

  \<^bold>\<open>Not modelled.\<close> Lines printed while a run goes on (counts before it starts, progress, warnings on stderr), which have no effect
  on it, and the flag package's usage text; tickers, which only decide when a watch acts; the pipes and signals
  of a subprocess, whose effects are the transitions of \<open>perform\<close>; the ports under \<open>harness/\<close>, which are data here; the
  script that builds the runner, and of the sweep script its own arguments and the tally at its end.
\<close>

end
